(* ===== verification/Prelude.thy ===== *)
theory Prelude
  imports Main "HOL-Library.AList" "HOL-Library.Char_ord" "HOL-Library.List_Lexorder"
begin

text \<open>
  Shared vocabulary of the development.

  A Python \<^verbatim>\<open>str\<close> is represented by its UTF-8 bytes, one HOL character per byte, and a
  Python \<^verbatim>\<open>bytes\<close> object by the same type.  Under this reading
  \<^verbatim>\<open>s.encode("utf-8")\<close> is the identity, \<^verbatim>\<open>len(s.encode("utf-8"))\<close> is \<^const>\<open>length\<close>,
  concatenation, equality, prefix tests and replacement of ASCII characters are the list
  operations, and code point order is byte order.  \<^verbatim>\<open>utf8_valid\<close> says which byte strings
  decode.

  A \<^verbatim>\<open>dict\<close> with string keys is an insertion-ordered association list: an assignment to a
  present key keeps its position and an assignment to a new key appends, which is what
  \<^const>\<open>AList.update\<close> does.

  A raised exception is a value of \<^verbatim>\<open>exc\<close>; a fallible operation returns a sum whose left
  side is the exception.
\<close>

named_theorems dict_simps \<open>lookup and update of insertion-ordered dictionaries\<close>
named_theorems res_simps \<open>sequencing of fallible computations\<close>

type_synonym str = string
type_synonym bytes = string
type_synonym 'v dict = "(string \<times> 'v) list"

section \<open>Dynamic values\<close>

datatype pyval =
    PNone
  | PBool bool
  | PInt int
  | PFloat string
  | PStr string
  | PList "pyval list"
  | PDict "(string \<times> pyval) list"

type_synonym pydict = "pyval dict"

text \<open>Truth value testing (a float is kept as its canonical \<^verbatim>\<open>repr\<close>).\<close>

fun truthy :: "pyval \<Rightarrow> bool" where
  "truthy PNone = False"
| "truthy (PBool b) = b"
| "truthy (PInt i) = (i \<noteq> 0)"
| "truthy (PFloat r) = (r \<noteq> ''0.0'' \<and> r \<noteq> ''-0.0'')"
| "truthy (PStr s) = (s \<noteq> [])"
| "truthy (PList xs) = (xs \<noteq> [])"
| "truthy (PDict d) = (d \<noteq> [])"

section \<open>Exceptions and results\<close>

datatype exc =
    ValueError
  | TypeError
  | KeyError
  | RuntimeError
  | AttributeError
  | OverflowError
  | IndexError
  | OSError nat
  | TimeoutError
  | DriverTransient
  | DriverError
  | SqliteOperationalError
  | IllTyped string

text \<open>\<^verbatim>\<open>IllTyped f\<close> is not a Python exception: it marks a run that read payload field \<^verbatim>\<open>f\<close> at a type
  other than the annotated one, which the model does not follow further.  \<^verbatim>\<open>DriverTransient\<close> stands for the
  four retryable exception classes of the graph database driver and \<^verbatim>\<open>DriverError\<close> for its other ones.

  The error numbers the sources test for.\<close>

abbreviation ENOENT :: nat where "ENOENT \<equiv> 2"
abbreviation EEXIST :: nat where "EEXIST \<equiv> 17"
abbreviation ENAMETOOLONG :: nat where "ENAMETOOLONG \<equiv> 36"

type_synonym 'a res = "exc + 'a"

fun bind_res :: "'a res \<Rightarrow> ('a \<Rightarrow> 'b res) \<Rightarrow> 'b res" where
  "bind_res (Inl e) f = Inl e"
| "bind_res (Inr x) f = f x"

declare bind_res.simps [res_simps]

text \<open>\<^verbatim>\<open>except (OSError, ValueError)\<close>.\<close>

fun os_or_value :: "exc \<Rightarrow> bool" where
  "os_or_value (OSError e) = True"
| "os_or_value ValueError = True"
| "os_or_value _ = False"

lemma bind_res_Inr_iff [res_simps]:
  "bind_res m f = Inr y \<longleftrightarrow> (\<exists>x. m = Inr x \<and> f x = Inr y)"
  by (cases m) auto

lemma bind_res_Inl_iff:
  "bind_res m f = Inl e \<longleftrightarrow> m = Inl e \<or> (\<exists>x. m = Inr x \<and> f x = Inl e)"
  by (cases m) auto

lemma bind_res_assoc [res_simps]:
  "bind_res (bind_res m f) g = bind_res m (\<lambda>x. bind_res (f x) g)"
  by (cases m) auto

section \<open>Dictionaries\<close>

abbreviation dget :: "'v dict \<Rightarrow> string \<Rightarrow> 'v option" where
  "dget d k \<equiv> map_of d k"

abbreviation dset :: "string \<Rightarrow> 'v \<Rightarrow> 'v dict \<Rightarrow> 'v dict" where
  "dset \<equiv> AList.update"

abbreviation wf_dict :: "('k \<times> 'v) list \<Rightarrow> bool" where
  "wf_dict d \<equiv> distinct (map fst d)"

lemma dget_dset [dict_simps, simp]:
  "map_of (AList.update k v d) k' = (if k' = k then Some v else map_of d k')"
  by (simp add: update_conv')

lemma wf_dset [intro, simp]: "wf_dict d \<Longrightarrow> wf_dict (AList.update k v d)"
  by (rule distinct_update)

lemma keys_dset: "fst ` set (AList.update k v d) = insert k (fst ` set d)"
  by (simp add: dom_update)

text \<open>\<^verbatim>\<open>d.update(e)\<close>: the entries of \<^verbatim>\<open>e\<close> are assigned in their order.\<close>

definition dupdate :: "('k \<times> 'v) list \<Rightarrow> ('k \<times> 'v) list \<Rightarrow> ('k \<times> 'v) list" where
  "dupdate d e = foldl (\<lambda>acc (k, v). AList.update k v acc) d e"

lemma dupdate_Nil [simp]: "dupdate d [] = d"
  by (simp add: dupdate_def)

lemma dupdate_Cons [simp]: "dupdate d ((k, v) # e) = dupdate (AList.update k v d) e"
  by (simp add: dupdate_def)

lemma wf_dupdate [intro, simp]: "wf_dict d \<Longrightarrow> wf_dict (dupdate d e)"
  by (induction e arbitrary: d) (auto simp: distinct_update)

lemma dget_dupdate [dict_simps]:
  "wf_dict e \<Longrightarrow> map_of (dupdate d e) k = (case map_of e k of None \<Rightarrow> map_of d k | Some v \<Rightarrow> Some v)"
proof (induction e arbitrary: d)
  case (Cons p e)
  obtain k' v where p: "p = (k', v)" by (cases p)
  with Cons.prems have "map_of e k' = None" by (simp add: map_of_eq_None_iff)
  with Cons p show ?case by (auto split: option.splits)
qed simp

lemma keys_dupdate: "fst ` set (dupdate d e) = fst ` set d \<union> fst ` set e"
proof (induction e arbitrary: d)
  case (Cons p e)
  then show ?case by (cases p) (simp add: keys_dset)
qed simp

section \<open>Strings\<close>

definition starts_with :: "'a list \<Rightarrow> 'a list \<Rightarrow> bool" where
  "starts_with p s = (take (length p) s = p)"

definition ends_with :: "'a list \<Rightarrow> 'a list \<Rightarrow> bool" where
  "ends_with p s = (length p \<le> length s \<and> drop (length s - length p) s = p)"

definition contains :: "'a list \<Rightarrow> 'a list \<Rightarrow> bool" where
  "contains p s = list_ex (\<lambda>i. starts_with p (drop i s)) [0..<Suc (length s)]"

lemma ends_with_append [simp]: "ends_with p (s @ p)"
  by (simp add: ends_with_def)

lemma ends_withE: "ends_with p s \<Longrightarrow> \<exists>r. s = r @ p"
  unfolding ends_with_def by (metis append_take_drop_id)

definition replace_char :: "char \<Rightarrow> char \<Rightarrow> string \<Rightarrow> string" where
  "replace_char a b s = map (\<lambda>c. if c = a then b else c) s"

lemma length_replace_char [simp]: "length (replace_char a b s) = length s"
  by (simp add: replace_char_def)

lemma set_replace_char: "set (replace_char a b s) \<subseteq> insert b (set s - {a})"
  by (auto simp: replace_char_def)

text \<open>\<^verbatim>\<open>s[:n]\<close>, with a negative bound counted from the end.\<close>

definition slice_to :: "int \<Rightarrow> 'a list \<Rightarrow> 'a list" where
  "slice_to n xs = (if 0 \<le> n then take (nat n) xs else take (nat (int (length xs) + n)) xs)"

lemma length_slice_to: "0 \<le> n \<Longrightarrow> length (slice_to n xs) = min (length xs) (nat n)"
  by (simp add: slice_to_def)

text \<open>Strict UTF-8 decoding succeeds exactly on the byte strings accepted here: no overlong
  form, no surrogate, nothing above U+10FFFF, no truncated sequence.\<close>

definition cont_byte :: "nat \<Rightarrow> bool" where
  "cont_byte b = (0x80 \<le> b \<and> b \<le> 0xBF)"

definition utf8_width :: "nat \<Rightarrow> nat" where
  "utf8_width b = (if b < 0x80 then 1 else if 0xC2 \<le> b \<and> b \<le> 0xDF then 2
     else if 0xE0 \<le> b \<and> b \<le> 0xEF then 3 else if 0xF0 \<le> b \<and> b \<le> 0xF4 then 4 else 0)"

definition utf8_tail_ok :: "nat \<Rightarrow> nat list \<Rightarrow> bool" where
  "utf8_tail_ok b cs = (list_all cont_byte cs \<and>
     (case cs of [] \<Rightarrow> True
      | c # _ \<Rightarrow> (b = 0xE0 \<longrightarrow> 0xA0 \<le> c) \<and> (b = 0xED \<longrightarrow> c \<le> 0x9F)
               \<and> (b = 0xF0 \<longrightarrow> 0x90 \<le> c) \<and> (b = 0xF4 \<longrightarrow> c \<le> 0x8F)))"

fun utf8_scan :: "nat list \<Rightarrow> bool" where
  "utf8_scan [] = True"
| "utf8_scan (b # bs) =
    (0 < utf8_width b \<and> utf8_width b - 1 \<le> length bs
     \<and> utf8_tail_ok b (take (utf8_width b - 1) bs) \<and> utf8_scan (drop (utf8_width b - 1) bs))"

definition utf8_valid :: "string \<Rightarrow> bool" where
  "utf8_valid s = utf8_scan (map of_char s)"

lemma utf8_scan_append:
  "utf8_scan xs \<Longrightarrow> utf8_scan (xs @ ys) = utf8_scan ys"
  by (induction xs rule: utf8_scan.induct) auto

lemma utf8_scan_ascii: "\<forall>b\<in>set xs. b < 0x80 \<Longrightarrow> utf8_scan xs"
  by (induction xs) (auto simp: utf8_width_def utf8_tail_ok_def)

lemma utf8_valid_append: "utf8_valid xs \<Longrightarrow> utf8_valid (xs @ ys) = utf8_valid ys"
  by (simp add: utf8_valid_def utf8_scan_append)

section \<open>Stripping and integer literals\<close>

text \<open>The white space \<^verbatim>\<open>str.strip\<close> removes, each character as its UTF-8 bytes.\<close>

definition ws_chars :: "string list" where
  "ws_chars = map (\<lambda>n. [char_of (n::nat)]) [9, 10, 11, 12, 13, 28, 29, 30, 31, 32]
     @ [[CHR 0xC2, CHR 0x85], [CHR 0xC2, CHR 0xA0], [CHR 0xE1, CHR 0x9A, CHR 0x80]]
     @ map (\<lambda>n. [CHR 0xE2, CHR 0x80, char_of (n::nat)])
         [128, 129, 130, 131, 132, 133, 134, 135, 136, 137, 138, 168, 169, 175]
     @ [[CHR 0xE2, CHR 0x81, CHR 0x9F], [CHR 0xE3, CHR 0x80, CHR 0x80]]"

function strip_front :: "string list \<Rightarrow> string \<Rightarrow> string" where
  "strip_front ws s =
    (case find (\<lambda>w. w \<noteq> [] \<and> starts_with w s) ws of
       None \<Rightarrow> s
     | Some w \<Rightarrow> strip_front ws (drop (length w) s))"
  by pat_completeness auto
termination
proof (relation "measure (\<lambda>(ws, s). length s)", simp)
  fix ws s w
  assume "find (\<lambda>w. w \<noteq> [] \<and> starts_with w s) ws = Some w"
  then have "w \<noteq> []" and "starts_with w s" by (auto simp: find_Some_iff)
  then have "s \<noteq> []" and "0 < length w" by (auto simp: starts_with_def)
  then show "((ws, drop (length w) s), ws, s) \<in> measure (\<lambda>(ws, s). length s)"
    by (cases s) auto
qed

declare strip_front.simps [simp del]

definition py_strip :: "string \<Rightarrow> string" where
  "py_strip s = rev (strip_front (map rev ws_chars) (rev (strip_front ws_chars s)))"

text \<open>\<^verbatim>\<open>bytes.strip\<close> removes the ASCII white space only.\<close>

definition bytes_blank :: "bytes \<Rightarrow> bool" where
  "bytes_blank b = list_all (\<lambda>c. c \<in> set [CHR 0x09, CHR 0x0A, CHR 0x0B, CHR 0x0C, CHR 0x0D, CHR 0x20]) b"

text \<open>\<^verbatim>\<open>str.splitlines()\<close>: a carriage return absorbs a following line feed.\<close>

definition line_breaks :: "string list" where
  "line_breaks = map (\<lambda>n. [char_of (n::nat)]) [10, 11, 12, 28, 29, 30]
     @ [[CHR 0x0D, CHR 0x0A], [CHR 0x0D], [CHR 0xC2, CHR 0x85],
        [CHR 0xE2, CHR 0x80, CHR 0xA8], [CHR 0xE2, CHR 0x80, CHR 0xA9]]"

function splitlines_from :: "string \<Rightarrow> string \<Rightarrow> string list" where
  "splitlines_from acc [] = (if acc = [] then [] else [acc])"
| "splitlines_from acc (c # cs) =
    (case find (\<lambda>w. w \<noteq> [] \<and> starts_with w (c # cs)) line_breaks of
       None \<Rightarrow> splitlines_from (acc @ [c]) cs
     | Some w \<Rightarrow> acc # splitlines_from [] (drop (length w - 1) cs))"
  by pat_completeness auto
termination
  by (relation "measure (\<lambda>(acc, s). length s)") auto

definition splitlines :: "string \<Rightarrow> string list" where
  "splitlines s = splitlines_from [] s"

definition is_digit :: "char \<Rightarrow> bool" where
  "is_digit c = (48 \<le> (of_char c :: nat) \<and> of_char c \<le> (57 :: nat))"

definition digit_val :: "char \<Rightarrow> int" where
  "digit_val c = int (of_char c) - 48"

text \<open>The digits of \<^verbatim>\<open>int(text)\<close>: single underscores may separate digits.\<close>

fun dec_digits :: "int \<Rightarrow> bool \<Rightarrow> string \<Rightarrow> int option" where
  "dec_digits acc after_digit [] = (if after_digit then Some acc else None)"
| "dec_digits acc after_digit (c # cs) =
    (if is_digit c then dec_digits (10 * acc + digit_val c) True cs
     else if c = CHR ''_'' \<and> after_digit then dec_digits acc False cs
     else None)"

text \<open>\<^verbatim>\<open>int(text)\<close> on stripped ASCII text; anything else raises \<^verbatim>\<open>ValueError\<close>, as does a
  literal of more than 4300 digits.\<close>

definition INT_MAX_STR_DIGITS :: nat where
  "INT_MAX_STR_DIGITS = 4300"

definition py_int :: "string \<Rightarrow> int res" where
  "py_int s =
    (let neg = (s \<noteq> [] \<and> hd s = CHR ''-'');
         ds = (if s \<noteq> [] \<and> hd s \<in> {CHR ''-'', CHR ''+''} then tl s else s)
     in if INT_MAX_STR_DIGITS < length (filter is_digit ds) then Inl ValueError
        else case dec_digits 0 False ds of
               None \<Rightarrow> Inl ValueError
             | Some v \<Rightarrow> Inr (if neg then - v else v))"

text \<open>Decimal rendering of integers (\<^verbatim>\<open>f"{epoch_ms}"\<close>).\<close>

fun nat_dec :: "nat \<Rightarrow> str" where
  "nat_dec n = (if n < 10 then [char_of (48 + n)] else nat_dec (n div 10) @ [char_of (48 + n mod 10)])"

declare nat_dec.simps [simp del]

definition int_dec :: "int \<Rightarrow> str" where
  "int_dec i = (if i < 0 then ''-'' @ nat_dec (nat (- i)) else nat_dec (nat i))"

section \<open>Decimal round trip\<close>

lemma is_digit_char_of: "n < 10 \<Longrightarrow> is_digit (char_of (48 + n :: nat))"
  by (simp add: is_digit_def)

lemma digit_val_char_of: "n < 10 \<Longrightarrow> digit_val (char_of (48 + n :: nat)) = int n"
  by (simp add: digit_val_def)

lemma nat_dec_ne [simp]: "nat_dec n \<noteq> []"
  by (subst nat_dec.simps) simp

lemma nat_dec_digits: "list_all is_digit (nat_dec n)"
proof (induction n rule: nat_dec.induct)
  case (1 n)
  then show ?case
    by (cases "n < 10") (simp_all add: nat_dec.simps [of n] is_digit_char_of)
qed

lemma dec_digits_nat_dec:
  "dec_digits 0 b (nat_dec n @ ys) = dec_digits (int n) True ys"
proof (induction n arbitrary: ys rule: nat_dec.induct)
  case (1 n)
  show ?case
  proof (cases "n < 10")
    case True
    then show ?thesis
      by (simp add: nat_dec.simps [of n] is_digit_char_of digit_val_char_of)
  next
    case False
    have m: "n mod 10 < 10" by simp
    have e: "10 * int (n div 10) + int (n mod 10) = int n"
      using mult_div_mod_eq [of 10 n] by linarith
    from False show ?thesis
      by (simp only: nat_dec.simps [of n] if_False append.assoc append_Cons append_Nil 1 [OF False]
          dec_digits.simps is_digit_char_of [OF m] digit_val_char_of [OF m] if_True e)
  qed
qed

lemma length_nat_dec: "n < 10 ^ k \<Longrightarrow> 0 < k \<Longrightarrow> length (nat_dec n) \<le> k"
proof (induction n arbitrary: k rule: nat_dec.induct)
  case (1 n)
  show ?case
  proof (cases "n < 10")
    case True
    then show ?thesis using 1(3) by (simp add: nat_dec.simps [of n])
  next
    case False
    with 1(2) have "k \<noteq> 1" by auto
    with 1(3) obtain j where k: "k = Suc (Suc j)"
      by (cases k; cases "k - 1") auto
    have "n div 10 < 10 ^ Suc j" using 1(2) k by (simp add: less_mult_imp_div_less mult.commute)
    from 1(1) [OF False this] show ?thesis
      using False k by (simp add: nat_dec.simps [of n])
  qed
qed

lemma is_digit_not_sign: "is_digit c \<Longrightarrow> c \<noteq> CHR ''-'' \<and> c \<noteq> CHR ''+''"
  by (auto simp: is_digit_def)

lemma py_int_nat_dec:
  assumes "n < 10 ^ INT_MAX_STR_DIGITS"
  shows "py_int (nat_dec n) = Inr (int n)"
proof -
  obtain c r where cr: "nat_dec n = c # r" by (cases "nat_dec n") auto
  with nat_dec_digits [of n] have "is_digit c" by simp
  then have c: "c \<noteq> CHR ''-''" "c \<noteq> CHR ''+''" by (auto dest: is_digit_not_sign)
  have "length (filter is_digit (c # r)) \<le> INT_MAX_STR_DIGITS"
    using length_nat_dec [OF assms] length_filter_le [of is_digit "nat_dec n"] cr
    by (simp add: INT_MAX_STR_DIGITS_def)
  then have len: "\<not> INT_MAX_STR_DIGITS < length (filter is_digit (c # r))" by simp
  have "dec_digits 0 False (c # r) = Some (int n)"
    using dec_digits_nat_dec [of False n "[]"] cr by simp
  with len c show ?thesis unfolding py_int_def cr Let_def by (simp del: filter.simps dec_digits.simps)
qed

end
