(* ===== verification/Ops.thy ===== *)
theory Ops
  imports Prelude
begin

text \<open>
  Stateful, fallible operations.  An operation takes a state and returns its result or the
  exception it raised, together with the state it leaves: an exception does not undo the writes made
  before it.  \<^verbatim>\<open>keeps P m\<close> says that an operation preserves a state predicate whether it
  returns or raises; its rules are collected in \<^verbatim>\<open>keeps_rules\<close>.
\<close>

type_synonym ('s, 'a) op = "'s \<Rightarrow> 'a res \<times> 's"

definition ret :: "'a \<Rightarrow> ('s, 'a) op" where
  "ret x s = (Inr x, s)"

definition raise_op :: "exc \<Rightarrow> ('s, 'a) op" where
  "raise_op e s = (Inl e, s)"

definition bnd :: "('s, 'a) op \<Rightarrow> ('a \<Rightarrow> ('s, 'b) op) \<Rightarrow> ('s, 'b) op" where
  "bnd m f s = (case m s of (Inl e, s') \<Rightarrow> (Inl e, s') | (Inr x, s') \<Rightarrow> f x s')"

definition gets :: "('s \<Rightarrow> 'a) \<Rightarrow> ('s, 'a) op" where
  "gets f s = (Inr (f s), s)"

definition modify :: "('s \<Rightarrow> 's) \<Rightarrow> ('s, unit) op" where
  "modify f s = (Inr (), f s)"

definition lift_res :: "'a res \<Rightarrow> ('s, 'a) op" where
  "lift_res r s = (r, s)"

definition when_op :: "bool \<Rightarrow> ('s, unit) op \<Rightarrow> ('s, unit) op" where
  "when_op b m = (if b then m else ret ())"

fun seq_ops :: "('s, unit) op list \<Rightarrow> ('s, unit) op" where
  "seq_ops [] = ret ()"
| "seq_ops (m # ms) = bnd m (\<lambda>_. seq_ops ms)"

text \<open>\<^verbatim>\<open>for x in xs: body\<close>\<close>

fun for_each :: "'a list \<Rightarrow> ('a \<Rightarrow> ('s, unit) op) \<Rightarrow> ('s, unit) op" where
  "for_each [] f = ret ()"
| "for_each (x # xs) f = bnd (f x) (\<lambda>_. for_each xs f)"

text \<open>\<^verbatim>\<open>try: body except Exception: pass\<close>, the writes of the body staying.\<close>

definition try_pass :: "('s, unit) op \<Rightarrow> ('s, unit) op" where
  "try_pass m s = (Inr (), snd (m s))"

section \<open>Evaluation\<close>

named_theorems op_simps \<open>evaluation of operations\<close>

lemma bnd_ret [op_simps]: "bnd (ret x) f = f x"
  by (simp add: bnd_def ret_def fun_eq_iff)

lemma bnd_gets [op_simps]: "bnd (gets g) f s = f (g s) s"
  by (simp add: bnd_def gets_def)

lemma bnd_modify [op_simps]: "bnd (modify g) f s = f () (g s)"
  by (simp add: bnd_def modify_def)

lemma bnd_raise [op_simps]: "bnd (raise_op e) f = raise_op e"
  by (simp add: bnd_def raise_op_def fun_eq_iff)

lemma bnd_lift_Inr [op_simps]: "bnd (lift_res (Inr x)) f = f x"
  by (simp add: bnd_def lift_res_def fun_eq_iff)

lemma bnd_lift_Inl [op_simps]: "bnd (lift_res (Inl e)) f = raise_op e"
  by (simp add: bnd_def lift_res_def raise_op_def fun_eq_iff)

lemma bnd_assoc [op_simps]: "bnd (bnd m f) g = bnd m (\<lambda>x. bnd (f x) g)"
  by (auto simp: bnd_def fun_eq_iff split: prod.splits sum.splits)

lemma bnd_Inr_iff: "bnd m f s = (Inr y, s'') \<longleftrightarrow> (\<exists>x s'. m s = (Inr x, s') \<and> f x s' = (Inr y, s''))"
  by (auto simp: bnd_def split: prod.splits sum.splits)

declare seq_ops.simps [op_simps] for_each.simps [op_simps]

lemma seq_ops_append: "seq_ops (ms @ ns) = bnd (seq_ops ms) (\<lambda>_. seq_ops ns)"
  by (induction ms) (simp_all add: op_simps)

section \<open>Invariants\<close>

named_theorems keeps_rules \<open>preservation of a state predicate by operations\<close>

definition keeps :: "('s \<Rightarrow> bool) \<Rightarrow> ('s, 'a) op \<Rightarrow> bool" where
  "keeps P m = (\<forall>s. P s \<longrightarrow> P (snd (m s)))"

lemma keepsD: "keeps P m \<Longrightarrow> P s \<Longrightarrow> m s = (r, s') \<Longrightarrow> P s'"
  by (metis keeps_def snd_conv)

lemma keeps_ret [keeps_rules]: "keeps P (ret x)"
  by (simp add: keeps_def ret_def)

lemma keeps_raise [keeps_rules]: "keeps P (raise_op e)"
  by (simp add: keeps_def raise_op_def)

lemma keeps_gets [keeps_rules]: "keeps P (gets f)"
  by (simp add: keeps_def gets_def)

lemma keeps_lift [keeps_rules]: "keeps P (lift_res r)"
  by (simp add: keeps_def lift_res_def)

lemma keeps_modify: "(\<And>s. P s \<Longrightarrow> P (f s)) \<Longrightarrow> keeps P (modify f)"
  by (simp add: keeps_def modify_def)

lemma keeps_bnd [keeps_rules]: "keeps P m \<Longrightarrow> (\<And>x. keeps P (f x)) \<Longrightarrow> keeps P (bnd m f)"
  unfolding keeps_def bnd_def by (metis (mono_tags, lifting) old.sum.exhaust old.sum.simps(5) old.sum.simps(6) prod.case_eq_if prod.collapse snd_conv)

lemma keeps_when [keeps_rules]: "(b \<Longrightarrow> keeps P m) \<Longrightarrow> keeps P (when_op b m)"
  by (simp add: when_op_def keeps_ret)

lemma keeps_if [keeps_rules]: "(b \<Longrightarrow> keeps P m) \<Longrightarrow> (\<not> b \<Longrightarrow> keeps P n) \<Longrightarrow> keeps P (if b then m else n)"
  by simp

lemma keeps_option [keeps_rules]:
  "keeps P m \<Longrightarrow> (\<And>x. keeps P (f x)) \<Longrightarrow> keeps P (case v of None \<Rightarrow> m | Some x \<Rightarrow> f x)"
  by (cases v) auto

lemma keeps_seq_Nil [keeps_rules]: "keeps P (seq_ops [])"
  by (simp add: keeps_ret)

lemma keeps_seq_Cons [keeps_rules]: "keeps P m \<Longrightarrow> keeps P (seq_ops ms) \<Longrightarrow> keeps P (seq_ops (m # ms))"
  by (simp add: keeps_bnd)

lemma keeps_for [keeps_rules]: "(\<And>x. keeps P (f x)) \<Longrightarrow> keeps P (for_each xs f)"
  by (induction xs) (auto intro!: keeps_ret keeps_bnd)

lemma keeps_try [keeps_rules]: "keeps P m \<Longrightarrow> keeps P (try_pass m)"
  by (simp add: keeps_def try_pass_def)

lemma keeps_let [keeps_rules]: "keeps P (f x) \<Longrightarrow> keeps P (Let x f)"
  by simp

lemma keeps_conj: "keeps P m \<Longrightarrow> keeps Q m \<Longrightarrow> keeps (\<lambda>s. P s \<and> Q s) m"
  by (simp add: keeps_def)

text \<open>\<^verbatim>\<open>leads A B m\<close>: from a state satisfying \<^verbatim>\<open>A\<close> the operation ends, however it ends, in one
  satisfying \<^verbatim>\<open>B\<close>.\<close>

definition leads :: "('s \<Rightarrow> bool) \<Rightarrow> ('s \<Rightarrow> bool) \<Rightarrow> ('s, 'a) op \<Rightarrow> bool" where
  "leads A B m = (\<forall>s. A s \<longrightarrow> B (snd (m s)))"

lemma keeps_leads: "leads P P m \<Longrightarrow> keeps P m"
  by (simp add: leads_def keeps_def)

lemma leads_keeps: "keeps A m \<Longrightarrow> (\<And>s. A s \<Longrightarrow> B s) \<Longrightarrow> leads A B m"
  by (simp add: leads_def keeps_def)

lemma leads_bnd:
  assumes "keeps A m" and "\<And>x. leads A B (f x)" and "\<And>s. A s \<Longrightarrow> B s"
  shows "leads A B (bnd m f)"
  unfolding leads_def
proof (intro allI impI)
  fix s assume "A s"
  then have "A (snd (m s))" using assms(1) by (simp add: keeps_def)
  then show "B (snd (bnd m f s))"
    using assms(2,3) by (cases "m s"; cases "fst (m s)") (auto simp: bnd_def leads_def)
qed

lemma leads_then:
  assumes "leads A B m" and "\<And>x. keeps B (f x)"
  shows "leads A B (bnd m f)"
  unfolding leads_def
proof (intro allI impI)
  fix s assume "A s"
  then have "B (snd (m s))" using assms(1) by (simp add: leads_def)
  then show "B (snd (bnd m f s))"
    using assms(2) by (cases "m s"; cases "fst (m s)") (auto simp: bnd_def keeps_def)
qed

lemma leads_gets: "(\<And>x. leads (\<lambda>s. A s \<and> g s = x) B (f x)) \<Longrightarrow> leads A B (bnd (gets g) f)"
  by (auto simp: leads_def op_simps)

lemma leads_lift: "(\<And>x. r = Inr x \<Longrightarrow> leads A B (f x)) \<Longrightarrow> (\<And>s. A s \<Longrightarrow> B s) \<Longrightarrow> leads A B (bnd (lift_res r) f)"
  by (cases r) (simp_all add: op_simps leads_keeps keeps_raise)

lemma leads_weaken: "(\<And>s. A s \<Longrightarrow> A' s) \<Longrightarrow> leads A' B m \<Longrightarrow> leads A B m"
  by (simp add: leads_def)

text \<open>\<^verbatim>\<open>yields A m B\<close>: from a state satisfying \<^verbatim>\<open>A\<close>, if the operation returns then in a state satisfying
  \<^verbatim>\<open>B\<close>.\<close>

definition yields :: "('s \<Rightarrow> bool) \<Rightarrow> ('s, 'a) op \<Rightarrow> ('s \<Rightarrow> bool) \<Rightarrow> bool" where
  "yields A m B = (\<forall>s x s'. A s \<longrightarrow> m s = (Inr x, s') \<longrightarrow> B s')"

lemma yieldsD: "yields A m B \<Longrightarrow> A s \<Longrightarrow> m s = (Inr x, s') \<Longrightarrow> B s'"
  by (simp add: yields_def)

lemma yields_keeps: "keeps A m \<Longrightarrow> yields A m A"
  by (auto simp: yields_def dest: keepsD)

lemma yields_bnd: "yields A m C \<Longrightarrow> (\<And>x. yields C (f x) B) \<Longrightarrow> yields A (bnd m f) B"
  unfolding yields_def bnd_Inr_iff by blast

lemma yields_after: "keeps A m \<Longrightarrow> (\<And>x. yields A (f x) B) \<Longrightarrow> yields A (bnd m f) B"
  by (rule yields_bnd [OF yields_keeps])

lemma yields_before: "yields A m B \<Longrightarrow> (\<And>x. keeps B (f x)) \<Longrightarrow> yields A (bnd m f) B"
  by (rule yields_bnd) (auto intro: yields_keeps)

lemma yields_gets: "(\<And>x. yields (\<lambda>s. A s \<and> g s = x) (f x) B) \<Longrightarrow> yields A (bnd (gets g) f) B"
  by (auto simp: yields_def op_simps)

lemma yields_lift: "(\<And>x. r = Inr x \<Longrightarrow> yields A (f x) B) \<Longrightarrow> yields A (bnd (lift_res r) f) B"
  by (cases r) (simp_all add: op_simps yields_def raise_op_def)

lemma yields_if: "(b \<Longrightarrow> yields A m B) \<Longrightarrow> (\<not> b \<Longrightarrow> yields A n B) \<Longrightarrow> yields A (if b then m else n) B"
  by simp

lemma yields_ret: "yields A (ret x) A"
  by (simp add: yields_def ret_def)

lemma yields_weaken: "(\<And>s. A s \<Longrightarrow> A' s) \<Longrightarrow> yields A' m B \<Longrightarrow> yields A m B"
  unfolding yields_def by blast

section \<open>Totality\<close>

named_theorems returns_rules \<open>operations that never raise\<close>

definition returns :: "('s, 'a) op \<Rightarrow> bool" where
  "returns m = (\<forall>s. \<exists>x s'. m s = (Inr x, s'))"

lemma returns_ret [returns_rules]: "returns (ret x)"
  by (simp add: returns_def ret_def)

lemma returns_gets [returns_rules]: "returns (gets f)"
  by (simp add: returns_def gets_def)

lemma returns_modify [returns_rules]: "returns (modify f)"
  by (simp add: returns_def modify_def)

lemma returns_bnd [returns_rules]: "returns m \<Longrightarrow> (\<And>x. returns (f x)) \<Longrightarrow> returns (bnd m f)"
  unfolding returns_def bnd_Inr_iff by blast

lemma returns_lift: "r = Inr x \<Longrightarrow> returns (f x) \<Longrightarrow> returns (bnd (lift_res r) f)"
  by (simp add: op_simps)

lemma returns_when [returns_rules]: "(b \<Longrightarrow> returns m) \<Longrightarrow> returns (when_op b m)"
  by (simp add: when_op_def returns_ret)

lemma returns_if [returns_rules]: "(b \<Longrightarrow> returns m) \<Longrightarrow> (\<not> b \<Longrightarrow> returns n) \<Longrightarrow> returns (if b then m else n)"
  by simp

lemma returns_option [returns_rules]:
  "(v = None \<Longrightarrow> returns m) \<Longrightarrow> (\<And>x. v = Some x \<Longrightarrow> returns (f x)) \<Longrightarrow>
    returns (case v of None \<Rightarrow> m | Some x \<Rightarrow> f x)"
  by (cases v) auto

lemma returns_seq_Nil [returns_rules]: "returns (seq_ops [])"
  by (simp add: returns_ret)

lemma returns_seq_Cons [returns_rules]: "returns m \<Longrightarrow> returns (seq_ops ms) \<Longrightarrow> returns (seq_ops (m # ms))"
  by (simp add: returns_bnd)

lemma returns_for [returns_rules]: "(\<And>x. returns (f x)) \<Longrightarrow> returns (for_each xs f)"
  by (induction xs) (auto intro!: returns_ret returns_bnd)

lemma returns_try [returns_rules]: "returns (try_pass m)"
  by (simp add: returns_def try_pass_def)

section \<open>Reading payload fields\<close>

text \<open>\<^verbatim>\<open>data.get(key, default)\<close> for a field annotated \<^verbatim>\<open>str\<close>, and \<^verbatim>\<open>data.get(key)\<close> for one
  annotated \<^verbatim>\<open>str | None\<close>.\<close>

definition str_field :: "pydict \<Rightarrow> string \<Rightarrow> str \<Rightarrow> str res" where
  "str_field data key dflt =
    (case dget data key of None \<Rightarrow> Inr dflt | Some (PStr s) \<Rightarrow> Inr s | Some _ \<Rightarrow> Inl (IllTyped key))"

definition opt_str_field :: "pydict \<Rightarrow> string \<Rightarrow> str option res" where
  "opt_str_field data key =
    (case dget data key of
       None \<Rightarrow> Inr None | Some PNone \<Rightarrow> Inr None | Some (PStr s) \<Rightarrow> Inr (Some s)
     | Some _ \<Rightarrow> Inl (IllTyped key))"

text \<open>\<^verbatim>\<open>data.get(key)\<close> kept as a value.\<close>

definition any_field :: "pydict \<Rightarrow> string \<Rightarrow> pyval" where
  "any_field data key = (case dget data key of None \<Rightarrow> PNone | Some v \<Rightarrow> v)"

text \<open>\<^verbatim>\<open>data.get(key)\<close> tested for truth and then used as a string: a falsy value of any type reads as
  absent.\<close>

definition truthy_str :: "pydict \<Rightarrow> string \<Rightarrow> str option res" where
  "truthy_str data key =
    (case any_field data key of
       PStr s \<Rightarrow> Inr (if s = [] then None else Some s)
     | v \<Rightarrow> if truthy v then Inl (IllTyped key) else Inr None)"

text \<open>\<^verbatim>\<open>str(v)\<close> and \<^verbatim>\<open>f"{v}"\<close> of a scalar.\<close>

definition py_str :: "pyval \<Rightarrow> str res" where
  "py_str v =
    (case v of
       PNone \<Rightarrow> Inr ''None''
     | PBool b \<Rightarrow> Inr (if b then ''True'' else ''False'')
     | PInt i \<Rightarrow> Inr (int_dec i)
     | PFloat r \<Rightarrow> Inr r
     | PStr s \<Rightarrow> Inr s
     | _ \<Rightarrow> Inl (IllTyped ''str''))"

end
