(* ===== verification/Graph.thy ===== *)
theory Graph
  imports Ops
begin

text \<open>
  \<^verbatim>\<open>GraphState\<close> of \<^verbatim>\<open>services.py\<close>: the in-memory property graph the handlers write to, the
  resolution of the tree of sessions around one session, and the deletion of that tree.

  \<^verbatim>\<open>_nodes\<close> and \<^verbatim>\<open>_edges\<close> are insertion-ordered dictionaries, the second keyed by the pair of
  end points.  A label set is stored under \<^verbatim>\<open>labels\<close> as the sorted list the code stores.
  A \<^verbatim>\<open>set\<close> used as a worklist's visited set is the list of its elements in the order they were
  added; every result that depends on it is a set, a count or a maximum.
\<close>

section \<open>Datetimes\<close>

text \<open>A \<^verbatim>\<open>datetime\<close> is an instant with or without an offset; ordering the two kinds against each
  other raises \<^verbatim>\<open>TypeError\<close>.\<close>

datatype datetime = Naive int | Aware int

fun dt_less :: "datetime \<Rightarrow> datetime \<Rightarrow> bool res" where
  "dt_less (Naive a) (Naive b) = Inr (a < b)"
| "dt_less (Aware a) (Aware b) = Inr (a < b)"
| "dt_less _ _ = Inl TypeError"

section \<open>The store\<close>

record graph =
  g_workspace :: str
  g_created_by :: "str option"
  g_nodes :: "pydict dict"
  g_edges :: "((str \<times> str) \<times> pydict) list"

definition GraphState :: "str \<Rightarrow> graph" where
  "GraphState workspace = \<lparr>g_workspace = workspace, g_created_by = None, g_nodes = [], g_edges = []\<rparr>"

definition sorted_set :: "str list \<Rightarrow> str list" where
  "sorted_set xs = sort (remdups xs)"

fun strs_of :: "pyval list \<Rightarrow> str list" where
  "strs_of [] = []"
| "strs_of (PStr s # vs) = s # strs_of vs"
| "strs_of (_ # vs) = strs_of vs"

definition label_list :: "str list \<Rightarrow> pyval" where
  "label_list ls = PList (map PStr ls)"

definition as_labels :: "pyval option \<Rightarrow> str list" where
  "as_labels v = (case v of Some (PList vs) \<Rightarrow> strs_of vs | _ \<Rightarrow> [])"

text \<open>\<^verbatim>\<open>data.get("labels", [])\<close>\<close>

definition labels_of :: "pydict \<Rightarrow> str list" where
  "labels_of d = as_labels (dget d ''labels'')"

definition node_or_empty :: "graph \<Rightarrow> str \<Rightarrow> pydict" where
  "node_or_empty g n = (case dget (g_nodes g) n of None \<Rightarrow> [] | Some d \<Rightarrow> d)"

definition merge_props :: "pydict \<Rightarrow> pydict \<Rightarrow> pydict" where
  "merge_props existing data =
    (let existing =
       (case dget data ''labels'' of
          None \<Rightarrow> existing
        | Some ls \<Rightarrow> dset ''labels'' (label_list (sorted_set (labels_of existing @ as_labels (Some ls)))) existing);
         provisional = any_field data ''status_if_absent'';
         existing = dupdate existing
           (filter (\<lambda>(key, value). key \<noteq> ''labels'' \<and> key \<noteq> ''status_if_absent'') data)
     in if provisional \<noteq> PNone \<and> \<not> truthy (any_field existing ''status'')
        then dset ''status'' provisional existing else existing)"

definition upsert_node :: "str \<Rightarrow> pydict \<Rightarrow> graph \<Rightarrow> graph" where
  "upsert_node node_id data g =
    g\<lparr>g_nodes := dset node_id (merge_props (node_or_empty g node_id) data) (g_nodes g)\<rparr>"

definition get_node :: "str \<Rightarrow> graph \<Rightarrow> pydict option" where
  "get_node node_id g = dget (g_nodes g) node_id"

definition upsert_edge :: "str \<Rightarrow> str \<Rightarrow> pydict \<Rightarrow> graph \<Rightarrow> graph" where
  "upsert_edge src_id dst_id data g =
    (let key = (src_id, dst_id);
         existing = (case map_of (g_edges g) key of None \<Rightarrow> [] | Some d \<Rightarrow> d)
     in g\<lparr>g_edges := AList.update key (dupdate existing data) (g_edges g)\<rparr>)"

definition get_edge :: "str \<Rightarrow> str \<Rightarrow> graph \<Rightarrow> pydict option" where
  "get_edge src_id dst_id g = map_of (g_edges g) (src_id, dst_id)"

fun find_delegation_in :: "str \<Rightarrow> pydict dict \<Rightarrow> pydict option" where
  "find_delegation_in sub [] = None"
| "find_delegation_in sub ((n, d) # rest) =
    (if ''Delegation'' \<in> set (labels_of d) \<and> dget d ''sub_session_id'' = Some (PStr sub)
     then Some d else find_delegation_in sub rest)"

definition find_delegation_by_sub_session :: "str \<Rightarrow> graph \<Rightarrow> pydict option" where
  "find_delegation_by_sub_session sub g = find_delegation_in sub (g_nodes g)"

definition remove_edge :: "str \<Rightarrow> str \<Rightarrow> graph \<Rightarrow> graph" where
  "remove_edge src_id dst_id g = g\<lparr>g_edges := AList.delete (src_id, dst_id) (g_edges g)\<rparr>"

definition set_labels :: "str \<Rightarrow> str list \<Rightarrow> str list \<Rightarrow> graph \<Rightarrow> graph" where
  "set_labels node_id remove_labels add_labels g =
    (let existing = node_or_empty g node_id;
         current = filter (\<lambda>l. l \<notin> set remove_labels) (labels_of existing)
     in g\<lparr>g_nodes := dset node_id
            (dset ''labels'' (label_list (sorted_set (current @ add_labels))) existing) (g_nodes g)\<rparr>)"

section \<open>Session trees\<close>

definition GRAPH_EDGE_TYPES :: "str list" where
  "GRAPH_EDGE_TYPES = [''HAS_SUBSESSION'', ''FORKED'']"

definition all_links :: "graph \<Rightarrow> (str \<times> str) list" where
  "all_links g = map fst (g_edges g)"

definition tree_links :: "graph \<Rightarrow> (str \<times> str) list" where
  "tree_links g =
    map fst (filter (\<lambda>(k, d). dget d ''type'' \<in> (\<lambda>t. Some (PStr t)) ` set GRAPH_EDGE_TYPES) (g_edges g))"

text \<open>\<^verbatim>\<open>parent_of[dst] = src\<close> over the edges in order, and \<^verbatim>\<open>outgoing.get(nid, [])\<close>.\<close>

definition parent_map :: "(str \<times> str) list \<Rightarrow> str dict" where
  "parent_map E = foldl (\<lambda>d (src, dst). dset dst src d) [] E"

definition targets :: "(str \<times> str) list \<Rightarrow> str \<Rightarrow> str list" where
  "targets E nid = map snd (filter (\<lambda>(src, dst). src = nid) E)"

function walk_up :: "str dict \<Rightarrow> str \<Rightarrow> str list \<Rightarrow> str" where
  "walk_up parent_of root_id visited_up =
    (case dget parent_of root_id of
       None \<Rightarrow> root_id
     | Some p \<Rightarrow> if p \<in> set visited_up then p else walk_up parent_of p (p # visited_up))"
  by pat_completeness auto
termination
proof (relation "measure (\<lambda>(P, r, v). card (snd ` set P - set v))", goal_cases)
  case (2 P r v p)
  have "p \<in> snd ` set P" using 2(1) by (force dest: map_of_SomeD)
  then have "snd ` set P - set (p # v) \<subset> snd ` set P - set v" using 2(2) by auto
  then show ?case by (auto intro!: psubset_card_mono)
qed simp

declare walk_up.simps [simp del]

text \<open>The worklist loop: the end of the Python list, where \<^verbatim>\<open>pop\<close> and \<^verbatim>\<open>extend\<close> work, is the head
  here.  \<^verbatim>\<open>stop\<close> says at which nodes the expansion ends.\<close>

function explore :: "(str \<times> str) list \<Rightarrow> (str \<Rightarrow> bool) \<Rightarrow> str list \<Rightarrow> str list \<Rightarrow> str list" where
  "explore E stop seen [] = seen"
| "explore E stop seen (nid # stack) =
    (if nid \<in> set seen then explore E stop seen stack
     else if stop nid then explore E stop (seen @ [nid]) stack
     else explore E stop (seen @ [nid]) (rev (targets E nid) @ stack))"
  by pat_completeness auto
termination
proof (relation "(\<lambda>(E, stop, seen, stack). card ((snd ` set E \<union> set stack) - set seen)) <*mlex*>
                 measure (\<lambda>(E, stop, seen, stack). length stack)", goal_cases)
  case (1) then show ?case by (simp add: wf_mlex)
next
  case (2 E stop seen nid stack)
  then have "(snd ` set E \<union> set stack) - set seen = (snd ` set E \<union> set (nid # stack)) - set seen" by auto
  then show ?case by (intro mlex_leq) auto
next
  case (3 E stop seen nid stack)
  have "(snd ` set E \<union> set stack) - set (seen @ [nid]) \<subset> (snd ` set E \<union> set (nid # stack)) - set seen"
    using 3 by auto
  then show ?case by (intro mlex_less) (auto intro!: psubset_card_mono)
next
  case (4 E stop seen nid stack)
  have "set (targets E nid) \<subseteq> snd ` set E" by (auto simp: targets_def)
  then have "(snd ` set E \<union> set (rev (targets E nid) @ stack)) - set (seen @ [nid])
               \<subset> (snd ` set E \<union> set (nid # stack)) - set seen"
    using 4 by auto
  then show ?case by (intro mlex_less) (auto intro!: psubset_card_mono)
qed

definition is_concept :: "graph \<Rightarrow> str \<Rightarrow> bool" where
  "is_concept g nid = (''SST_CONCEPT'' \<in> set (labels_of (node_or_empty g nid)))"

record session_graph =
  root_id :: str
  session_ids :: "str list"
  node_count :: nat
  edge_count :: nat
  sg_created_by :: pyval
  sg_started_at :: "datetime option"
  last_change :: "datetime option"
  subsession_count :: nat
  sg_workspace :: pyval
  sg_working_dir :: "str option"

definition por :: "pyval \<Rightarrow> pyval \<Rightarrow> pyval" where
  "por v w = (if truthy v then v else w)"

definition parse_timestamp :: "(str \<Rightarrow> datetime option) \<Rightarrow> pyval \<Rightarrow> datetime option" where
  "parse_timestamp parse v = (case v of PStr s \<Rightarrow> if s = [] then None else parse s | _ \<Rightarrow> None)"

fun latest :: "datetime option \<Rightarrow> datetime option list \<Rightarrow> datetime option res" where
  "latest acc [] = Inr acc"
| "latest acc (None # cs) = latest acc cs"
| "latest None (Some c # cs) = latest (Some c) cs"
| "latest (Some l) (Some c # cs) =
    bind_res (dt_less l c) (\<lambda>gt. latest (Some (if gt then c else l)) cs)"

definition change_stamp :: "pydict \<Rightarrow> pyval" where
  "change_stamp props =
    por (por (any_field props ''last_updated'') (any_field props ''ended_at'')) (any_field props ''started_at'')"

definition resolve_session_graph ::
  "(str \<Rightarrow> datetime option) \<Rightarrow> str \<Rightarrow> graph \<Rightarrow> session_graph option res" where
  "resolve_session_graph parse session_id g =
    (case dget (g_nodes g) session_id of
       None \<Rightarrow> Inr None
     | Some start \<Rightarrow>
         if ''Session'' \<notin> set (labels_of start) then Inr None
         else
           let workspace = por (any_field start ''workspace'') (PStr (g_workspace g));
               root = walk_up (parent_map (tree_links g)) session_id [session_id];
               sids = explore (tree_links g) (\<lambda>_. False) [] [root];
               graph_nodes = explore (all_links g) (is_concept g) [] (rev sids);
               edges = filter (\<lambda>(src, dst). src \<in> set graph_nodes \<and> dst \<in> set graph_nodes) (all_links g);
               root_props = node_or_empty g root
           in bind_res
                (latest None (map (\<lambda>sid. parse_timestamp parse (change_stamp (node_or_empty g sid))) sids))
                (\<lambda>changed. Inr (Some
                  \<lparr>root_id = root, session_ids = sids, node_count = length graph_nodes,
                   edge_count = length edges,
                   sg_created_by = por (any_field root_props ''created_by'')
                     (case g_created_by g of None \<Rightarrow> PNone | Some c \<Rightarrow> PStr c),
                   sg_started_at = parse_timestamp parse (any_field root_props ''started_at''),
                   last_change = changed,
                   subsession_count = length sids - 1,
                   sg_workspace = workspace,
                   sg_working_dir = (case dget root_props ''working_dir'' of Some (PStr w) \<Rightarrow> Some w | _ \<Rightarrow> None)\<rparr>)))"

record delete_result =
  dr_root :: str
  nodes_deleted :: nat
  relationships_deleted :: nat

definition owned_nodes :: "graph \<Rightarrow> str list \<Rightarrow> str list" where
  "owned_nodes g sids = filter (\<lambda>n. \<not> is_concept g n) (explore (all_links g) (is_concept g) [] (rev sids))"

definition boundary_concepts :: "graph \<Rightarrow> str list \<Rightarrow> str list" where
  "boundary_concepts g sids = filter (is_concept g) (explore (all_links g) (is_concept g) [] (rev sids))"

definition drop_nodes :: "str list \<Rightarrow> graph \<Rightarrow> graph" where
  "drop_nodes owned g =
    g\<lparr>g_nodes := foldl (\<lambda>ns n. AList.delete n ns) (g_nodes g) owned,
      g_edges := filter (\<lambda>((src, dst), d). src \<notin> set owned \<and> dst \<notin> set owned) (g_edges g)\<rparr>"

text \<open>\<^verbatim>\<open>delete_session_graph\<close>: the visited nodes split into owned ones and boundary concepts, the owned
  nodes and every edge that touches one go, and the two checks on the result follow.\<close>

definition delete_session_graph ::
  "(str \<Rightarrow> datetime option) \<Rightarrow> str \<Rightarrow> session_graph option \<Rightarrow> graph \<Rightarrow> delete_result option res \<times> graph" where
  "delete_session_graph parse session_id given g =
    (case (case given of None \<Rightarrow> resolve_session_graph parse session_id g | Some sg \<Rightarrow> Inr (Some sg)) of
       Inl e \<Rightarrow> (Inl e, g)
     | Inr None \<Rightarrow> (Inr None, g)
     | Inr (Some sg) \<Rightarrow>
         let owned = owned_nodes g (session_ids sg);
             concept = boundary_concepts g (session_ids sg);
             rels = filter (\<lambda>(src, dst). src \<in> set owned \<or> dst \<in> set owned) (all_links g);
             g' = drop_nodes owned g
         in if filter (\<lambda>n. n \<in> fst ` set (g_nodes g')) owned \<noteq> [] then (Inl RuntimeError, g')
            else if filter (\<lambda>n. n \<notin> fst ` set (g_nodes g')) concept \<noteq> [] then (Inl RuntimeError, g')
            else (Inr (Some \<lparr>dr_root = root_id sg, nodes_deleted = length owned,
                             relationships_deleted = length rels\<rparr>), g'))"

end
