(* ===== verification/GraphSpec.thy ===== *)
theory GraphSpec
  imports Graph
begin

text \<open>
  What the in-memory graph promises: the laws of reading after writing, the contract of a labelled
  store that the handlers rely on, the correctness of the worklist loops, and what the deletion of a
  session tree removes and keeps.
\<close>

section \<open>Label lists\<close>

lemma set_sorted_set [simp]: "set (sorted_set xs) = set xs"
  by (simp add: sorted_set_def)

lemma sorted_sorted_set [simp]: "sorted (sorted_set xs)"
  by (simp add: sorted_set_def)

lemma distinct_sorted_set [simp]: "distinct (sorted_set xs)"
  by (simp add: sorted_set_def)

lemma sorted_set_cong: "set xs = set ys \<Longrightarrow> sorted_set xs = sorted_set ys"
  by (rule sorted_distinct_set_unique) simp_all

lemma strs_of_map [simp]: "strs_of (map PStr ls) = ls"
  by (induction ls) auto

lemma as_labels_list [simp]: "as_labels (Some (label_list ls)) = ls"
  by (simp add: as_labels_def label_list_def)

lemma as_labels_None [simp]: "as_labels None = []"
  by (simp add: as_labels_def)

lemma labels_of_dset [simp]:
  "labels_of (dset k v d) = (if k = ''labels'' then as_labels (Some v) else labels_of d)"
  by (simp add: labels_of_def)

lemma labels_of_Nil [simp]: "labels_of [] = []"
  by (simp add: labels_of_def)

lemma any_field_dset [simp]: "any_field (dset k v d) k' = (if k' = k then v else any_field d k')"
  by (simp add: any_field_def)

lemma dget_dupdate_other: "k \<notin> fst ` set e \<Longrightarrow> dget (dupdate d e) k = dget d k"
  by (induction e arbitrary: d) auto

section \<open>Merging properties\<close>

abbreviation plain_props :: "pydict \<Rightarrow> pydict" where
  "plain_props data \<equiv> filter (\<lambda>(key, value). key \<noteq> ''labels'' \<and> key \<noteq> ''status_if_absent'') data"

lemma map_of_plain:
  "k \<noteq> ''labels'' \<Longrightarrow> k \<noteq> ''status_if_absent'' \<Longrightarrow> map_of (plain_props data) k = map_of data k"
  by (induction data) auto

lemma map_of_plain_none:
  "k = ''labels'' \<or> k = ''status_if_absent'' \<Longrightarrow> map_of (plain_props data) k = None"
  by (induction data) auto

lemma wf_plain: "wf_dict data \<Longrightarrow> wf_dict (plain_props data)"
  by (simp add: distinct_map_filter)

lemma labels_merge:
  "set (labels_of (merge_props d data)) = set (labels_of d) \<union> set (labels_of data)"
proof -
  have "dget (dupdate e (plain_props data)) ''labels'' = dget e ''labels''" for e
    by (rule dget_dupdate_other) auto
  then show ?thesis
    by (auto simp: merge_props_def Let_def labels_of_def split: option.splits)
qed

lemma labels_merge_none: "dget data ''labels'' = None \<Longrightarrow> labels_of (merge_props d data) = labels_of d"
proof -
  have "dget (dupdate e (plain_props data)) ''labels'' = dget e ''labels''" for e
    by (rule dget_dupdate_other) auto
  then show "dget data ''labels'' = None \<Longrightarrow> ?thesis"
    by (auto simp: merge_props_def Let_def labels_of_def)
qed

lemma labels_merge_sorted:
  "dget data ''labels'' = Some v \<Longrightarrow>
    labels_of (merge_props d data) = sorted_set (labels_of d @ as_labels (Some v))"
proof -
  have "dget (dupdate e (plain_props data)) ''labels'' = dget e ''labels''" for e
    by (rule dget_dupdate_other) auto
  then show "dget data ''labels'' = Some v \<Longrightarrow> ?thesis"
    by (auto simp: merge_props_def Let_def labels_of_def)
qed

lemma dget_merge:
  assumes "wf_dict data" and "k \<noteq> ''labels''" and "k \<noteq> ''status''" and "k \<noteq> ''status_if_absent''"
  shows "dget (merge_props d data) k = (case dget data k of None \<Rightarrow> dget d k | Some v \<Rightarrow> Some v)"
  using assms by (auto simp: merge_props_def Let_def dget_dupdate wf_plain map_of_plain split: option.splits)

lemma status_merge_keep:
  assumes "dget data ''status'' = None" and "truthy (any_field d ''status'')"
  shows "dget (merge_props d data) ''status'' = dget d ''status''"
proof -
  have "dget (dupdate e (plain_props data)) ''status'' = dget e ''status''" for e
    by (rule dget_dupdate_other) (use assms(1) in \<open>auto simp: map_of_eq_None_iff\<close>)
  then show ?thesis using assms
    by (auto simp: merge_props_def Let_def any_field_def split: option.splits)
qed

lemma status_merge_hint:
  assumes "dget data ''status'' = None" and "\<not> truthy (any_field d ''status'')"
    and "dget data ''status_if_absent'' = Some v" and "v \<noteq> PNone"
  shows "dget (merge_props d data) ''status'' = Some v"
proof -
  have "dget (dupdate e (plain_props data)) ''status'' = dget e ''status''" for e
    by (rule dget_dupdate_other) (use assms(1) in \<open>auto simp: map_of_eq_None_iff\<close>)
  then show ?thesis using assms
    by (auto simp: merge_props_def Let_def any_field_def split: option.splits)
qed

lemma dget_merge_labels:
  "dget (merge_props d data) ''labels'' =
    (case dget data ''labels'' of None \<Rightarrow> dget d ''labels''
     | Some v \<Rightarrow> Some (label_list (sorted_set (labels_of d @ as_labels (Some v)))))"
proof -
  have "dget (dupdate e (plain_props data)) ''labels'' = dget e ''labels''" for e
    by (rule dget_dupdate_other) auto
  then show ?thesis
    by (auto simp: merge_props_def Let_def split: option.splits)
qed

lemma wf_merge: "wf_dict d \<Longrightarrow> wf_dict (merge_props d data)"
  by (auto simp: merge_props_def Let_def distinct_update split: option.splits)

section \<open>Reading after writing\<close>

named_theorems graph_simps \<open>reads of the graph after a write\<close>

lemma get_node_upsert [graph_simps]:
  "get_node m (upsert_node n data g) =
    (if m = n then Some (merge_props (node_or_empty g n) data) else get_node m g)"
  by (simp add: get_node_def upsert_node_def)

lemma node_or_empty_get: "node_or_empty g n = (case get_node n g of None \<Rightarrow> [] | Some d \<Rightarrow> d)"
  by (simp add: node_or_empty_def get_node_def)

lemma get_node_upsert_edge [graph_simps]: "get_node m (upsert_edge a b data g) = get_node m g"
  by (simp add: get_node_def upsert_edge_def Let_def)

lemma get_node_remove_edge [graph_simps]: "get_node m (remove_edge a b g) = get_node m g"
  by (simp add: get_node_def remove_edge_def)

lemma get_node_set_labels [graph_simps]:
  "get_node m (set_labels n rem add g) =
    (if m = n
     then Some (dset ''labels''
            (label_list (sorted_set (filter (\<lambda>l. l \<notin> set rem) (labels_of (node_or_empty g n)) @ add)))
            (node_or_empty g n))
     else get_node m g)"
  by (simp add: get_node_def set_labels_def Let_def)

lemma get_edge_upsert_node [graph_simps]: "get_edge a b (upsert_node n data g) = get_edge a b g"
  by (simp add: get_edge_def upsert_node_def)

lemma get_edge_set_labels [graph_simps]: "get_edge a b (set_labels n rem add g) = get_edge a b g"
  by (simp add: get_edge_def set_labels_def Let_def)

lemma get_edge_upsert_edge [graph_simps]:
  "get_edge a b (upsert_edge c d data g) =
    (if (a, b) = (c, d) then Some (dupdate (case get_edge c d g of None \<Rightarrow> [] | Some e \<Rightarrow> e) data)
     else get_edge a b g)"
  by (auto simp: get_edge_def upsert_edge_def Let_def update_conv')

lemma get_edge_remove_edge [graph_simps]:
  "get_edge a b (remove_edge c d g) = (if (a, b) = (c, d) then None else get_edge a b g)"
  by (auto simp: get_edge_def remove_edge_def delete_conv')

lemma node_or_empty_write [graph_simps]:
  "node_or_empty (upsert_node n data g) m =
    (if m = n then merge_props (node_or_empty g n) data else node_or_empty g m)"
  "node_or_empty (upsert_edge a b data g) m = node_or_empty g m"
  "node_or_empty (remove_edge a b g) m = node_or_empty g m"
  "node_or_empty (set_labels n rem add g) m =
    (if m = n
     then dset ''labels''
            (label_list (sorted_set (filter (\<lambda>l. l \<notin> set rem) (labels_of (node_or_empty g n)) @ add)))
            (node_or_empty g n)
     else node_or_empty g m)"
  using get_node_upsert [of m n data g] get_node_upsert_edge [of m a b data g] get_node_remove_edge [of m a b g]
    get_node_set_labels [of m n rem add g]
  by (simp_all add: node_or_empty_get split: if_splits)

definition node_labels :: "graph \<Rightarrow> str \<Rightarrow> str list" where
  "node_labels g n = labels_of (node_or_empty g n)"

lemma node_labels_upsert [graph_simps]:
  "set (node_labels (upsert_node n data g) m) =
    (if m = n then set (node_labels g n) \<union> set (labels_of data) else set (node_labels g m))"
  by (simp add: node_labels_def node_or_empty_get get_node_upsert labels_merge)

lemma node_labels_set_labels [graph_simps]:
  "set (node_labels (set_labels n rem add g) m) =
    (if m = n then (set (node_labels g n) - set rem) \<union> set add else set (node_labels g m))"
  by (auto simp: node_labels_def node_or_empty_get get_node_set_labels)

lemma node_labels_edges [graph_simps]:
  "node_labels (upsert_edge a b data g) m = node_labels g m"
  "node_labels (remove_edge a b g) m = node_labels g m"
  by (simp_all add: node_labels_def node_or_empty_get get_node_upsert_edge get_node_remove_edge)

section \<open>The well-formedness of the store\<close>

definition label_entry_ok :: "pydict \<Rightarrow> bool" where
  "label_entry_ok d =
    (case dget d ''labels'' of
       None \<Rightarrow> True
     | Some v \<Rightarrow> v = label_list (labels_of d) \<and> sorted (labels_of d) \<and> distinct (labels_of d))"

definition wf_node :: "pydict \<Rightarrow> bool" where
  "wf_node d = (wf_dict d \<and> label_entry_ok d \<and> dget d ''status_if_absent'' = None)"

definition wf_graph :: "graph \<Rightarrow> bool" where
  "wf_graph g = (wf_dict (g_nodes g) \<and> wf_dict (g_edges g) \<and>
     list_all (\<lambda>(n, d). wf_node d) (g_nodes g) \<and> list_all (\<lambda>(k, d). wf_dict d) (g_edges g))"

lemma wf_node_Nil [simp]: "wf_node []"
  by (simp add: wf_node_def label_entry_ok_def)

lemma wf_node_merge: "wf_node d \<Longrightarrow> wf_node (merge_props d data)"
proof -
  assume d: "wf_node d"
  have "dget (dupdate e (plain_props data)) ''status_if_absent'' = dget e ''status_if_absent''" for e
    by (rule dget_dupdate_other) auto
  with d have "dget (merge_props d data) ''status_if_absent'' = None"
    by (auto simp: merge_props_def Let_def wf_node_def split: option.splits)
  moreover have "label_entry_ok (merge_props d data)"
  proof (cases "dget data ''labels''")
    case None
    with d show ?thesis
      by (cases "dget d ''labels''")
        (simp_all add: label_entry_ok_def dget_merge_labels wf_node_def labels_merge_none)
  next
    case (Some v)
    then show ?thesis by (simp add: label_entry_ok_def dget_merge_labels labels_merge_sorted)
  qed
  ultimately show ?thesis using d by (simp add: wf_node_def wf_merge)
qed

lemma list_all_update: "list_all P xs \<Longrightarrow> P (k, v) \<Longrightarrow> list_all P (AList.update k v xs)"
  by (induction xs) auto

lemma wf_node_or_empty: "wf_graph g \<Longrightarrow> wf_node (node_or_empty g n)"
  by (auto simp: wf_graph_def node_or_empty_def list_all_iff split: option.splits dest!: map_of_SomeD)

lemma wf_upsert_node: "wf_graph g \<Longrightarrow> wf_graph (upsert_node n data g)"
  using wf_node_or_empty [of g n]
  by (auto simp: wf_graph_def upsert_node_def distinct_update intro!: list_all_update wf_node_merge)

lemma wf_set_labels: "wf_graph g \<Longrightarrow> wf_graph (set_labels n rem add g)"
  using wf_node_or_empty [of g n]
  by (auto simp: wf_graph_def set_labels_def Let_def distinct_update wf_node_def label_entry_ok_def
    intro!: list_all_update)

lemma wf_upsert_edge: "wf_graph g \<Longrightarrow> wf_graph (upsert_edge a b data g)"
proof -
  assume g: "wf_graph g"
  have "wf_dict (case map_of (g_edges g) (a, b) of None \<Rightarrow> [] | Some d \<Rightarrow> d)"
    using g by (auto simp: wf_graph_def list_all_iff split: option.splits dest!: map_of_SomeD)
  then show ?thesis
    using g by (auto simp: wf_graph_def upsert_edge_def Let_def distinct_update intro!: list_all_update)
qed

lemma wf_remove_edge: "wf_graph g \<Longrightarrow> wf_graph (remove_edge a b g)"
  by (auto simp: wf_graph_def remove_edge_def list_all_iff distinct_map_filter AList.delete_eq)

lemma wf_GraphState: "wf_graph (GraphState w)"
  by (simp add: GraphState_def wf_graph_def)

section \<open>The contract of a labelled store\<close>

text \<open>
  What a handler may rely on when it classifies a node: an upsert only adds labels, a relabelling
  removes and adds, both leave every other node's labels alone, and a property written by an upsert
  is the one read back while the properties it does not mention stay.
\<close>

locale labelled_store =
  fixes upsert :: "str \<Rightarrow> pydict \<Rightarrow> 's \<Rightarrow> 's"
    and relabel :: "str \<Rightarrow> str list \<Rightarrow> str list \<Rightarrow> 's \<Rightarrow> 's"
    and labs :: "'s \<Rightarrow> str \<Rightarrow> str set"
    and pval :: "'s \<Rightarrow> str \<Rightarrow> str \<Rightarrow> pyval option"
  assumes labs_upsert: "labs (upsert n d s) m = (if m = n then labs s n \<union> set (labels_of d) else labs s m)"
    and labs_relabel:
      "labs (relabel n rem add s) m = (if m = n then (labs s n - set rem) \<union> set add else labs s m)"
    and pval_upsert:
      "wf_dict d \<Longrightarrow> k \<noteq> ''labels'' \<Longrightarrow> k \<noteq> ''status'' \<Longrightarrow> k \<noteq> ''status_if_absent'' \<Longrightarrow>
        pval (upsert n d s) m k =
          (if m = n then (case dget d k of None \<Rightarrow> pval s n k | Some v \<Rightarrow> Some v) else pval s m k)"
    and pval_relabel: "k \<noteq> ''labels'' \<Longrightarrow> pval (relabel n rem add s) m k = pval s m k"
begin

lemma upsert_only_adds: "labs s m \<subseteq> labs (upsert n d s) m"
  by (auto simp: labs_upsert)

lemma relabel_exchange:
  "set rem \<inter> set add = {} \<Longrightarrow> l \<in> set rem \<Longrightarrow> l \<notin> labs (relabel n rem add s) n"
  by (auto simp: labs_relabel)

lemma relabel_twice: "labs (relabel n rem add (relabel n rem add s)) m = labs (relabel n rem add s) m"
  by (auto simp: labs_relabel)

lemma upsert_twice_labs: "labs (upsert n d (upsert n d s)) m = labs (upsert n d s) m"
  by (auto simp: labs_upsert)

text \<open>Writers of disjoint label sets commute on the labels.\<close>

lemma upsert_relabel_commute:
  "set (labels_of d) \<inter> set rem = {} \<Longrightarrow>
    labs (upsert n d (relabel n rem add s)) m = labs (relabel n rem add (upsert n d s)) m"
  by (auto simp: labs_upsert labs_relabel)

end

interpretation gs: labelled_store upsert_node set_labels "\<lambda>g n. set (node_labels g n)"
  "\<lambda>g n k. dget (node_or_empty g n) k"
  by unfold_locales (auto simp: graph_simps dget_merge)

section \<open>The worklist loop\<close>

inductive reach :: "(str \<times> str) set \<Rightarrow> (str \<Rightarrow> bool) \<Rightarrow> str set \<Rightarrow> str \<Rightarrow> bool"
  for E and stop and S where
  reach_start: "n \<in> S \<Longrightarrow> reach E stop S n"
| reach_step: "reach E stop S n \<Longrightarrow> \<not> stop n \<Longrightarrow> (n, m) \<in> E \<Longrightarrow> reach E stop S m"

lemma set_targets [simp]: "m \<in> set (targets E n) \<longleftrightarrow> (n, m) \<in> set E"
  by (auto simp: targets_def image_iff)

lemma explore_contains: "set seen \<union> set stack \<subseteq> set (explore E stop seen stack)"
  by (induction E stop seen stack rule: explore.induct) (auto split: if_splits)

lemma explore_sound:
  "(\<forall>n\<in>set seen \<union> set stack. reach (set E) stop S n) \<Longrightarrow>
    n \<in> set (explore E stop seen stack) \<Longrightarrow> reach (set E) stop S n"
proof (induction E stop seen stack rule: explore.induct)
  case (2 E stop seen nid stack)
  consider (old) "nid \<in> set seen" | (stop) "nid \<notin> set seen" "stop nid" | (go) "nid \<notin> set seen" "\<not> stop nid"
    by blast
  then show ?case
  proof cases
    case go
    have "\<forall>m\<in>set (seen @ [nid]) \<union> set (rev (targets E nid) @ stack). reach (set E) stop S m"
      using 2(4) go(2) by (auto intro: reach_step)
    with 2(3) [OF go] 2(5) go show ?thesis by auto
  qed (use 2 in auto)
qed auto

lemma explore_closed:
  "(\<And>n m. n \<in> set seen \<Longrightarrow> \<not> stop n \<Longrightarrow> (n, m) \<in> set E \<Longrightarrow> m \<in> set seen \<union> set stack) \<Longrightarrow>
    n \<in> set (explore E stop seen stack) \<Longrightarrow> \<not> stop n \<Longrightarrow> (n, m) \<in> set E \<Longrightarrow>
    m \<in> set (explore E stop seen stack)"
proof (induction E stop seen stack arbitrary: n m rule: explore.induct)
  case (2 E stop seen nid stack)
  consider (old) "nid \<in> set seen" | (stop) "nid \<notin> set seen" "stop nid" | (go) "nid \<notin> set seen" "\<not> stop nid"
    by blast
  then show ?case
  proof cases
    case old
    have "n' \<in> set seen \<Longrightarrow> \<not> stop n' \<Longrightarrow> (n', m') \<in> set E \<Longrightarrow> m' \<in> set seen \<union> set stack" for n' m'
      using 2(4) [of n' m'] old by auto
    from 2(1) [OF old this] 2(5-7) old show ?thesis by simp
  next
    case stop
    have "n' \<in> set (seen @ [nid]) \<Longrightarrow> \<not> stop n' \<Longrightarrow> (n', m') \<in> set E \<Longrightarrow> m' \<in> set (seen @ [nid]) \<union> set stack"
      for n' m' using 2(4) [of n' m'] stop by auto
    from 2(2) [OF stop this] 2(5-7) stop show ?thesis by simp
  next
    case go
    have "n' \<in> set (seen @ [nid]) \<Longrightarrow> \<not> stop n' \<Longrightarrow> (n', m') \<in> set E \<Longrightarrow>
        m' \<in> set (seen @ [nid]) \<union> set (rev (targets E nid) @ stack)" for n' m'
      using 2(4) [of n' m'] go by auto
    from 2(3) [OF go this] 2(5-7) go show ?thesis by simp
  qed
qed auto

lemma explore_reach: "n \<in> set (explore E stop [] stack) \<longleftrightarrow> reach (set E) stop (set stack) n"
proof
  show "n \<in> set (explore E stop [] stack) \<Longrightarrow> reach (set E) stop (set stack) n"
    by (rule explore_sound) (auto intro: reach_start)
  show "reach (set E) stop (set stack) n \<Longrightarrow> n \<in> set (explore E stop [] stack)"
  proof (induction rule: reach.induct)
    case (reach_start n)
    then show ?case using explore_contains by fastforce
  next
    case (reach_step n m)
    show ?case by (rule explore_closed [where n = n]) (use reach_step in auto)
  qed
qed

lemma explore_distinct: "distinct seen \<Longrightarrow> distinct (explore E stop seen stack)"
  by (induction E stop seen stack rule: explore.induct) auto

section \<open>Deletion of a session tree\<close>

lemma map_of_foldl_delete:
  "map_of (foldl (\<lambda>ns n. AList.delete n ns) ns ks) k = (if k \<in> set ks then None else map_of ns k)"
  by (induction ks arbitrary: ns) (auto simp: delete_conv')

lemma dom_foldl_delete:
  "k \<in> fst ` set (foldl (\<lambda>ns n. AList.delete n ns) ns ks) \<longleftrightarrow> k \<in> fst ` set ns \<and> k \<notin> set ks"
  using map_of_foldl_delete [of ns ks k] by (metis map_of_eq_None_iff)

text \<open>The nodes a deletion of the tree of \<^verbatim>\<open>sids\<close> owns: reached from a session of the tree along
  edges without passing a shared concept, and not a concept.\<close>

definition owned_by :: "graph \<Rightarrow> str set \<Rightarrow> str \<Rightarrow> bool" where
  "owned_by g S n = (reach (set (all_links g)) (is_concept g) S n \<and> \<not> is_concept g n)"

lemma is_concept_in_nodes: "is_concept g n \<Longrightarrow> n \<in> fst ` set (g_nodes g)"
  by (force simp: is_concept_def node_or_empty_def split: option.splits dest!: map_of_SomeD)

lemma delete_given:
  assumes "delete_session_graph parse sid (Some sg) g = (r, g')"
  shows "\<exists>res. r = Inr (Some res) \<and> dr_root res = root_id sg \<and>
      nodes_deleted res = card {n. owned_by g (set (session_ids sg)) n}"
    and "get_node n g' = (if owned_by g (set (session_ids sg)) n then None else get_node n g)"
    and "get_edge a b g' =
      (if owned_by g (set (session_ids sg)) a \<or> owned_by g (set (session_ids sg)) b then None else get_edge a b g)"
proof -
  let ?owned = "owned_nodes g (session_ids sg)"
  have owned: "n \<in> set ?owned \<longleftrightarrow> owned_by g (set (session_ids sg)) n" for n
    by (simp add: owned_nodes_def explore_reach owned_by_def)
  then have setowned: "{n. owned_by g (set (session_ids sg)) n} = set ?owned" by blast
  have dist: "distinct ?owned" by (simp add: owned_nodes_def explore_distinct)
  have gone: "filter (\<lambda>n. n \<in> fst ` set (g_nodes (drop_nodes ?owned g))) ?owned = []"
    by (auto simp: filter_empty_conv dom_foldl_delete drop_nodes_def)
  have kept: "filter (\<lambda>n. n \<notin> fst ` set (g_nodes (drop_nodes ?owned g))) (boundary_concepts g (session_ids sg)) = []"
    by (auto simp: filter_empty_conv dom_foldl_delete drop_nodes_def boundary_concepts_def owned_nodes_def
      dest: is_concept_in_nodes)
  have g': "g' = drop_nodes ?owned g"
    and r: "\<exists>res. r = Inr (Some res) \<and> dr_root res = root_id sg \<and> nodes_deleted res = length ?owned"
    using assms by (auto simp: delete_session_graph_def Let_def gone kept)
  have edges: "map_of (filter (\<lambda>((src, dst), d). src \<notin> set ?owned \<and> dst \<notin> set ?owned) xs) (a, b) =
      (if a \<in> set ?owned \<or> b \<in> set ?owned then None else map_of xs (a, b))" for xs :: "((str \<times> str) \<times> pydict) list"
    by (induction xs) auto
  show "\<exists>res. r = Inr (Some res) \<and> dr_root res = root_id sg \<and>
      nodes_deleted res = card {n. owned_by g (set (session_ids sg)) n}"
    using r dist by (auto simp: setowned distinct_card)
  show "get_node n g' = (if owned_by g (set (session_ids sg)) n then None else get_node n g)"
    by (simp add: g' get_node_def map_of_foldl_delete drop_nodes_def owned [symmetric])
  show "get_edge a b g' =
      (if owned_by g (set (session_ids sg)) a \<or> owned_by g (set (session_ids sg)) b then None else get_edge a b g)"
    using edges [of "g_edges g"] by (simp add: g' get_edge_def drop_nodes_def owned [symmetric])
qed

section \<open>Resolution of a session tree\<close>

lemma parent_map_in: "dget (parent_map E) d = Some s \<Longrightarrow> (s, d) \<in> set E"
proof -
  have "dget (foldl (\<lambda>d (src, dst). dset dst src d) P E) d = Some s \<Longrightarrow>
      dget P d = Some s \<or> (s, d) \<in> set E" for P
    by (induction E arbitrary: P) (fastforce split: if_splits)+
  then show "dget (parent_map E) d = Some s \<Longrightarrow> ?thesis" by (fastforce simp: parent_map_def)
qed

lemma parent_map_dom: "(s, d) \<in> set E \<Longrightarrow> dget (parent_map E) d \<noteq> None"
proof -
  have "dget P d \<noteq> None \<or> (s, d) \<in> set E \<Longrightarrow>
      dget (foldl (\<lambda>d (src, dst). dset dst src d) P E) d \<noteq> None" for P
  proof (induction E arbitrary: P)
    case (Cons e E)
    then have "dget (dset (snd e) (fst e) P) d \<noteq> None \<or> (s, d) \<in> set E" by auto
    from Cons.IH [OF this] show ?case by (cases e) simp
  qed simp
  then show "(s, d) \<in> set E \<Longrightarrow> ?thesis" by (simp add: parent_map_def)
qed

text \<open>The walk up ends at an ancestor, and one it cannot leave for a new node.\<close>

lemma walk_up_ancestor:
  "reach (set E) (\<lambda>_. False) {walk_up (parent_map E) r v} r"
proof (induction "parent_map E" r v rule: walk_up.induct)
  case (1 r v)
  show ?case
  proof (cases "dget (parent_map E) r")
    case None
    then show ?thesis by (simp add: walk_up.simps [of _ r] reach_start)
  next
    case (Some p)
    then have edge: "(p, r) \<in> set E" by (rule parent_map_in)
    have "reach (set E) (\<lambda>_. False) {walk_up (parent_map E) r v} p"
      using Some 1 by (auto simp: walk_up.simps [of _ r] intro: reach_start)
    from reach_step [OF this _ edge] show ?thesis by simp
  qed
qed

text \<open>Distance below a root, through the parent links.\<close>

inductive level :: "str dict \<Rightarrow> str \<Rightarrow> nat \<Rightarrow> str \<Rightarrow> bool" for P and root where
  level_root: "level P root 0 root"
| level_child: "dget P m = Some p \<Longrightarrow> level P root k p \<Longrightarrow> level P root (Suc k) m"

lemma level_unique:
  assumes "dget P root = None"
  shows "level P root k m \<Longrightarrow> level P root j m \<Longrightarrow> j = k"
proof (induction arbitrary: j rule: level.induct)
  case level_root
  then show ?case using assms by (auto elim: level.cases)
next
  case (level_child m p k)
  from level_child(4) show ?case
  proof (cases rule: level.cases)
    case level_root
    then show ?thesis using assms level_child(1) by simp
  next
    case (level_child p' j')
    then show ?thesis using level_child.IH [of j'] level_child.hyps(1) by auto
  qed
qed

lemma walk_up_root:
  assumes "dget P root = None"
  shows "level P root k m \<Longrightarrow> (\<forall>x\<in>set v. \<forall>j. level P root j x \<longrightarrow> k \<le> j) \<Longrightarrow> walk_up P m v = root"
proof (induction arbitrary: v rule: level.induct)
  case level_root
  then show ?case using assms by (simp add: walk_up.simps [of P root])
next
  case (level_child m p k)
  have "p \<notin> set v"
  proof
    assume "p \<in> set v"
    with level_child.prems level_child.hyps(2) have "Suc k \<le> k" by blast
    then show False by simp
  qed
  moreover have "\<forall>x\<in>set (p # v). \<forall>j. level P root j x \<longrightarrow> k \<le> j"
    using level_unique [OF assms level_child.hyps(2)] level_child.prems by (auto intro: Suc_leD)
  then have "walk_up P p (p # v) = root" by (rule level_child.IH)
  ultimately show ?case using level_child.hyps(1) by (simp add: walk_up.simps [of P m])
qed

lemma reach_level:
  assumes "distinct (map snd E)" and "reach (set E) (\<lambda>_. False) {root} m"
  shows "\<exists>k. level (parent_map E) root k m"
  using assms(2)
proof (induction rule: reach.induct)
  case (reach_start n)
  then show ?case by (auto intro: level_root)
next
  case (reach_step n m)
  then obtain k where k: "level (parent_map E) root k n" by blast
  obtain p where p: "dget (parent_map E) m = Some p"
    using parent_map_dom [OF reach_step(3)] by blast
  have "p = n" using parent_map_in [OF p] reach_step(3) assms(1)
    by (metis distinct_map fst_conv inj_on_def snd_conv)
  then show ?case using level_child [OF p] k by blast
qed

lemma resolve_fields:
  assumes "resolve_session_graph parse sid g = Inr (Some sg)"
  shows "root_id sg = walk_up (parent_map (tree_links g)) sid [sid]"
    and "session_ids sg = explore (tree_links g) (\<lambda>_. False) [] [root_id sg]"
    and "''Session'' \<in> set (node_labels g sid)"
  using assms by (auto simp: resolve_session_graph_def Let_def bind_res_Inr_iff node_labels_def
    node_or_empty_def split: option.splits if_splits)

text \<open>
  C19 [resolve_whole_tree]: a resolved session tree holds the session asked for and every session
  below its root, each once, and nothing else; and in a graph where no session has two parents and
  the root has none, resolving any member that is a session node gives the same root and the same
  members, so a preview and the deletion that follows agree whichever member names the tree.
\<close>

theorem resolve_whole_tree:
  assumes "resolve_session_graph parse sid g = Inr (Some sg)"
  shows "sid \<in> set (session_ids sg) \<and> distinct (session_ids sg) \<and>
    (\<forall>n. n \<in> set (session_ids sg) \<longleftrightarrow> reach (set (tree_links g)) (\<lambda>_. False) {root_id sg} n) \<and>
    (distinct (map snd (tree_links g)) \<and> root_id sg \<notin> snd ` set (tree_links g) \<longrightarrow>
      (\<forall>m sg'. m \<in> set (session_ids sg) \<and> resolve_session_graph parse m g = Inr (Some sg') \<longrightarrow>
         root_id sg' = root_id sg \<and> session_ids sg' = session_ids sg))"
proof (intro conjI impI allI)
  note f = resolve_fields [OF assms]
  show mem: "n \<in> set (session_ids sg) \<longleftrightarrow> reach (set (tree_links g)) (\<lambda>_. False) {root_id sg} n" for n
    by (simp add: f(2) explore_reach del: explore.simps)
  show "sid \<in> set (session_ids sg)"
    using walk_up_ancestor [of "tree_links g" sid "[sid]"] by (simp add: mem f(1))
  show "distinct (session_ids sg)" by (simp add: f(2) explore_distinct del: explore.simps)
  fix m sg'
  assume tree: "distinct (map snd (tree_links g)) \<and> root_id sg \<notin> snd ` set (tree_links g)"
    and m: "m \<in> set (session_ids sg) \<and> resolve_session_graph parse m g = Inr (Some sg')"
  have top: "dget (parent_map (tree_links g)) (root_id sg) = None"
  proof (rule ccontr)
    assume "dget (parent_map (tree_links g)) (root_id sg) \<noteq> None"
    then obtain q where "dget (parent_map (tree_links g)) (root_id sg) = Some q" by blast
    then have "(q, root_id sg) \<in> set (tree_links g)" by (rule parent_map_in)
    then show False using tree by force
  qed
  obtain k where k: "level (parent_map (tree_links g)) (root_id sg) k m"
    using reach_level tree m mem by blast
  have "walk_up (parent_map (tree_links g)) m [m] = root_id sg"
    by (rule walk_up_root [OF top k]) (use level_unique [OF top k] in force)
  then show "root_id sg' = root_id sg" using resolve_fields(1) m by metis
  then show "session_ids sg' = session_ids sg" using resolve_fields(2) m f(2) by metis
qed

text \<open>A root with one sub-session that used a shared concept.\<close>

definition sample_graph :: graph where
  "sample_graph =
    (upsert_edge ''r'' ''c'' [(''type'', PStr ''HAS_SUBSESSION'')] \<circ>
     upsert_edge ''c'' ''a'' [(''type'', PStr ''A'')] \<circ>
     upsert_node ''a'' [(''labels'', label_list [''SST_CONCEPT''])] \<circ>
     upsert_node ''c'' [(''labels'', label_list [''Session''])] \<circ>
     upsert_node ''r'' [(''labels'', label_list [''Session''])]) (GraphState ''w'')"

definition sample_tree :: session_graph where
  "sample_tree =
    \<lparr>root_id = ''r'', session_ids = [''r'', ''c''], node_count = 3, edge_count = 2,
     sg_created_by = PNone, sg_started_at = None, last_change = None, subsession_count = 1,
     sg_workspace = PStr ''w'', sg_working_dir = None\<rparr>"

lemma resolve_sample: "resolve_session_graph (\<lambda>_. None) ''c'' sample_graph = Inr (Some sample_tree)"
  by code_simp

theorem resolve_whole_tree_witness:
  "resolve_session_graph (\<lambda>_. None) ''c'' sample_graph = Inr (Some sample_tree) \<and>
    ''c'' \<in> set (session_ids sample_tree) \<and> distinct (session_ids sample_tree)"
  using resolve_whole_tree [OF resolve_sample] resolve_sample by blast

text \<open>
  C18 [delete_removes_owned_only]: deleting a session tree never raises and removes exactly the nodes
  reached from the tree's sessions without passing a shared concept, together with exactly the
  edges that touch one of them; shared concept nodes and every node and edge outside stay as they
  were, and the reported count is the number of nodes owned.
\<close>

theorem delete_removes_owned_only:
  assumes "resolve_session_graph parse sid g = Inr (Some sg)"
    and "delete_session_graph parse sid None g = (r, g')"
  shows "(\<exists>rep. r = Inr (Some rep) \<and> dr_root rep = root_id sg \<and>
        nodes_deleted rep = card {n. owned_by g (set (session_ids sg)) n}) \<and>
    (\<forall>n. get_node n g' = (if owned_by g (set (session_ids sg)) n then None else get_node n g)) \<and>
    (\<forall>n. is_concept g n \<longrightarrow> get_node n g' = get_node n g) \<and>
    (\<forall>a b. get_edge a b g' = (if owned_by g (set (session_ids sg)) a \<or> owned_by g (set (session_ids sg)) b
       then None else get_edge a b g))"
proof -
  have d: "delete_session_graph parse sid (Some sg) g = (r, g')"
    using assms by (simp add: delete_session_graph_def)
  show ?thesis using delete_given [OF d] by (simp add: owned_by_def)
qed

theorem delete_removes_owned_only_witness:
  "is_concept sample_graph ''a'' \<and>
    get_node ''a'' (snd (delete_session_graph (\<lambda>_. None) ''c'' None sample_graph)) =
      get_node ''a'' sample_graph"
proof -
  have "is_concept sample_graph ''a''" by code_simp
  then show ?thesis using delete_removes_owned_only [OF resolve_sample prod.collapse [symmetric]] by blast
qed

end
