(* ===== verification/Utils.thy ===== *)
theory Utils
  imports Prelude
begin

text \<open>
  \<^verbatim>\<open>utils.py\<close>: byte-length folding of names, and the node and edge identifiers.

  The hash \<^verbatim>\<open>sha256(..).hexdigest()\<close> is the parameter \<^verbatim>\<open>sha\<close> and
  \<^verbatim>\<open>datetime.fromisoformat\<close> followed by the conversion to epoch milliseconds is the parameter
  \<^verbatim>\<open>fromiso\<close>, which returns nothing where the library raises \<^verbatim>\<open>ValueError\<close>.  The
  task-scoped event identity is an explicit argument of \<^verbatim>\<open>make_node_id\<close>.
\<close>

definition FOLD_DIGEST_CHARS :: nat where
  "FOLD_DIGEST_CHARS = 16"

definition FOLD_SEP :: str where
  "FOLD_SEP = ''~''"

text \<open>The truncation loop: drop trailing bytes until the rest decodes.\<close>

function decode_prefix :: "str \<Rightarrow> str" where
  "decode_prefix t = (if t = [] then [] else if utf8_valid t then t else decode_prefix (butlast t))"
  by pat_completeness auto
termination
  by (relation "measure length") auto

declare decode_prefix.simps [simp del]

definition scrub :: "str \<Rightarrow> str" where
  "scrub p = replace_char (CHR 0x00) (CHR ''_'') (replace_char (CHR 0x5C) (CHR ''_'')
     (replace_char (CHR ''/'') (CHR ''_'') p))"

definition fold_name :: "(str \<Rightarrow> str) \<Rightarrow> str \<Rightarrow> int \<Rightarrow> str" where
  "fold_name sha value max_bytes =
    (if int (length value) \<le> max_bytes then value
     else let digest = take FOLD_DIGEST_CHARS (sha value);
              suffix = FOLD_SEP @ digest;
              prefix_budget = max_bytes - int (length suffix);
              truncated = slice_to prefix_budget value
          in scrub (decode_prefix truncated) @ suffix)"

definition make_node_id ::
  "(str \<Rightarrow> int option) \<Rightarrow> str option \<Rightarrow> str \<Rightarrow> str \<Rightarrow> str \<Rightarrow> str option \<Rightarrow> str res" where
  "make_node_id fromiso event_identity session_id event_name timestamp disambiguator =
    (let safe_event = replace_char (CHR '':'') (CHR ''_'') event_name in
     case fromiso timestamp of
       None \<Rightarrow> Inl ValueError
     | Some epoch_ms \<Rightarrow>
         let node_id = session_id @ ''__'' @ safe_event @ ''__'' @ int_dec epoch_ms;
             node_id = (case disambiguator of None \<Rightarrow> node_id | Some d \<Rightarrow> node_id @ ''__'' @ d);
             node_id = (case event_identity of None \<Rightarrow> node_id | Some i \<Rightarrow> node_id @ ''__'' @ i)
         in Inr node_id)"

definition make_edge_id :: "str \<Rightarrow> str \<Rightarrow> str \<Rightarrow> str" where
  "make_edge_id source_id target_id edge_type = source_id @ ''==['' @ edge_type @ '']=='' @ target_id"

section \<open>The truncation loop\<close>

lemma decode_prefix_prefix: "\<exists>r. t = decode_prefix t @ r"
proof (induction t rule: decode_prefix.induct)
  case (1 t)
  show ?case
  proof (cases "t = [] \<or> utf8_valid t")
    case True
    then show ?thesis by (auto simp: decode_prefix.simps [of t])
  next
    case False
    with 1 obtain r where "butlast t = decode_prefix (butlast t) @ r" by auto
    with False have "t = decode_prefix t @ r @ [last t]"
      by (metis append.assoc append_butlast_last_id decode_prefix.simps)
    then show ?thesis by blast
  qed
qed

lemma utf8_valid_Nil [simp]: "utf8_valid []"
  by (simp add: utf8_valid_def)

lemma decode_prefix_valid: "utf8_valid (decode_prefix t)"
proof (induction t rule: decode_prefix.induct)
  case (1 t)
  then show ?case by (cases "t = [] \<or> utf8_valid t") (auto simp: decode_prefix.simps [of t])
qed

lemma length_decode_prefix: "length (decode_prefix t) \<le> length t"
  using decode_prefix_prefix [of t] by (metis length_append le_add1)

lemma decode_prefix_id: "utf8_valid t \<Longrightarrow> decode_prefix t = t"
  by (simp add: decode_prefix.simps)

text \<open>The loop keeps every valid prefix: it stops at the longest one.\<close>

lemma decode_prefix_longest:
  "utf8_valid p \<Longrightarrow> t = p @ r \<Longrightarrow> length p \<le> length (decode_prefix t)"
proof (induction t arbitrary: r rule: decode_prefix.induct)
  case (1 t)
  show ?case
  proof (cases "utf8_valid t")
    case True
    then have "decode_prefix t = t" by (rule decode_prefix_id)
    moreover have "length p \<le> length t" unfolding 1(3) by simp
    ultimately show ?thesis by simp
  next
    case False
    then have ne: "t \<noteq> []" by auto
    have "r \<noteq> []" using False 1(2,3) by auto
    then have "butlast t = p @ butlast r" using 1(3) by (simp add: butlast_append)
    from 1(1) [OF ne False 1(2) this] have "length p \<le> length (decode_prefix (butlast t))" .
    moreover have "decode_prefix t = decode_prefix (butlast t)"
      using ne False decode_prefix.simps [of t] by simp
    ultimately show ?thesis by simp
  qed
qed

section \<open>Replacement keeps the encoding valid\<close>

lemma utf8_scan_map:
  assumes "\<And>b. b < 0x80 \<Longrightarrow> f b < 0x80" and "\<And>b. 0x80 \<le> b \<Longrightarrow> f b = b"
  shows "utf8_scan (map f xs) = utf8_scan xs"
proof (induction xs rule: utf8_scan.induct)
  case (2 b bs)
  have w: "utf8_width (f b) = utf8_width b"
    using assms by (cases "b < 0x80") (simp_all add: utf8_width_def)
  have c: "cont_byte (f x) = cont_byte x" for x
    using assms [of x] by (cases "x < 0x80") (auto simp: cont_byte_def)
  have keep: "f b = b \<or> utf8_width b = 1"
    using assms(2) [of b] by (auto simp: utf8_width_def)
  have cf: "cont_byte x \<Longrightarrow> f x = x" for x
    using assms(2) by (simp add: cont_byte_def)
  have tail: "utf8_tail_ok (f b) (map f cs) = utf8_tail_ok b cs" if "f b = b" for cs
    using that cf by (cases cs) (auto simp: utf8_tail_ok_def c list.pred_map comp_def list_all_iff)
  have "utf8_tail_ok (f b) (map f (take (utf8_width b - 1) bs))
      = utf8_tail_ok b (take (utf8_width b - 1) bs)"
  proof (cases "f b = b")
    case True
    then show ?thesis by (rule tail)
  next
    case False
    with keep have "utf8_width b = 1" by blast
    then show ?thesis by (simp add: utf8_tail_ok_def)
  qed
  then show ?case
    unfolding list.map utf8_scan.simps w take_map drop_map 2 by simp
qed simp

lemma utf8_valid_replace_char:
  assumes "of_char a < (0x80::nat)" and "of_char b < (0x80::nat)"
  shows "utf8_valid (replace_char a b s) = utf8_valid s"
proof -
  define f :: "nat \<Rightarrow> nat" where "f = (\<lambda>x. if x = of_char a then of_char b else x)"
  have "map of_char (replace_char a b s) = map f (map of_char s)"
    by (auto simp: replace_char_def f_def)
  moreover have "utf8_scan (map f xs) = utf8_scan xs" for xs
    using assms by (intro utf8_scan_map) (auto simp: f_def)
  ultimately show ?thesis by (simp only: utf8_valid_def)
qed

lemma scrub_valid: "utf8_valid (scrub p) = utf8_valid p"
  by (simp add: scrub_def utf8_valid_replace_char)

lemma length_scrub [simp]: "length (scrub p) = length p"
  by (simp add: scrub_def)

lemma set_scrub: "set (scrub p) \<inter> {CHR ''/'', CHR 0x5C, CHR 0x00} = {}"
  by (auto simp: scrub_def replace_char_def split: if_splits)

section \<open>Folding\<close>

definition hex_digit :: "char \<Rightarrow> bool" where
  "hex_digit c = (c \<in> set ''0123456789abcdef'')"

text \<open>The documented shape of a SHA-256 hex digest.\<close>

definition hexdigest_ok :: "(str \<Rightarrow> str) \<Rightarrow> bool" where
  "hexdigest_ok sha = (\<forall>s. length (sha s) = 64 \<and> list_all hex_digit (sha s))"

lemma fold_name_short: "int (length v) \<le> n \<Longrightarrow> fold_name sha v n = v"
  by (simp add: fold_name_def)

lemma fold_name_long:
  assumes "n < int (length v)" and "hexdigest_ok sha"
  shows "fold_name sha v n = scrub (decode_prefix (slice_to (n - 17) v)) @ ''~'' @ take 16 (sha v)"
  using assms by (simp add: fold_name_def Let_def FOLD_SEP_def FOLD_DIGEST_CHARS_def hexdigest_ok_def)

lemma length_fold_name:
  assumes "17 \<le> n" and "hexdigest_ok sha"
  shows "int (length (fold_name sha v n)) \<le> n"
proof (cases "int (length v) \<le> n")
  case False
  have "length (decode_prefix (slice_to (n - 17) v)) \<le> nat (n - 17)"
    using length_decode_prefix [of "slice_to (n - 17) v"] assms
    by (simp add: length_slice_to)
  with False assms show ?thesis
    by (simp add: fold_name_long hexdigest_ok_def)
qed (simp add: fold_name_short)

lemma hex_digit_ascii: "hex_digit c \<Longrightarrow> of_char c < (0x80::nat)"
  by (auto simp: hex_digit_def)

lemma hex_digit_safe: "hex_digit c \<Longrightarrow> c \<notin> {CHR ''/'', CHR 0x5C, CHR 0x00, CHR ''~''}"
  by (auto simp: hex_digit_def)

lemma utf8_valid_ascii: "list_all (\<lambda>c. of_char c < (0x80::nat)) s \<Longrightarrow> utf8_valid s"
  unfolding utf8_valid_def by (rule utf8_scan_ascii) (auto simp: list_all_iff)

lemma digest_props:
  assumes "hexdigest_ok sha"
  shows "length (take 16 (sha v)) = 16" and "list_all hex_digit (take 16 (sha v))"
  using assms by (auto simp: hexdigest_ok_def list_all_iff dest: in_set_takeD)

lemma fold_name_valid:
  assumes "hexdigest_ok sha" and "utf8_valid v"
  shows "utf8_valid (fold_name sha v n)"
proof (cases "int (length v) \<le> n")
  case False
  have "utf8_valid (''~'' @ take 16 (sha v))"
    using digest_props(2) [OF assms(1)] hex_digit_ascii
    by (intro utf8_valid_ascii) (auto simp: list_all_iff)
  with False assms(1) show ?thesis
    by (simp add: fold_name_long utf8_valid_append scrub_valid decode_prefix_valid)
qed (simp add: assms fold_name_short)

lemma fold_name_safe:
  assumes "hexdigest_ok sha" and "n < int (length v)"
  shows "set (fold_name sha v n) \<inter> {CHR ''/'', CHR 0x5C, CHR 0x00} = {}"
  using assms(2) set_scrub digest_props(2) [OF assms(1)] hex_digit_safe
  by (simp add: fold_name_long [OF _ assms(1)] list_all_iff) blast

lemma fold_name_digest:
  assumes "hexdigest_ok sha" and "n < int (length v)" and "n < int (length w)"
    and "fold_name sha v n = fold_name sha w n"
  shows "take 16 (sha v) = take 16 (sha w)"
  using assms digest_props(1) [OF assms(1)] by (simp add: fold_name_long)

end
