(* ===== verification/Services.thy ===== *)
theory Services
  imports GraphSpec Utils
begin

text \<open>
  \<^verbatim>\<open>HookStateService\<close> of \<^verbatim>\<open>services.py\<close>, with the per-session cursors of
  \<^verbatim>\<open>data_layer_2/state.py\<close> and \<^verbatim>\<open>data_layer_3/state.py\<close> and the caches the handler objects
  keep between events.  A handler is an operation on this state.

  The library calls a handler makes are gathered in a record: \<^verbatim>\<open>datetime.fromisoformat\<close> with the
  conversion to milliseconds (as \<^verbatim>\<open>make_node_id\<close> uses it) and without, \<^verbatim>\<open>json.dumps\<close>, and the
  blob store's \<^verbatim>\<open>write\<close>, present when a blob store is configured, which returns the error text or the
  reference.  The event identity is the one set for the event being processed.
\<close>

record env =
  fromiso :: "str \<Rightarrow> int option"
  parse_dt :: "str \<Rightarrow> datetime option"
  dumps :: "pydict \<Rightarrow> str"
  blob_write :: "(str \<Rightarrow> str \<Rightarrow> pyval \<Rightarrow> str + str) option"
  event_identity :: "str option"

record hook_state =
  hs_graph :: graph
  seen_sessions :: "str list"
  execution_start_ts :: "str option"
  active_iteration_id :: "str option"
  pending_tool_block_ids :: "str dict"
  last_prompt_id :: "str option"
  last_completed_orch_run_id :: "str option"
  iteration_count :: nat
  active_recipe_run_stack :: "str list"
  active_recipe_step_id :: "str option"
  tool_parallel_groups :: "str list dict"
  delegation_parallel_groups :: "str list dict"
  active_skill_nodes :: "str dict"
  blobs_written :: "((str \<times> str) \<times> pyval) list"

text \<open>\<^verbatim>\<open>HookStateService.__init__\<close> over an empty in-memory graph, with the state of fresh handlers.\<close>

definition HookStateService :: "str \<Rightarrow> str option \<Rightarrow> hook_state" where
  "HookStateService workspace created_by =
    \<lparr>hs_graph = (GraphState workspace)\<lparr>g_created_by := created_by\<rparr>, seen_sessions = [],
     execution_start_ts = None, active_iteration_id = None, pending_tool_block_ids = [],
     last_prompt_id = None, last_completed_orch_run_id = None, iteration_count = 0,
     active_recipe_run_stack = [], active_recipe_step_id = None,
     tool_parallel_groups = [], delegation_parallel_groups = [], active_skill_nodes = [],
     blobs_written = []\<rparr>"

type_synonym 'a hop = "(hook_state, 'a) op"

section \<open>Graph operations on the service state\<close>

definition on_graph :: "(graph \<Rightarrow> graph) \<Rightarrow> unit hop" where
  "on_graph f = modify (\<lambda>s. s\<lparr>hs_graph := f (hs_graph s)\<rparr>)"

definition node_op :: "str \<Rightarrow> pydict \<Rightarrow> unit hop" where
  "node_op node_id data = on_graph (upsert_node node_id data)"

definition edge_op :: "str \<Rightarrow> str \<Rightarrow> pydict \<Rightarrow> unit hop" where
  "edge_op src_id dst_id data = on_graph (upsert_edge src_id dst_id data)"

definition read_node :: "str \<Rightarrow> pydict option hop" where
  "read_node node_id = gets (\<lambda>s. get_node node_id (hs_graph s))"

definition link :: "str \<Rightarrow> str \<Rightarrow> str \<Rightarrow> str \<Rightarrow> unit hop" where
  "link src_id dst_id type sst =
    edge_op src_id dst_id [(''type'', PStr type), (''sst_semantic'', PStr sst)]"

text \<open>The bridge every enricher draws from its node to the recorded event:
  \<^verbatim>\<open>upsert_edge(src, make_node_id(session_id, event, timestamp, disambiguator), {"type": "SOURCED_FROM"})\<close>.\<close>

definition sourced_from :: "env \<Rightarrow> str \<Rightarrow> str \<Rightarrow> str \<Rightarrow> str \<Rightarrow> str option \<Rightarrow> unit hop" where
  "sourced_from env src session_id event timestamp disambiguator =
    bnd (lift_res (make_node_id (fromiso env) (event_identity env) session_id event timestamp disambiguator))
      (\<lambda>node_id. edge_op src node_id [(''type'', PStr ''SOURCED_FROM'')])"

section \<open>Session nodes\<close>

definition opt_entry :: "bool \<Rightarrow> string \<Rightarrow> pyval \<Rightarrow> pydict" where
  "opt_entry b key v = (if b then [(key, v)] else [])"

definition truthy_opt :: "str option \<Rightarrow> bool" where
  "truthy_opt v = (case v of None \<Rightarrow> False | Some s \<Rightarrow> s \<noteq> [])"

definition opt_val :: "str option \<Rightarrow> pyval" where
  "opt_val v = (case v of None \<Rightarrow> PNone | Some s \<Rightarrow> PStr s)"

definition ensure_session_node :: "str \<Rightarrow> pydict \<Rightarrow> str option \<Rightarrow> unit hop" where
  "ensure_session_node session_id data working_dir =
    bnd (gets (\<lambda>s. session_id \<in> set (seen_sessions s))) (\<lambda>seen.
    if seen then ret ()
    else bnd (read_node session_id) (\<lambda>existing.
      bnd (case existing of
             Some node \<Rightarrow>
               node_op session_id
                 ([(''labels'', label_list [''Session'']), (''status_if_absent'', PStr ''running''),
                   (''session_id'', PStr session_id)] @
                  opt_entry (truthy_opt working_dir \<and> \<not> truthy (any_field node ''working_dir''))
                    ''working_dir'' (opt_val working_dir))
           | None \<Rightarrow>
               (let ts = por (any_field data ''timestamp'') (any_field data ''started_at'') in
                node_op session_id
                  ([(''labels'', label_list [''Session'', ''StubSession'']),
                    (''status_if_absent'', PStr ''running''), (''session_id'', PStr session_id)] @
                   opt_entry (truthy ts) ''started_at'' ts @
                   opt_entry (dget data ''agent'' \<noteq> None) ''agent'' (any_field data ''agent'') @
                   opt_entry (truthy_opt working_dir) ''working_dir'' (opt_val working_dir))))
        (\<lambda>_. modify (\<lambda>s. s\<lparr>seen_sessions := session_id # seen_sessions s\<rparr>))))"

definition parse_or_raise :: "env \<Rightarrow> str \<Rightarrow> datetime hop" where
  "parse_or_raise env s = lift_res (case parse_dt env s of None \<Rightarrow> Inl ValueError | Some d \<Rightarrow> Inr d)"

definition touch_session :: "env \<Rightarrow> str \<Rightarrow> str \<Rightarrow> unit hop" where
  "touch_session env session_id timestamp =
    (let write = node_op session_id [(''labels'', label_list [''Session'']), (''last_updated'', PStr timestamp)] in
     try_pass (bnd (read_node session_id) (\<lambda>node.
       case node of
         None \<Rightarrow> ret ()
       | Some d \<Rightarrow>
           bnd (parse_or_raise env timestamp) (\<lambda>ts.
             case any_field d ''last_updated'' of
               PNone \<Rightarrow> write
             | PStr current \<Rightarrow>
                 bnd (parse_or_raise env current) (\<lambda>current_dt.
                 bnd (lift_res (dt_less current_dt ts)) (\<lambda>newer. when_op newer write))
             | _ \<Rightarrow> raise_op TypeError))))"

section \<open>Invariants of the graph under the service operations\<close>

text \<open>A predicate on the graph that the four graph writes preserve is preserved by every operation built
  from them.\<close>

definition on_hs :: "(graph \<Rightarrow> bool) \<Rightarrow> hook_state \<Rightarrow> bool" where
  "on_hs P s = P (hs_graph s)"

lemma keeps_on_graph: "(\<And>g. P g \<Longrightarrow> P (f g)) \<Longrightarrow> keeps (on_hs P) (on_graph f)"
  unfolding on_graph_def by (rule keeps_modify) (simp add: on_hs_def)

lemma keeps_cursor [keeps_rules]:
  assumes "\<And>s. hs_graph (f s) = hs_graph s"
  shows "keeps (on_hs P) (modify f)"
  by (rule keeps_modify) (simp add: on_hs_def assms)

lemma keeps_read_node [keeps_rules]: "keeps P (read_node n)"
  by (simp add: read_node_def keeps_gets)

lemma keeps_parse [keeps_rules]: "keeps P (parse_or_raise env s)"
  by (simp add: parse_or_raise_def keeps_lift)

end
