(* ===== verification/Layer1.thy ===== *)
theory Layer1
  imports Services
begin

text \<open>
  \<^verbatim>\<open>handlers/data_layer_1\<close>: the default handler, which records every event as a node, the labels it
  derives from a client-supplied event name, and the field lifters.
\<close>

section \<open>Labels from event names\<close>

definition is_alnum :: "char \<Rightarrow> bool" where
  "is_alnum c = (is_digit c \<or> (CHR ''A'' \<le> c \<and> c \<le> CHR ''Z'') \<or> (CHR ''a'' \<le> c \<and> c \<le> CHR ''z''))"

definition to_upper :: "char \<Rightarrow> char" where
  "to_upper c = (if CHR ''a'' \<le> c \<and> c \<le> CHR ''z'' then char_of (of_char c - 32 :: nat) else c)"

definition to_lower :: "char \<Rightarrow> char" where
  "to_lower c = (if CHR ''A'' \<le> c \<and> c \<le> CHR ''Z'' then char_of (of_char c + 32 :: nat) else c)"

text \<open>\<^verbatim>\<open>str.capitalize\<close> of an ASCII part, and \<^verbatim>\<open>_EVENT_PARTS_RE.split(raw)\<close>: the maximal runs of
  characters outside \<^verbatim>\<open>[A-Za-z0-9]\<close> separate the parts.\<close>

fun capitalize :: "str \<Rightarrow> str" where
  "capitalize [] = []"
| "capitalize (c # cs) = to_upper c # map to_lower cs"

function event_parts :: "str \<Rightarrow> str \<Rightarrow> str list" where
  "event_parts part [] = [part]"
| "event_parts part (c # cs) =
    (if is_alnum c then event_parts (part @ [c]) cs
     else part # event_parts [] (dropWhile (\<lambda>c. \<not> is_alnum c) cs))"
  by pat_completeness auto
termination
  by (relation "measure (\<lambda>(part, cs). length cs)") (auto simp: less_Suc_eq_le length_dropWhile_le)

definition pascal_parts :: "str \<Rightarrow> str" where
  "pascal_parts raw =
    (let stem = concat (map capitalize (filter (\<lambda>p. p \<noteq> []) (event_parts [] raw)))
     in if stem \<noteq> [] \<and> is_digit (hd stem) then ''E'' @ stem else stem)"

definition UNNAMED_EVENT_STEM :: str where
  "UNNAMED_EVENT_STEM = ''Unnamed''"

text \<open>\<^verbatim>\<open>^[A-Za-z_][A-Za-z0-9_]*$\<close>\<close>

definition label_safe :: "str \<Rightarrow> bool" where
  "label_safe l =
    (case l of [] \<Rightarrow> False
     | c # cs \<Rightarrow> ((is_alnum c \<and> \<not> is_digit c) \<or> c = CHR ''_'') \<and> list_all (\<lambda>c. is_alnum c \<or> c = CHR ''_'') cs)"

definition before_last_colon :: "str \<Rightarrow> str" where
  "before_last_colon s = rev (tl (dropWhile (\<lambda>c. c \<noteq> CHR '':'') (rev s)))"

text \<open>\<^verbatim>\<open>_pascal_parts(raw) or _UNNAMED_EVENT_STEM\<close>\<close>

definition stem_or_unnamed :: "str \<Rightarrow> str" where
  "stem_or_unnamed raw = (let p = pascal_parts raw in if p = [] then UNNAMED_EVENT_STEM else p)"

definition derive_labels :: "str \<Rightarrow> str list res" where
  "derive_labels event_name =
    (let full_pascal = stem_or_unnamed event_name;
         category = (if CHR '':'' \<in> set event_name then stem_or_unnamed (before_last_colon event_name)
                     else full_pascal);
         labels = [full_pascal @ ''Event'', category @ ''Event'', ''Event'']
     in if list_all label_safe labels then Inr labels else Inl ValueError)"

section \<open>Field lifters\<close>

text \<open>\<^verbatim>\<open>fnmatch\<close> of a pattern whose only wildcard is \<^verbatim>\<open>*\<close>, the form every lifter uses.\<close>

fun fnmatch :: "str \<Rightarrow> str \<Rightarrow> bool" where
  "fnmatch s [] = (s = [])"
| "fnmatch [] (c # p) = (c = CHR ''*'' \<and> fnmatch [] p)"
| "fnmatch (x # s) (c # p) =
    (if c = CHR ''*'' then fnmatch (x # s) p \<or> fnmatch s (c # p) else x = c \<and> fnmatch s p)"

text \<open>The loop of every \<^verbatim>\<open>extract\<close>: copy the named fields whose value is not \<^verbatim>\<open>None\<close>.\<close>

fun copy_fields :: "str list \<Rightarrow> pydict \<Rightarrow> pydict" where
  "copy_fields [] data = []"
| "copy_fields (k # ks) data =
    (if any_field data k = PNone then copy_fields ks data
     else (k, any_field data k) # copy_fields ks data)"

definition universal_extract :: "pydict \<Rightarrow> pydict" where
  "universal_extract data = copy_fields [''session_id'', ''parent_id''] data"

definition artifact_extract :: "pydict \<Rightarrow> pydict" where
  "artifact_extract data = copy_fields [''bytes'', ''path''] data"

definition delegate_extract :: "pydict \<Rightarrow> pydict" where
  "delegate_extract data =
    copy_fields [''agent'', ''sub_session_id'', ''parent_session_id'', ''tool_call_id'', ''parallel_group_id''] data"

definition llm_extract :: "pydict \<Rightarrow> pydict" where
  "llm_extract data = copy_fields [''model'', ''provider''] data"

definition prompt_extract :: "pydict \<Rightarrow> pydict" where
  "prompt_extract data = copy_fields [''prompt'', ''response_preview''] data"

definition recipe_extract :: "pydict \<Rightarrow> pydict" where
  "recipe_extract data =
    copy_fields [''recipe_name'', ''current_step'', ''description'', ''status'', ''step_id'', ''total_steps'',
      ''parent_session_id''] data"

definition METADATA_KEYS :: "str list" where
  "METADATA_KEYS =
    [''agent_name'', ''tool_call_id'', ''parallel_group_id'', ''recipe_name'', ''recipe_step'', ''recipe_step_index'']"

definition session_extract :: "pydict \<Rightarrow> pydict" where
  "session_extract data =
    copy_fields [''parent''] data @
    (case any_field data ''metadata'' of PDict metadata \<Rightarrow> copy_fields METADATA_KEYS metadata | _ \<Rightarrow> [])"

definition skill_extract :: "pydict \<Rightarrow> pydict" where
  "skill_extract data = copy_fields [''skill_directory'', ''skill_name''] data"

definition tool_extract :: "pydict \<Rightarrow> pydict" where
  "tool_extract data = copy_fields [''tool_name'', ''tool_input'', ''tool_call_id'', ''parallel_group_id''] data"

definition LIFTERS :: "(str \<times> (pydict \<Rightarrow> pydict)) list" where
  "LIFTERS =
    [(''*'', universal_extract), (''artifact:*'', artifact_extract), (''delegate:*'', delegate_extract),
     (''llm:*'', llm_extract), (''prompt:*'', prompt_extract), (''recipe:*'', recipe_extract),
     (''session:*'', session_extract), (''skill:*'', skill_extract), (''tool:*'', tool_extract)]"

definition RESERVED_PROPS :: "str list" where
  "RESERVED_PROPS = [''node_id'', ''occurred_at'', ''event_name'', ''data'', ''labels'']"

definition safe_prop :: "str \<Rightarrow> str" where
  "safe_prop key = (if key \<in> set RESERVED_PROPS then ''data_'' @ key else key)"

definition lift_fields :: "str \<Rightarrow> pydict \<Rightarrow> pydict" where
  "lift_fields event data =
    foldl (\<lambda>lifted (pat, extract). if fnmatch event pat then dupdate lifted (extract data) else lifted) [] LIFTERS"

section \<open>The default handler\<close>

definition opt_fmt :: "pyval \<Rightarrow> str option res" where
  "opt_fmt v = (if v = PNone then Inr None else bind_res (py_str v) (\<lambda>s. Inr (Some s)))"

definition event_props :: "env \<Rightarrow> str \<Rightarrow> str list \<Rightarrow> str \<Rightarrow> pydict \<Rightarrow> pydict" where
  "event_props env event labels timestamp data =
    dset ''data'' (PStr (dumps env data))
      (dupdate [(''labels'', label_list labels), (''event_name'', PStr event), (''occurred_at'', PStr timestamp)]
        (lift_fields event data))"

definition default_handler :: "env \<Rightarrow> str \<Rightarrow> pydict \<Rightarrow> unit hop" where
  "default_handler env event data =
    bnd (lift_res (truthy_str data ''session_id'')) (\<lambda>sid.
    case sid of
      None \<Rightarrow> ret ()
    | Some session_id \<Rightarrow>
        bnd (lift_res (str_field data ''timestamp'' [])) (\<lambda>timestamp.
        bnd (lift_res (derive_labels event)) (\<lambda>labels.
        bnd (lift_res (opt_fmt (any_field data ''tool_call_id''))) (\<lambda>disambiguator.
        bnd (lift_res (make_node_id (fromiso env) (event_identity env) session_id event timestamp disambiguator))
          (\<lambda>event_node_id.
        seq_ops
          [node_op event_node_id (event_props env event labels timestamp data),
           edge_op session_id event_node_id [(''type'', PStr ''HAS_EVENT''), (''occurred_at'', PStr timestamp)]])))))"

section \<open>Every event name gives safe labels\<close>

lemma char_le_iff: "(c \<le> d) = ((of_char c :: nat) \<le> of_char d)"
  by (simp add: less_eq_char_def)

lemma is_digit_alnum: "is_digit c \<Longrightarrow> is_alnum c"
  by (simp add: is_alnum_def)

lemma of_char_of_small: "n < 256 \<Longrightarrow> (of_char (char_of n :: char) :: nat) = n"
  by simp

lemma alnum_to_upper: "is_alnum c \<Longrightarrow> is_alnum (to_upper c)"
  by (auto simp: to_upper_def is_alnum_def char_le_iff)

lemma alnum_to_lower: "is_alnum c \<Longrightarrow> is_alnum (to_lower c)"
  by (auto simp: to_lower_def is_alnum_def char_le_iff)

lemma alnum_capitalize: "list_all is_alnum p \<Longrightarrow> list_all is_alnum (capitalize p)"
  by (cases p) (auto simp: list_all_iff alnum_to_upper alnum_to_lower)

lemma event_parts_alnum:
  "list_all is_alnum part \<Longrightarrow> p \<in> set (event_parts part raw) \<Longrightarrow> list_all is_alnum p"
proof (induction part raw rule: event_parts.induct)
  case (2 part c cs)
  then show ?case by (cases "is_alnum c") auto
qed simp

lemma pascal_parts_alnum: "list_all is_alnum (pascal_parts raw)"
proof -
  have "list_all is_alnum (concat (map capitalize (filter (\<lambda>p. p \<noteq> []) (event_parts [] raw))))"
    using event_parts_alnum [of "[]" _ raw] alnum_capitalize by (fastforce simp: list_all_iff)
  moreover have "is_alnum (CHR ''E'')" by (simp add: is_alnum_def char_le_iff)
  ultimately show ?thesis by (simp add: pascal_parts_def Let_def)
qed

lemma pascal_parts_start: "pascal_parts raw \<noteq> [] \<Longrightarrow> \<not> is_digit (hd (pascal_parts raw))"
proof -
  define stem where "stem = concat (map capitalize (filter (\<lambda>p. p \<noteq> []) (event_parts [] raw)))"
  have p: "pascal_parts raw = (if stem \<noteq> [] \<and> is_digit (hd stem) then ''E'' @ stem else stem)"
    unfolding pascal_parts_def Let_def stem_def by (rule refl)
  have "\<not> is_digit (CHR ''E'')" by code_simp
  then show "pascal_parts raw \<noteq> [] \<Longrightarrow> ?thesis"
    unfolding p by (cases "stem \<noteq> [] \<and> is_digit (hd stem)") auto
qed

lemma event_suffix_alnum: "list_all is_alnum ''Event''"
  by code_simp

lemma label_safe_stem:
  assumes "list_all is_alnum p" and "p \<noteq> []" and "\<not> is_digit (hd p)"
  shows "label_safe (p @ ''Event'')"
proof -
  obtain c cs where p: "p = c # cs" using assms(2) by (cases p) auto
  have "list_all (\<lambda>c. is_alnum c \<or> c = CHR ''_'') (cs @ ''Event'')"
    using assms(1) p event_suffix_alnum by (auto simp: list_all_iff)
  then show ?thesis using assms p by (simp add: label_safe_def)
qed

lemma label_safe_pascal:
  "label_safe (stem_or_unnamed raw @ ''Event'')"
proof (cases "pascal_parts raw = []")
  case True
  have "label_safe (UNNAMED_EVENT_STEM @ ''Event'')" by code_simp
  then show ?thesis using True by (simp add: stem_or_unnamed_def)
next
  case False
  then show ?thesis using label_safe_stem [OF pascal_parts_alnum] pascal_parts_start by (simp add: stem_or_unnamed_def)
qed

lemma derive_labels_ok:
  obtains full cat where "derive_labels e = Inr [full @ ''Event'', cat @ ''Event'', ''Event'']"
    and "label_safe (full @ ''Event'')" and "label_safe (cat @ ''Event'')"
proof -
  have "label_safe ''Event''" by code_simp
  then have "derive_labels e = Inr [stem_or_unnamed e @ ''Event'',
      (if CHR '':'' \<in> set e then stem_or_unnamed (before_last_colon e) else stem_or_unnamed e) @ ''Event'',
      ''Event'']"
    using label_safe_pascal by (simp add: derive_labels_def Let_def)
  then show ?thesis by (rule that) (simp_all add: label_safe_pascal)
qed

text \<open>
  C25 [derive_labels_total]: for every event name a client can send, \<^verbatim>\<open>derive_labels\<close> returns
  (its own postcondition check never raises), and it returns three labels that all satisfy the
  identifier rule of the graph store, the last one being the common \<^verbatim>\<open>Event\<close> label and none of them
  a session type label.
\<close>

theorem derive_labels_total:
  "\<exists>full cat. derive_labels e = Inr [full, cat, ''Event''] \<and> label_safe full \<and> label_safe cat \<and>
    set [full, cat, ''Event''] \<inter> {''Session'', ''RootSession'', ''SubSession'', ''ForkedSession''} = {}"
proof -
  obtain full cat where l: "derive_labels e = Inr [full @ ''Event'', cat @ ''Event'', ''Event'']"
    "label_safe (full @ ''Event'')" "label_safe (cat @ ''Event'')"
    by (rule derive_labels_ok)
  have ne: "p @ ''Event'' \<noteq> q @ ''n''" for p q :: str
    by (auto dest: arg_cong [where f = last])
  have "p @ ''Event'' \<notin> {''Session'', ''RootSession'', ''SubSession'', ''ForkedSession''}" for p :: str
    using ne [of p "''Sessio''"] ne [of p "''RootSessio''"] ne [of p "''SubSessio''"] ne [of p "''ForkedSessio''"]
    by simp
  with l show ?thesis by auto
qed

section \<open>The lifted fields\<close>

lemma keys_copy_fields: "fst ` set (copy_fields ks data) \<subseteq> set ks"
  by (induction ks) auto

definition lifted_keys :: "str list" where
  "lifted_keys = [''session_id'', ''parent_id'', ''bytes'', ''path'', ''agent'', ''sub_session_id'',
    ''parent_session_id'', ''tool_call_id'', ''parallel_group_id'', ''model'', ''provider'', ''prompt'',
    ''response_preview'', ''recipe_name'', ''current_step'', ''description'', ''status'', ''step_id'',
    ''total_steps'', ''parent'', ''agent_name'', ''recipe_step'', ''recipe_step_index'', ''skill_directory'',
    ''skill_name'', ''tool_name'', ''tool_input'']"

lemma copy_fields_subset: "list_all (\<lambda>k. k \<in> set lifted_keys) ks \<Longrightarrow> fst ` set (copy_fields ks data) \<subseteq> set lifted_keys"
  using keys_copy_fields [of ks data] by (auto simp: list_all_iff)

lemma extract_subset:
  "fst ` set (universal_extract d) \<subseteq> set lifted_keys" "fst ` set (artifact_extract d) \<subseteq> set lifted_keys"
  "fst ` set (delegate_extract d) \<subseteq> set lifted_keys" "fst ` set (llm_extract d) \<subseteq> set lifted_keys"
  "fst ` set (prompt_extract d) \<subseteq> set lifted_keys" "fst ` set (recipe_extract d) \<subseteq> set lifted_keys"
  "fst ` set (skill_extract d) \<subseteq> set lifted_keys" "fst ` set (tool_extract d) \<subseteq> set lifted_keys"
  unfolding universal_extract_def artifact_extract_def delegate_extract_def llm_extract_def
    prompt_extract_def recipe_extract_def skill_extract_def tool_extract_def
  by (rule copy_fields_subset, simp add: lifted_keys_def)+

lemma session_extract_subset: "fst ` set (session_extract d) \<subseteq> set lifted_keys"
proof -
  have "fst ` set (copy_fields [''parent''] d) \<subseteq> set lifted_keys"
    by (rule copy_fields_subset, simp add: lifted_keys_def)
  moreover have "fst ` set (copy_fields METADATA_KEYS m) \<subseteq> set lifted_keys" for m
    by (rule copy_fields_subset, simp add: lifted_keys_def METADATA_KEYS_def)
  ultimately show ?thesis
    unfolding session_extract_def by (cases "any_field d ''metadata''") (simp_all add: image_Un)
qed

lemma extract_keys: "l \<in> set LIFTERS \<Longrightarrow> fst ` set (snd l data) \<subseteq> set lifted_keys"
  unfolding LIFTERS_def using extract_subset [of data] session_extract_subset [of data]
  by (simp only: list.set insert_iff empty_iff) (elim disjE; simp)

lemma lift_fields_keys: "fst ` set (lift_fields event data) \<subseteq> set lifted_keys"
proof -
  have "set ls \<subseteq> set LIFTERS \<Longrightarrow> fst ` set acc \<subseteq> set lifted_keys \<Longrightarrow>
      fst ` set (foldl (\<lambda>lifted (pat, extract). if fnmatch event pat then dupdate lifted (extract data) else lifted) acc ls)
        \<subseteq> set lifted_keys" for acc ls
  proof (induction ls arbitrary: acc)
    case (Cons l ls)
    obtain pat ex where l: "l = (pat, ex)" by (cases l)
    have "fst ` set (if fnmatch event pat then dupdate acc (ex data) else acc) \<subseteq> set lifted_keys"
      using Cons.prems extract_keys [of l data] l by (simp add: keys_dupdate)
    then show ?case using Cons.IH Cons.prems(1) l by simp
  qed simp
  from this [of LIFTERS "[]"] show ?thesis by (simp add: lift_fields_def)
qed

lemma lift_fields_not_reserved: "k \<in> set RESERVED_PROPS \<Longrightarrow> k \<notin> fst ` set (lift_fields event data)"
  using lift_fields_keys [of event data] by (auto simp: RESERVED_PROPS_def lifted_keys_def)

lemma event_props_lookup:
  "dget (event_props env event labels ts data) ''data'' = Some (PStr (dumps env data))"
  "dget (event_props env event labels ts data) ''labels'' = Some (label_list labels)"
  "dget (event_props env event labels ts data) ''event_name'' = Some (PStr event)"
  "dget (event_props env event labels ts data) ''occurred_at'' = Some (PStr ts)"
  using lift_fields_not_reserved [of _ event data]
  by (simp_all add: event_props_def dget_dupdate_other RESERVED_PROPS_def)

end
