(* ===== verification/SessionHandler.thy ===== *)
theory SessionHandler
  imports Layer1
begin

text \<open>
  \<^verbatim>\<open>handlers/data_layer_2/session.py\<close>: the state machine of the session type labels and the handler of
  \<^verbatim>\<open>session:start\<close>, \<^verbatim>\<open>session:fork\<close> and \<^verbatim>\<open>session:end\<close>.
\<close>

definition TYPE_LABELS :: "str list" where
  "TYPE_LABELS = [''ForkedSession'', ''SubSession'', ''RootSession'']"

definition current_type :: "str list \<Rightarrow> str option" where
  "current_type labels = List.find (\<lambda>l. l \<in> set labels) TYPE_LABELS"

text \<open>\<^verbatim>\<open>(data.get("parent_id") or data.get("parent") or "").strip()\<close>\<close>

definition parent_of :: "pydict \<Rightarrow> str res" where
  "parent_of data =
    (case por (por (any_field data ''parent_id'') (any_field data ''parent'')) (PStr []) of
       PStr s \<Rightarrow> Inr (py_strip s)
     | _ \<Rightarrow> Inl AttributeError)"

record label_transition =
  tr_add :: "str list"
  tr_remove :: "str list"

abbreviation no_transition :: label_transition where
  "no_transition \<equiv> \<lparr>tr_add = [], tr_remove = []\<rparr>"

definition classify :: "str option \<Rightarrow> str \<Rightarrow> bool \<Rightarrow> label_transition res" where
  "classify current event has_parent =
    (if event = ''start'' then
       (if current = Some ''ForkedSession'' \<or> current = Some ''SubSession'' then Inr no_transition
        else if current = Some ''RootSession'' then
          (if has_parent
           then Inr \<lparr>tr_add = [''SubSession'', ''SST_EVENT''], tr_remove = [''RootSession'', ''StubSession'']\<rparr>
           else Inr no_transition)
        else if has_parent
          then Inr \<lparr>tr_add = [''Session'', ''SubSession'', ''SST_EVENT''], tr_remove = [''StubSession'']\<rparr>
        else Inr \<lparr>tr_add = [''RootSession'', ''Session'', ''SST_EVENT''], tr_remove = [''StubSession'']\<rparr>)
     else if event = ''fork'' then
       (if current = Some ''ForkedSession'' then Inr no_transition
        else if current = Some ''RootSession'' \<or> current = Some ''SubSession''
          then Inr \<lparr>tr_add = [''ForkedSession'', ''SST_EVENT''], tr_remove = [the current, ''StubSession'']\<rparr>
        else Inr \<lparr>tr_add = [''Session'', ''ForkedSession'', ''SST_EVENT''], tr_remove = [''StubSession'']\<rparr>)
     else if event = ''end'' then
       (if current \<noteq> None then Inr no_transition
        else Inr \<lparr>tr_add = [''IncompleteSession'', ''SST_EVENT''], tr_remove = [''StubSession'']\<rparr>)
     else Inl ValueError)"

definition apply_transition :: "str \<Rightarrow> label_transition \<Rightarrow> unit hop" where
  "apply_transition session_id tr =
    when_op (tr_add tr \<noteq> [] \<or> tr_remove tr \<noteq> [])
      (on_graph (set_labels session_id (tr_remove tr) (tr_add tr)))"

definition read_labels :: "str \<Rightarrow> str list hop" where
  "read_labels session_id =
    bnd (read_node session_id) (\<lambda>n. ret (case n of None \<Rightarrow> [] | Some d \<Rightarrow> labels_of d))"

definition lineage_edge :: "str \<Rightarrow> str \<Rightarrow> str \<Rightarrow> str \<Rightarrow> unit hop" where
  "lineage_edge parent_id session_id type timestamp =
    edge_op parent_id session_id
      [(''type'', PStr type), (''sst_semantic'', PStr ''LEADS_TO''), (''occurred_at'', PStr timestamp)]"

definition handle_start :: "env \<Rightarrow> str \<Rightarrow> str \<Rightarrow> pydict \<Rightarrow> unit hop" where
  "handle_start env session_id timestamp data =
    bnd (lift_res (parent_of data)) (\<lambda>parent_id.
    bnd (read_labels session_id) (\<lambda>labels.
    seq_ops
      [node_op session_id
         [(''labels'', label_list [''Session'']), (''started_at'', PStr timestamp),
          (''session_id'', PStr session_id),
          (''parent_id'', if parent_id \<noteq> [] then PStr parent_id else PNone)],
       sourced_from env session_id session_id ''session:start'' timestamp None,
       bnd (lift_res (classify (current_type labels) ''start'' (parent_id \<noteq> []))) (\<lambda>tr.
       seq_ops
         [apply_transition session_id tr,
          when_op (''SubSession'' \<in> set (tr_add tr) \<and> parent_id \<noteq> [])
            (seq_ops
              [ensure_session_node parent_id [] None,
               lineage_edge parent_id session_id ''HAS_SUBSESSION'' timestamp])])]))"

definition create_mount_plan :: "str \<Rightarrow> str \<Rightarrow> unit hop" where
  "create_mount_plan session_id fork_node_id =
    (let mount_plan_id = session_id @ ''::mount_plan'' in
     seq_ops
       [node_op mount_plan_id [(''labels'', label_list [''MountPlan'', ''SST_THING''])],
        link session_id mount_plan_id ''HAS_PART'' ''CONTAINS'',
        edge_op mount_plan_id fork_node_id [(''type'', PStr ''SOURCED_FROM'')]])"

definition handle_fork :: "env \<Rightarrow> str \<Rightarrow> str \<Rightarrow> pydict \<Rightarrow> unit hop" where
  "handle_fork env session_id timestamp data =
    bnd (lift_res (parent_of data)) (\<lambda>parent_id.
    bnd (gets (\<lambda>s. por (any_field data ''workspace'') (PStr (g_workspace (hs_graph s))))) (\<lambda>workspace.
    bnd (read_labels session_id) (\<lambda>labels.
    bnd (node_op session_id
           [(''labels'', label_list [''Session'']), (''started_at'', PStr timestamp), (''workspace'', workspace),
            (''session_id'', PStr session_id),
            (''parent_id'', if parent_id \<noteq> [] then PStr parent_id else PNone)]) (\<lambda>_.
    bnd (lift_res (make_node_id (fromiso env) (event_identity env) session_id ''session:fork'' timestamp None))
      (\<lambda>fork_node_id.
    bnd (edge_op session_id fork_node_id [(''type'', PStr ''SOURCED_FROM'')]) (\<lambda>_.
    bnd (lift_res (classify (current_type labels) ''fork'' (parent_id \<noteq> []))) (\<lambda>tr.
    seq_ops
      [apply_transition session_id tr,
       when_op (''ForkedSession'' \<in> set (tr_add tr) \<and> parent_id \<noteq> [])
         (seq_ops
           [when_op (current_type labels \<in> {Some ''RootSession'', Some ''SubSession''})
              (on_graph (remove_edge parent_id session_id)),
            ensure_session_node parent_id [] None,
            lineage_edge parent_id session_id ''FORKED'' timestamp]),
       create_mount_plan session_id fork_node_id])))))))"

definition handle_end :: "env \<Rightarrow> str \<Rightarrow> str \<Rightarrow> pydict \<Rightarrow> unit hop" where
  "handle_end env session_id timestamp data =
    bnd (read_labels session_id) (\<lambda>labels.
    bnd (lift_res (parent_of data)) (\<lambda>parent_id.
    seq_ops
      [node_op session_id
         ([(''labels'', label_list ([''Session'', ''SST_EVENT''] @ labels)), (''ended_at'', PStr timestamp),
           (''status'', PStr ''completed''), (''session_id'', PStr session_id)] @
          opt_entry (parent_id \<noteq> []) ''parent_id'' (PStr parent_id)),
       sourced_from env session_id session_id ''session:end'' timestamp None,
       bnd (lift_res (classify (current_type labels) ''end'' (parent_id \<noteq> [])))
         (apply_transition session_id)]))"

definition session_handler :: "env \<Rightarrow> str \<Rightarrow> pydict \<Rightarrow> unit hop" where
  "session_handler env event data =
    bnd (lift_res (truthy_str data ''session_id'')) (\<lambda>sid.
    case sid of
      None \<Rightarrow> ret ()
    | Some session_id \<Rightarrow>
        bnd (lift_res (str_field data ''timestamp'' [])) (\<lambda>timestamp.
        if event = ''session:start'' then handle_start env session_id timestamp data
        else if event = ''session:fork'' then handle_fork env session_id timestamp data
        else if event = ''session:end'' then handle_end env session_id timestamp data
        else ret ()))"

definition session_events :: "str list" where
  "session_events = [''session:start'', ''session:fork'', ''session:end'']"

end
