(* ===== verification/Layer2.thy ===== *)
theory Layer2
  imports SessionHandler
begin

text \<open>
  \<^verbatim>\<open>handlers/data_layer_2\<close>: the handlers of orchestrator runs, iterations, content blocks, tool calls,
  prompts, cancellations and context compactions.
\<close>

text \<open>The guard every handler opens with: no truthy \<^verbatim>\<open>session_id\<close>, no mutation.\<close>

definition with_session :: "pydict \<Rightarrow> (str \<Rightarrow> unit hop) \<Rightarrow> unit hop" where
  "with_session data f =
    bnd (lift_res (truthy_str data ''session_id'')) (\<lambda>sid. case sid of None \<Rightarrow> ret () | Some s \<Rightarrow> f s)"

definition with_timestamp :: "pydict \<Rightarrow> (str \<Rightarrow> unit hop) \<Rightarrow> unit hop" where
  "with_timestamp data f = bnd (lift_res (str_field data ''timestamp'' [])) f"

section \<open>Orchestrator runs\<close>

definition orch_run_key :: "str \<Rightarrow> str \<Rightarrow> str" where
  "orch_run_key session_id ts = session_id @ ''::orch_run::'' @ ts"

definition handle_execution_start :: "env \<Rightarrow> str \<Rightarrow> pydict \<Rightarrow> unit hop" where
  "handle_execution_start env session_id data = with_timestamp data (\<lambda>timestamp.
    let orch_run_id = orch_run_key session_id timestamp in
    seq_ops
      [modify (\<lambda>s. s\<lparr>execution_start_ts := Some timestamp\<rparr>),
       node_op orch_run_id
         [(''labels'', label_list [''OrchestratorRun'', ''SST_EVENT'']), (''session_id'', PStr session_id),
          (''started_at'', PStr timestamp)],
       link session_id orch_run_id ''HAS_EXECUTION'' ''CONTAINS'',
       sourced_from env orch_run_id session_id ''execution:start'' timestamp None,
       bnd (gets last_prompt_id) (\<lambda>p.
         case p of None \<Rightarrow> ret () | Some prompt_id \<Rightarrow> link prompt_id orch_run_id ''TRIGGERS'' ''LEADS_TO'')])"

definition handle_execution_end :: "env \<Rightarrow> str \<Rightarrow> pydict \<Rightarrow> unit hop" where
  "handle_execution_end env session_id data =
    bnd (gets execution_start_ts) (\<lambda>ts.
    case ts of
      None \<Rightarrow> ret ()
    | Some ts \<Rightarrow>
        with_timestamp data (\<lambda>timestamp.
        let orch_run_id = orch_run_key session_id ts in
        seq_ops
          [node_op orch_run_id
             ([(''labels'', label_list [''OrchestratorRun'', ''SST_EVENT'']), (''ended_at'', PStr timestamp),
               (''status'', any_field data ''status'')] @
              opt_entry (dget data ''response'' \<noteq> None) ''response'' (any_field data ''response'')),
           sourced_from env orch_run_id session_id ''execution:end'' timestamp None]))"

definition handle_orchestrator_complete :: "env \<Rightarrow> str \<Rightarrow> pydict \<Rightarrow> unit hop" where
  "handle_orchestrator_complete env session_id data =
    bnd (gets execution_start_ts) (\<lambda>ts.
    case ts of
      None \<Rightarrow> ret ()
    | Some ts \<Rightarrow>
        with_timestamp data (\<lambda>timestamp.
        bnd (lift_res (str_field data ''orchestrator'' [])) (\<lambda>orchestrator.
        let orch_run_id = orch_run_key session_id ts in
        seq_ops
          [node_op orch_run_id
             [(''labels'', label_list [''OrchestratorRun'', ''SST_EVENT'']),
              (''orchestrator_name'', PStr orchestrator), (''turn_count'', any_field data ''turn_count''),
              (''completed_at'', PStr timestamp)],
           node_op orchestrator
             [(''labels'', label_list [''Orchestrator'', ''SST_CONCEPT'']), (''orchestrator'', PStr orchestrator)],
           link session_id orchestrator ''HAS_ATTRIBUTE'' ''EXPRESSES'',
           sourced_from env orch_run_id session_id ''orchestrator:complete'' timestamp None,
           modify (\<lambda>s. s\<lparr>last_completed_orch_run_id := Some orch_run_id, execution_start_ts := None\<rparr>)])))"

definition orchestrator_run_handler :: "env \<Rightarrow> str \<Rightarrow> pydict \<Rightarrow> unit hop" where
  "orchestrator_run_handler env event data = with_session data (\<lambda>session_id.
    if event = ''execution:start'' then handle_execution_start env session_id data
    else if event = ''execution:end'' then handle_execution_end env session_id data
    else if event = ''orchestrator:complete'' then handle_orchestrator_complete env session_id data
    else ret ())"

section \<open>Iterations\<close>

definition handle_provider_request :: "env \<Rightarrow> str \<Rightarrow> pydict \<Rightarrow> unit hop" where
  "handle_provider_request env session_id data =
    bnd (modify (\<lambda>s. s\<lparr>iteration_count := iteration_count s + 1\<rparr>)) (\<lambda>_.
    bnd (gets iteration_count) (\<lambda>iteration_number.
    with_timestamp data (\<lambda>timestamp.
    let iteration_id = session_id @ ''::iteration::'' @ nat_dec iteration_number in
    seq_ops
      [modify (\<lambda>s. s\<lparr>active_iteration_id := Some iteration_id\<rparr>),
       node_op iteration_id
         [(''labels'', label_list [''Iteration'', ''SST_EVENT'']), (''session_id'', PStr session_id),
          (''iteration_number'', PInt (int iteration_number)), (''started_at'', PStr timestamp)],
       bnd (gets execution_start_ts) (\<lambda>ts.
         case ts of None \<Rightarrow> ret ()
         | Some ts \<Rightarrow> link (orch_run_key session_id ts) iteration_id ''HAS_PART'' ''CONTAINS''),
       sourced_from env iteration_id session_id ''provider:request'' timestamp None])))"

definition enrich_iteration :: "env \<Rightarrow> str \<Rightarrow> pydict \<Rightarrow> pydict \<Rightarrow> str \<Rightarrow> unit hop" where
  "enrich_iteration env event data props iteration_id =
    bnd (node_op iteration_id ((''labels'', label_list [''Iteration'', ''SST_EVENT'']) # props)) (\<lambda>_.
    bnd (lift_res (str_field data ''session_id'' [])) (\<lambda>session_id.
    with_timestamp data (\<lambda>timestamp. sourced_from env iteration_id session_id event timestamp None)))"

definition handle_llm_request :: "env \<Rightarrow> pydict \<Rightarrow> unit hop" where
  "handle_llm_request env data =
    bnd (gets active_iteration_id) (\<lambda>it.
    case it of
      None \<Rightarrow> ret ()
    | Some iteration_id \<Rightarrow>
        enrich_iteration env ''llm:request'' data
          [(''provider'', any_field data ''provider''), (''model'', any_field data ''model''),
           (''message_count'', any_field data ''message_count''), (''has_system'', any_field data ''has_system'')]
          iteration_id)"

text \<open>\<^verbatim>\<open>data.get(key) or {}\<close>, used as a mapping.\<close>

definition dict_or_empty :: "pyval \<Rightarrow> pydict res" where
  "dict_or_empty v = (case v of PDict d \<Rightarrow> Inr d | _ \<Rightarrow> if truthy v then Inl AttributeError else Inr [])"

definition handle_llm_response :: "env \<Rightarrow> pydict \<Rightarrow> unit hop" where
  "handle_llm_response env data =
    bnd (gets active_iteration_id) (\<lambda>it.
    case it of
      None \<Rightarrow> ret ()
    | Some iteration_id \<Rightarrow>
        bnd (lift_res (dict_or_empty (any_field data ''usage''))) (\<lambda>usage.
        enrich_iteration env ''llm:response'' data
          [(''usage_input'', any_field usage ''input_tokens''), (''usage_output'', any_field usage ''output_tokens''),
           (''usage_cache_write'', any_field usage ''cache_creation_input_tokens'')]
          iteration_id))"

definition iteration_handler :: "env \<Rightarrow> str \<Rightarrow> pydict \<Rightarrow> unit hop" where
  "iteration_handler env event data = with_session data (\<lambda>session_id.
    if event = ''provider:request'' then handle_provider_request env session_id data
    else if event = ''llm:request'' then handle_llm_request env data
    else if event = ''llm:response'' then handle_llm_response env data
    else ret ())"

section \<open>Content blocks\<close>

text \<open>\<^verbatim>\<open>s.split("::")[-1]\<close>\<close>

fun last_part :: "str \<Rightarrow> str \<Rightarrow> str" where
  "last_part cur [] = cur"
| "last_part cur [c] = cur @ [c]"
| "last_part cur (c # d # cs) =
    (if c = CHR '':'' \<and> d = CHR '':'' then last_part [] cs else last_part (cur @ [c]) (d # cs))"

definition handle_block_start :: "env \<Rightarrow> str \<Rightarrow> str \<Rightarrow> pyval \<Rightarrow> pydict \<Rightarrow> unit hop" where
  "handle_block_start env session_id block_node_id block_index data = with_timestamp data (\<lambda>timestamp.
    seq_ops
      [node_op block_node_id
         [(''labels'', label_list [''ContentBlock'', ''SST_EVENT'']), (''session_id'', PStr session_id),
          (''block_index'', block_index), (''started_at'', PStr timestamp)],
       bnd (gets active_iteration_id) (\<lambda>it.
         case it of None \<Rightarrow> ret () | Some i \<Rightarrow> link i block_node_id ''HAS_PART'' ''CONTAINS''),
       sourced_from env block_node_id session_id ''content_block:start'' timestamp None])"

definition handle_block_end :: "env \<Rightarrow> str \<Rightarrow> pydict \<Rightarrow> unit hop" where
  "handle_block_end env block_node_id data = with_timestamp data (\<lambda>timestamp.
    bnd (lift_res (dict_or_empty (any_field data ''block''))) (\<lambda>block.
    let block_type = any_field block ''type'' in
    seq_ops
      [node_op block_node_id
         [(''labels'', label_list [''ContentBlock'', ''SST_EVENT'']), (''block_type'', block_type),
          (''ended_at'', PStr timestamp)],
       when_op (block_type = PStr ''tool_call'')
         (bnd (lift_res (truthy_str block ''id'')) (\<lambda>bid.
           case bid of None \<Rightarrow> ret ()
           | Some block_id \<Rightarrow>
               modify (\<lambda>s. s\<lparr>pending_tool_block_ids := dset block_id block_node_id (pending_tool_block_ids s)\<rparr>))),
       bnd (lift_res (str_field data ''session_id'' [])) (\<lambda>session_id.
         sourced_from env block_node_id session_id ''content_block:end'' timestamp None)]))"

definition content_block_handler :: "env \<Rightarrow> str \<Rightarrow> pydict \<Rightarrow> unit hop" where
  "content_block_handler env event data = with_session data (\<lambda>session_id.
    bnd (gets active_iteration_id) (\<lambda>it.
    bnd (lift_res (py_str (any_field data ''block_index''))) (\<lambda>index.
    let block_index = any_field data ''block_index'';
        iteration_n = (if truthy_opt it then last_part [] (the it) else ''0'');
        block_node_id = session_id @ ''::block::'' @ iteration_n @ ''::'' @ index
    in if event = ''content_block:start'' then handle_block_start env session_id block_node_id block_index data
       else if event = ''content_block:end'' then handle_block_end env block_node_id data
       else ret ())))"

section \<open>Tool calls\<close>

text \<open>\<^verbatim>\<open>self._parallel_groups.setdefault(parallel_group_id, [])\<close>\<close>

definition group_of :: "str \<Rightarrow> str list dict \<Rightarrow> str list" where
  "group_of k groups = (case dget groups k of None \<Rightarrow> [] | Some g \<Rightarrow> g)"

definition handle_tool_pre :: "env \<Rightarrow> str \<Rightarrow> str \<Rightarrow> str \<Rightarrow> pydict \<Rightarrow> unit hop" where
  "handle_tool_pre env session_id tool_call_id timestamp data =
    bnd (lift_res (opt_str_field data ''parallel_group_id'')) (\<lambda>group_id.
    seq_ops
      [node_op tool_call_id
         ([(''labels'', label_list [''ToolCall'', ''SST_EVENT'']), (''tool_name'', any_field data ''tool_name''),
           (''tool_call_id'', PStr tool_call_id), (''session_id'', PStr session_id),
           (''tool_input'', any_field data ''tool_input''), (''started_at'', PStr timestamp)] @
          opt_entry (group_id \<noteq> None) ''parallel_group_id'' (opt_val group_id)),
       bnd (gets active_iteration_id) (\<lambda>it.
         case it of None \<Rightarrow> ret () | Some i \<Rightarrow> link i tool_call_id ''HAS_TOOL_CALL'' ''CONTAINS''),
       bnd (gets (\<lambda>s. dget (pending_tool_block_ids s) tool_call_id)) (\<lambda>block.
         bnd (modify (\<lambda>s. s\<lparr>pending_tool_block_ids := AList.delete tool_call_id (pending_tool_block_ids s)\<rparr>)) (\<lambda>_.
         case block of None \<Rightarrow> ret () | Some b \<Rightarrow> link b tool_call_id ''CAUSED'' ''LEADS_TO'')),
       (case group_id of
          None \<Rightarrow> ret ()
        | Some gid \<Rightarrow>
            bnd (gets (\<lambda>s. group_of gid (tool_parallel_groups s))) (\<lambda>group.
            bnd (for_each group (\<lambda>prior_id. link tool_call_id prior_id ''PARALLEL_EXECUTION'' ''NEAR'')) (\<lambda>_.
            modify (\<lambda>s. s\<lparr>tool_parallel_groups := dset gid (group @ [tool_call_id]) (tool_parallel_groups s)\<rparr>)))),
       sourced_from env tool_call_id session_id ''tool:pre'' timestamp (Some tool_call_id)])"

definition handle_tool_post :: "env \<Rightarrow> str \<Rightarrow> str \<Rightarrow> str \<Rightarrow> pydict \<Rightarrow> unit hop" where
  "handle_tool_post env session_id tool_call_id timestamp data =
    bnd (lift_res (case dget data ''result'' of
                     None \<Rightarrow> Inr [] | Some (PDict d) \<Rightarrow> Inr d | Some _ \<Rightarrow> Inl AttributeError)) (\<lambda>result.
    seq_ops
      [node_op tool_call_id
         [(''labels'', label_list [''ToolCall'', ''SST_EVENT'']), (''ended_at'', PStr timestamp),
          (''result_success'', PBool (any_field result ''error'' = PNone)),
          (''result_output'', any_field result ''output''), (''result_error'', any_field result ''error'')],
       sourced_from env tool_call_id session_id ''tool:post'' timestamp (Some tool_call_id)])"

definition handle_tool_error :: "env \<Rightarrow> str \<Rightarrow> str \<Rightarrow> str \<Rightarrow> pydict \<Rightarrow> unit hop" where
  "handle_tool_error env session_id tool_call_id timestamp data =
    seq_ops
      [node_op tool_call_id
         [(''labels'', label_list [''ToolCall'', ''SST_EVENT'']), (''ended_at'', PStr timestamp),
          (''result_success'', PBool False),
          (''result_error'', por (por (any_field data ''error'') (any_field data ''error_message''))
             (any_field data ''message''))],
       sourced_from env tool_call_id session_id ''tool:error'' timestamp (Some tool_call_id)]"

definition tool_call_handler :: "env \<Rightarrow> str \<Rightarrow> pydict \<Rightarrow> unit hop" where
  "tool_call_handler env event data = with_session data (\<lambda>session_id.
    bnd (lift_res (truthy_str data ''tool_call_id'')) (\<lambda>tc.
    case tc of
      None \<Rightarrow> ret ()
    | Some tool_call_id \<Rightarrow>
        with_timestamp data (\<lambda>timestamp.
        if event = ''tool:pre'' then handle_tool_pre env session_id tool_call_id timestamp data
        else if event = ''tool:error'' then handle_tool_error env session_id tool_call_id timestamp data
        else handle_tool_post env session_id tool_call_id timestamp data)))"

section \<open>Prompts, cancellations, compactions\<close>

definition prompt_handler :: "env \<Rightarrow> str \<Rightarrow> pydict \<Rightarrow> unit hop" where
  "prompt_handler env event data = with_session data (\<lambda>session_id.
    with_timestamp data (\<lambda>timestamp.
    let prompt_text = (case dget data ''prompt'' of None \<Rightarrow> PStr [] | Some v \<Rightarrow> v);
        prompt_node_id = session_id @ ''::prompt::'' @ timestamp in
    seq_ops
      [node_op prompt_node_id
         [(''labels'', label_list [''Prompt'', ''SST_EVENT'']), (''session_id'', PStr session_id),
          (''prompt'', prompt_text), (''occurred_at'', PStr timestamp)],
       sourced_from env prompt_node_id session_id ''prompt:submit'' timestamp None,
       link session_id prompt_node_id ''HAS_PART'' ''CONTAINS'',
       bnd (gets last_completed_orch_run_id) (\<lambda>r.
         case r of None \<Rightarrow> ret ()
         | Some run \<Rightarrow>
             bnd (link run prompt_node_id ''ENABLES'' ''LEADS_TO'') (\<lambda>_.
             modify (\<lambda>s. s\<lparr>last_completed_orch_run_id := None\<rparr>))),
       modify (\<lambda>s. s\<lparr>last_prompt_id := Some prompt_node_id\<rparr>)]))"

definition cancellation_handler :: "env \<Rightarrow> str \<Rightarrow> pydict \<Rightarrow> unit hop" where
  "cancellation_handler env event data = with_session data (\<lambda>session_id.
    with_timestamp data (\<lambda>timestamp.
    let cancellation_node_id = session_id @ ''::cancellation::'' @ timestamp in
    seq_ops
      [node_op cancellation_node_id
         [(''labels'', label_list [''Cancellation'', ''SST_EVENT'']), (''session_id'', PStr session_id),
          (''was_immediate'', any_field data ''immediate''), (''occurred_at'', PStr timestamp)],
       link session_id cancellation_node_id ''HAS_PART'' ''CONTAINS'',
       sourced_from env cancellation_node_id session_id ''cancel:completed'' timestamp None]))"

definition context_compaction_handler :: "env \<Rightarrow> str \<Rightarrow> pydict \<Rightarrow> unit hop" where
  "context_compaction_handler env event data = with_session data (\<lambda>session_id.
    with_timestamp data (\<lambda>timestamp.
    let compaction_node_id = session_id @ ''::compaction::'' @ timestamp in
    seq_ops
      [node_op compaction_node_id
         [(''labels'', label_list [''ContextCompaction'', ''SST_EVENT'']), (''session_id'', PStr session_id),
          (''occurred_at'', PStr timestamp)],
       link session_id compaction_node_id ''HAS_COMPACTION'' ''CONTAINS'',
       sourced_from env compaction_node_id session_id event timestamp None]))"

end
