(* ===== verification/Layer3.thy ===== *)
theory Layer3
  imports Layer2
begin

text \<open>
  \<^verbatim>\<open>handlers/data_layer_3\<close>: delegations with the resolution of self-delegations, skill loads, recipe runs
  and recipe steps.
\<close>

section \<open>Delegations\<close>

definition MAX_SELF_DELEGATION_DEPTH :: nat where
  "MAX_SELF_DELEGATION_DEPTH = 8"

definition discriminate_root_vs_unresolved :: "pydict option \<Rightarrow> str" where
  "discriminate_root_vs_unresolved parent_session =
    (let labels = (case parent_session of None \<Rightarrow> [] | Some d \<Rightarrow> labels_of d)
     in if ''RootSession'' \<in> set labels then ''root''
        else if ''ForkedSession'' \<in> set labels then ''forked''
        else ''unresolved'')"

text \<open>The bounded walk: the first argument counts the remaining rounds of \<^verbatim>\<open>for _ in range(max_depth)\<close>.\<close>

fun self_agent_walk :: "nat \<Rightarrow> graph \<Rightarrow> str list \<Rightarrow> str \<Rightarrow> str res" where
  "self_agent_walk 0 g visited current = Inr ''unresolved''"
| "self_agent_walk (Suc n) g visited current =
    (if current \<in> set visited then Inr ''unresolved''
     else case find_delegation_by_sub_session current g of
       None \<Rightarrow> Inr (discriminate_root_vs_unresolved (get_node current g))
     | Some d \<Rightarrow>
         if any_field d ''agent'' \<noteq> PStr ''self''
         then bind_res (truthy_str d ''agent'') (\<lambda>a. Inr (case a of None \<Rightarrow> ''unresolved'' | Some a \<Rightarrow> a))
         else bind_res (truthy_str d ''parent_session_id'') (\<lambda>p.
                case p of None \<Rightarrow> Inr ''unresolved'' | Some next \<Rightarrow> self_agent_walk n g (current # visited) next))"

definition resolve_self_agent :: "graph \<Rightarrow> str \<Rightarrow> str res" where
  "resolve_self_agent g parent_session_id = self_agent_walk MAX_SELF_DELEGATION_DEPTH g [] parent_session_id"

definition delegation_key :: "str \<Rightarrow> str \<Rightarrow> str" where
  "delegation_key parent_session_id tool_call_id = parent_session_id @ ''::delegation::'' @ tool_call_id"

definition not_none_entry :: "pydict \<Rightarrow> string \<Rightarrow> pydict" where
  "not_none_entry data key = opt_entry (any_field data key \<noteq> PNone) key (any_field data key)"

definition handle_spawned :: "env \<Rightarrow> str \<Rightarrow> str \<Rightarrow> pydict \<Rightarrow> unit hop" where
  "handle_spawned env parent_session_id tool_call_id data = with_timestamp data (\<lambda>timestamp.
    bnd (lift_res (str_field data ''agent'' [])) (\<lambda>agent.
    bnd (lift_res (str_field data ''sub_session_id'' [])) (\<lambda>sub_session_id.
    bnd (lift_res (opt_str_field data ''parallel_group_id'')) (\<lambda>group_id.
    let delegation_id = delegation_key parent_session_id tool_call_id;
        is_self = (agent = ''self'') in
    bnd (if is_self
         then bnd (gets (\<lambda>s. resolve_self_agent (hs_graph s) parent_session_id)) lift_res
         else ret agent) (\<lambda>resolved_agent.
    seq_ops
      [node_op delegation_id
         ([(''labels'', label_list [''Delegation'', ''SST_EVENT'']), (''agent'', PStr agent),
           (''parent_session_id'', PStr parent_session_id), (''sub_session_id'', PStr sub_session_id),
           (''tool_call_id'', PStr tool_call_id), (''started_at'', PStr timestamp),
           (''is_self_delegation'', PBool is_self)] @
          opt_entry (group_id \<noteq> None) ''parallel_group_id'' (opt_val group_id) @
          not_none_entry data ''context_depth'' @ not_none_entry data ''context_scope'' @
          not_none_entry data ''model_role'' @
          opt_entry is_self ''resolved_agent'' (PStr resolved_agent)),
       node_op resolved_agent
         [(''labels'', label_list [''Agent'', ''SST_CONCEPT'']), (''agent'', PStr resolved_agent)],
       ensure_session_node sub_session_id [(''agent'', PStr agent)] None,
       link sub_session_id resolved_agent ''HAS_AGENT'' ''EXPRESSES'',
       link delegation_id sub_session_id ''ENCOMPASSES'' ''CONTAINS'',
       link tool_call_id delegation_id ''TRIGGERED'' ''LEADS_TO'',
       (case group_id of
          None \<Rightarrow> ret ()
        | Some gid \<Rightarrow>
            bnd (gets (\<lambda>s. group_of gid (delegation_parallel_groups s))) (\<lambda>group.
            bnd (for_each group (\<lambda>prior. link delegation_id prior ''PARALLEL_AGENT'' ''NEAR'')) (\<lambda>_.
            modify (\<lambda>s. s\<lparr>delegation_parallel_groups :=
              dset gid (group @ [delegation_id]) (delegation_parallel_groups s)\<rparr>)))),
       bnd (gets active_recipe_step_id) (\<lambda>st.
         case st of None \<Rightarrow> ret () | Some step \<Rightarrow> link step delegation_id ''TRIGGERED'' ''LEADS_TO''),
       sourced_from env delegation_id parent_session_id ''delegate:agent_spawned'' timestamp
         (Some tool_call_id)])))))"

definition handle_lifecycle :: "env \<Rightarrow> str \<Rightarrow> str \<Rightarrow> str \<Rightarrow> pydict \<Rightarrow> unit hop" where
  "handle_lifecycle env parent_session_id tool_call_id event data = with_timestamp data (\<lambda>timestamp.
    let delegation_id = delegation_key parent_session_id tool_call_id;
        enrichment =
          (if event = ''delegate:agent_completed'' then [(''ended_at'', PStr timestamp), (''success'', PBool True)]
           else if event = ''delegate:agent_resumed'' then [(''resumed_at'', PStr timestamp)]
           else if event = ''delegate:agent_cancelled'' then [(''cancelled_at'', PStr timestamp)]
           else [(''ended_at'', PStr timestamp), (''success'', PBool False), (''error'', any_field data ''error'')])
    in seq_ops
      [node_op delegation_id ((''labels'', label_list [''Delegation'', ''SST_EVENT'']) # enrichment),
       sourced_from env delegation_id parent_session_id event timestamp (Some delegation_id)])"

definition delegation_handler :: "env \<Rightarrow> str \<Rightarrow> pydict \<Rightarrow> unit hop" where
  "delegation_handler env event data =
    bnd (lift_res (truthy_str data ''parent_session_id'')) (\<lambda>ps.
    case ps of
      None \<Rightarrow> ret ()
    | Some parent_session_id \<Rightarrow>
        bnd (lift_res (truthy_str data ''tool_call_id'')) (\<lambda>raw.
        bnd (lift_res (truthy_str data ''sub_session_id'')) (\<lambda>sub.
        case (case raw of None \<Rightarrow> sub | Some t \<Rightarrow> Some t) of
          None \<Rightarrow> ret ()
        | Some tool_call_id \<Rightarrow>
            if event = ''delegate:agent_spawned'' then handle_spawned env parent_session_id tool_call_id data
            else handle_lifecycle env parent_session_id tool_call_id event data)))"

section \<open>Skill loads\<close>

definition handle_loaded :: "env \<Rightarrow> str \<Rightarrow> str \<Rightarrow> pydict \<Rightarrow> unit hop" where
  "handle_loaded env session_id skill_name data = with_timestamp data (\<lambda>timestamp.
    let skill_load_id = session_id @ ''::skill::'' @ skill_name @ ''::'' @ timestamp in
    seq_ops
      [node_op skill_load_id
         [(''labels'', label_list [''SkillLoad'', ''SST_EVENT'']), (''skill_name'', PStr skill_name),
          (''started_at'', PStr timestamp), (''content_length'', any_field data ''content_length''),
          (''source'', any_field data ''source''), (''version'', any_field data ''version''),
          (''context'', any_field data ''context''),
          (''disable_model_invocation'', any_field data ''disable_model_invocation''),
          (''user_invocable'', any_field data ''user_invocable''),
          (''auto_loaded'', case dget data ''auto_loaded'' of None \<Rightarrow> PBool False | Some v \<Rightarrow> v)],
       bnd (gets active_iteration_id) (\<lambda>it.
         link (if truthy_opt it then the it else session_id) skill_load_id ''HAS_SKILL_LOAD'' ''CONTAINS''),
       modify (\<lambda>s. s\<lparr>active_skill_nodes := dset skill_name skill_load_id (active_skill_nodes s)\<rparr>),
       bnd (lift_res (opt_fmt (any_field data ''tool_call_id''))) (\<lambda>dis.
         sourced_from env skill_load_id session_id ''skill:loaded'' timestamp dis)])"

definition handle_unloaded :: "env \<Rightarrow> str \<Rightarrow> str \<Rightarrow> pydict \<Rightarrow> unit hop" where
  "handle_unloaded env session_id skill_name data =
    bnd (gets (\<lambda>s. dget (active_skill_nodes s) skill_name)) (\<lambda>loaded.
    bnd (modify (\<lambda>s. s\<lparr>active_skill_nodes := AList.delete skill_name (active_skill_nodes s)\<rparr>)) (\<lambda>_.
    case loaded of
      None \<Rightarrow> ret ()
    | Some skill_load_id \<Rightarrow>
        with_timestamp data (\<lambda>timestamp.
        seq_ops
          [node_op skill_load_id
             [(''labels'', label_list [''SkillLoad'', ''SST_EVENT'']), (''ended_at'', PStr timestamp)],
           bnd (lift_res (opt_fmt (any_field data ''tool_call_id''))) (\<lambda>dis.
             sourced_from env skill_load_id session_id ''skill:unloaded'' timestamp dis)])))"

definition skill_load_handler :: "env \<Rightarrow> str \<Rightarrow> pydict \<Rightarrow> unit hop" where
  "skill_load_handler env event data = with_session data (\<lambda>session_id.
    bnd (lift_res (truthy_str data ''skill_name'')) (\<lambda>sk.
    case sk of
      None \<Rightarrow> ret ()
    | Some skill_name \<Rightarrow>
        if event = ''skill:loaded'' then handle_loaded env session_id skill_name data
        else handle_unloaded env session_id skill_name data))"

section \<open>Recipe runs\<close>

definition top_run :: "(str \<Rightarrow> unit hop) \<Rightarrow> unit hop" where
  "top_run f = bnd (gets active_recipe_run_stack) (\<lambda>stack. if stack = [] then ret () else f (last stack))"

definition handle_recipe_start :: "env \<Rightarrow> str \<Rightarrow> pydict \<Rightarrow> str \<Rightarrow> str option \<Rightarrow> unit hop" where
  "handle_recipe_start env session_id data source_event source_disambiguator = with_timestamp data (\<lambda>timestamp.
    bnd (lift_res (str_field data ''name'' [])) (\<lambda>name.
    bnd (lift_res (truthy_str data ''parent_session_id'')) (\<lambda>parent.
    let recipe_run_id = session_id @ ''::recipe_run::'' @ timestamp in
    seq_ops
      [node_op recipe_run_id
         ([(''labels'', label_list [''RecipeRun'', ''SST_EVENT'']), (''name'', PStr name),
           (''started_at'', PStr timestamp), (''total_steps'', any_field data ''total_steps''),
           (''status'', any_field data ''status'')] @
          (case parent of None \<Rightarrow> [] | Some p \<Rightarrow> [(''parent_session_id'', PStr p), (''is_sub_recipe'', PBool True)])),
       node_op name [(''labels'', label_list [''Recipe'', ''SST_CONCEPT'']), (''name'', PStr name)],
       link session_id recipe_run_id ''HAS_RECIPE_RUN'' ''CONTAINS'',
       (case parent of
          None \<Rightarrow> ret ()
        | Some p \<Rightarrow>
            seq_ops
              [ensure_session_node p [] None,
               link p recipe_run_id ''SPAWNED_RECIPE_RUN'' ''LEADS_TO'']),
       link recipe_run_id name ''HAS_RECIPE'' ''EXPRESSES'',
       sourced_from env recipe_run_id session_id source_event timestamp source_disambiguator,
       bnd (gets active_recipe_step_id) (\<lambda>st.
         case st of None \<Rightarrow> ret () | Some step \<Rightarrow> link step recipe_run_id ''SPAWNED'' ''LEADS_TO''),
       modify (\<lambda>s. s\<lparr>active_recipe_run_stack := active_recipe_run_stack s @ [recipe_run_id]\<rparr>)])))"

definition handle_recipe_complete :: "env \<Rightarrow> str \<Rightarrow> pydict \<Rightarrow> unit hop" where
  "handle_recipe_complete env session_id data = top_run (\<lambda>recipe_run_id.
    with_timestamp data (\<lambda>timestamp.
    seq_ops
      [node_op recipe_run_id
         [(''labels'', label_list [''RecipeRun'', ''SST_EVENT'']), (''ended_at'', PStr timestamp),
          (''success'', any_field data ''success''), (''final_status'', any_field data ''final_status'')],
       sourced_from env recipe_run_id session_id ''recipe:complete'' timestamp None,
       modify (\<lambda>s. s\<lparr>active_recipe_run_stack := butlast (active_recipe_run_stack s)\<rparr>),
       modify (\<lambda>s. s\<lparr>active_recipe_step_id := None\<rparr>)]))"

definition handle_run_approval :: "env \<Rightarrow> str \<Rightarrow> pydict \<Rightarrow> unit hop" where
  "handle_run_approval env session_id data =
    bnd (gets active_recipe_run_stack) (\<lambda>stack.
    if stack \<noteq> [] then ret ()
    else bnd (lift_res (opt_str_field data ''stage_name'')) (\<lambda>stage_name.
      handle_recipe_start env session_id data ''recipe:approval'' stage_name))"

text \<open>\<^verbatim>\<open>if data.get(key) is not None: enrichment[name] = data[key]\<close>\<close>

definition renamed_entry :: "pydict \<Rightarrow> string \<Rightarrow> string \<Rightarrow> pydict" where
  "renamed_entry data key name = opt_entry (any_field data key \<noteq> PNone) name (any_field data key)"

definition handle_run_loop_iteration :: "str \<Rightarrow> pydict \<Rightarrow> unit hop" where
  "handle_run_loop_iteration session_id data = top_run (\<lambda>recipe_run_id.
    with_timestamp data (\<lambda>timestamp.
    node_op recipe_run_id
      ([(''labels'', label_list [''RecipeRun'', ''SST_EVENT'']), (''last_loop_iteration_at'', PStr timestamp)] @
       renamed_entry data ''step_id'' ''last_loop_step_id'' @
       renamed_entry data ''iteration'' ''last_loop_iteration'' @
       renamed_entry data ''max_iterations'' ''last_loop_max_iterations'')))"

definition handle_loop_complete :: "str \<Rightarrow> pydict \<Rightarrow> unit hop" where
  "handle_loop_complete session_id data = top_run (\<lambda>recipe_run_id.
    with_timestamp data (\<lambda>timestamp.
    node_op recipe_run_id
      ([(''labels'', label_list [''RecipeRun'', ''SST_EVENT'']), (''loop_completed_at'', PStr timestamp)] @
       renamed_entry data ''iterations_completed'' ''last_loop_iterations_completed'' @
       renamed_entry data ''results_count'' ''last_loop_results_count'')))"

definition recipe_run_handler :: "env \<Rightarrow> str \<Rightarrow> pydict \<Rightarrow> unit hop" where
  "recipe_run_handler env event data = with_session data (\<lambda>session_id.
    if event = ''recipe:start'' then handle_recipe_start env session_id data ''recipe:start'' None
    else if event = ''recipe:complete'' then handle_recipe_complete env session_id data
    else if event = ''recipe:approval'' then handle_run_approval env session_id data
    else if event = ''recipe:loop_iteration'' then handle_run_loop_iteration session_id data
    else if event = ''recipe:loop_complete'' then handle_loop_complete session_id data
    else ret ())"

section \<open>Recipe steps\<close>

definition clear_step :: "unit hop" where
  "clear_step = modify (\<lambda>s. s\<lparr>active_recipe_step_id := None\<rparr>)"

text \<open>The tail every step handler shares: the node, its \<^verbatim>\<open>HAS_STEP\<close> edge, the bridge and the cursor.\<close>

definition record_step :: "env \<Rightarrow> str \<Rightarrow> str \<Rightarrow> str \<Rightarrow> pydict \<Rightarrow> str \<Rightarrow> str \<Rightarrow> str \<Rightarrow> unit hop" where
  "record_step env run_id step_id session_id props event timestamp disambiguator =
    seq_ops
      [node_op step_id ((''labels'', label_list [''RecipeStep'', ''SST_EVENT'']) # props),
       link run_id step_id ''HAS_STEP'' ''CONTAINS'',
       sourced_from env step_id session_id event timestamp (Some disambiguator),
       modify (\<lambda>s. s\<lparr>active_recipe_step_id := Some step_id\<rparr>)]"

text \<open>\<^verbatim>\<open>xs[i]\<close> with a possibly negative index.\<close>

definition py_index :: "'a list \<Rightarrow> int \<Rightarrow> 'a option" where
  "py_index xs i =
    (let j = (if i < 0 then i + int (length xs) else i)
     in if 0 \<le> j \<and> j < int (length xs) then Some (xs ! nat j) else None)"

text \<open>\<^verbatim>\<open>data["steps"][current_step]["name"]\<close>, nothing where it raises \<^verbatim>\<open>IndexError\<close>, \<^verbatim>\<open>KeyError\<close> or
  \<^verbatim>\<open>TypeError\<close>.\<close>

definition step_entry :: "pyval \<Rightarrow> pyval \<Rightarrow> pyval option" where
  "step_entry steps current_step =
    (case steps of
       PList xs \<Rightarrow>
         (case current_step of
            PInt i \<Rightarrow> py_index xs i
          | PBool b \<Rightarrow> py_index xs (if b then 1 else 0)
          | _ \<Rightarrow> None)
     | PDict m \<Rightarrow> (case current_step of PStr k \<Rightarrow> dget m k | _ \<Rightarrow> None)
     | _ \<Rightarrow> None)"

definition step_name_of :: "pydict \<Rightarrow> pyval \<Rightarrow> pyval option" where
  "step_name_of data current_step =
    (case dget data ''steps'' of
       None \<Rightarrow> None
     | Some steps \<Rightarrow>
         (case step_entry steps current_step of Some (PDict d) \<Rightarrow> dget d ''name'' | _ \<Rightarrow> None))"

definition handle_step :: "env \<Rightarrow> str \<Rightarrow> pydict \<Rightarrow> unit hop" where
  "handle_step env session_id data =
    bnd clear_step (\<lambda>_. top_run (\<lambda>run_id.
    with_timestamp data (\<lambda>timestamp.
    let current_step = (case dget data ''current_step'' of None \<Rightarrow> PInt 0 | Some v \<Rightarrow> v) in
    bnd (lift_res (py_str current_step)) (\<lambda>step_str.
    let step_name = (case step_name_of data current_step of None \<Rightarrow> PStr step_str | Some v \<Rightarrow> v) in
    record_step env run_id (run_id @ ''::step::'' @ step_str) session_id
      [(''name'', step_name), (''started_at'', PStr timestamp), (''current_step'', current_step)]
      ''recipe:step'' timestamp step_str))))"

definition handle_step_approval :: "env \<Rightarrow> str \<Rightarrow> pydict \<Rightarrow> unit hop" where
  "handle_step_approval env session_id data =
    bnd clear_step (\<lambda>_. top_run (\<lambda>run_id.
    with_timestamp data (\<lambda>timestamp.
    bnd (lift_res (str_field data ''stage_name'' [])) (\<lambda>stage_name.
    record_step env run_id (run_id @ ''::step::'' @ stage_name) session_id
      ([(''stage_name'', PStr stage_name), (''name'', PStr stage_name), (''started_at'', PStr timestamp)] @
       not_none_entry data ''prompt'')
      ''recipe:approval'' timestamp stage_name))))"

definition handle_step_loop_iteration :: "env \<Rightarrow> str \<Rightarrow> pydict \<Rightarrow> unit hop" where
  "handle_step_loop_iteration env session_id data =
    bnd clear_step (\<lambda>_. top_run (\<lambda>run_id.
    with_timestamp data (\<lambda>timestamp.
    bnd (lift_res (str_field data ''step_id'' [])) (\<lambda>loop_step_id.
    bnd (lift_res (py_str (any_field data ''iteration''))) (\<lambda>iteration.
    record_step env run_id (run_id @ ''::step::'' @ loop_step_id @ ''::loop::'' @ iteration) session_id
      [(''name'', PStr (''loop iteration '' @ iteration)), (''step_id'', PStr loop_step_id),
       (''iteration'', any_field data ''iteration''), (''max_iterations'', any_field data ''max_iterations''),
       (''started_at'', PStr timestamp)]
      ''recipe:loop_iteration'' timestamp (loop_step_id @ ''_'' @ iteration))))))"

definition handle_step_tool_pre :: "pydict \<Rightarrow> unit hop" where
  "handle_step_tool_pre data =
    bnd (gets active_recipe_step_id) (\<lambda>st.
    bnd (lift_res (opt_str_field data ''tool_call_id'')) (\<lambda>tc.
    case (st, tc) of
      (Some step, Some tool_call_id) \<Rightarrow> link step tool_call_id ''TRIGGERED'' ''LEADS_TO''
    | _ \<Rightarrow> ret ()))"

definition recipe_step_handler :: "env \<Rightarrow> str \<Rightarrow> pydict \<Rightarrow> unit hop" where
  "recipe_step_handler env event data =
    bnd (lift_res (str_field data ''session_id'' [])) (\<lambda>session_id.
    if event = ''recipe:step'' then handle_step env session_id data
    else if event = ''recipe:approval'' then handle_step_approval env session_id data
    else if event = ''recipe:loop_iteration'' then handle_step_loop_iteration env session_id data
    else if event = ''tool:pre'' then handle_step_tool_pre data
    else ret ())"

end
