(* ===== verification/Pipeline.thy ===== *)
theory Pipeline
  imports Layer3
begin

text \<open>
  \<^verbatim>\<open>pipeline.py\<close> and \<^verbatim>\<open>blob_processor.py\<close>: the processing of one event.  The session node is ensured,
  large fields are offloaded to the blob store, the default handler records the event, the handlers
  that claim the event enrich the graph, and the session is touched.
\<close>

section \<open>Blob offloading\<close>

definition BLOB_FIELDS :: "str list" where
  "BLOB_FIELDS = [''raw'', ''result'', ''messages'', ''mount_plan'', ''context_snapshot'', ''debug'']"

definition promote_field :: "pydict \<Rightarrow> str \<Rightarrow> pydict \<Rightarrow> pydict" where
  "promote_field raw k data =
    (case (dget raw k, dget data k) of (Some v, None) \<Rightarrow> dset k v data | _ \<Rightarrow> data)"

definition lift_raw_fields :: "pydict \<Rightarrow> pydict res" where
  "lift_raw_fields data =
    (case any_field data ''raw'' of
       PDict raw \<Rightarrow>
         let data = promote_field raw ''finish_reason'' (promote_field raw ''stop_reason'' data) in
         (case any_field raw ''usage'' of
            PDict raw_usage \<Rightarrow>
              (case any_field data ''usage'' of
                 PDict top_usage \<Rightarrow> Inr (dset ''usage'' (PDict (dupdate raw_usage top_usage)) data)
               | v \<Rightarrow> if truthy v then Inl TypeError else Inr (dset ''usage'' (PDict raw_usage) data))
          | _ \<Rightarrow> Inr data)
     | _ \<Rightarrow> Inr data)"

text \<open>The body of the field loop.  \<^verbatim>\<open>BLOB_FIELDS\<close> is a set, whose order the language leaves open; the
  rounds touch disjoint fields.\<close>

definition offload_field ::
  "(str \<Rightarrow> str \<Rightarrow> pyval \<Rightarrow> str + str) \<Rightarrow> str \<Rightarrow> str \<Rightarrow> str \<Rightarrow> pydict \<Rightarrow> pydict hop" where
  "offload_field write session_id node_id k data =
    (let value = any_field data k;
         key = node_id @ ''__'' @ k in
     if value = PNone then ret data
     else case write session_id key value of
       Inr uri \<Rightarrow>
         bnd (modify (\<lambda>s. s\<lparr>blobs_written := AList.update (session_id, key) value (blobs_written s)\<rparr>)) (\<lambda>_.
         ret (dset k (PDict [(''$blob_ref'', PStr uri)]) data))
     | Inl reason \<Rightarrow> ret (dset k (PDict [(''$blob_error'', PStr (''write failed: '' @ reason))]) data))"

fun offload_fields ::
  "(str \<Rightarrow> str \<Rightarrow> pyval \<Rightarrow> str + str) \<Rightarrow> str \<Rightarrow> str \<Rightarrow> str list \<Rightarrow> pydict \<Rightarrow> pydict hop" where
  "offload_fields write session_id node_id [] data = ret data"
| "offload_fields write session_id node_id (k # ks) data =
    bnd (offload_field write session_id node_id k data) (offload_fields write session_id node_id ks)"

definition process_event_data ::
  "(str \<Rightarrow> str \<Rightarrow> pyval \<Rightarrow> str + str) \<Rightarrow> str \<Rightarrow> str \<Rightarrow> pydict \<Rightarrow> pydict hop" where
  "process_event_data write session_id node_id data =
    bnd (lift_res (lift_raw_fields data)) (offload_fields write session_id node_id BLOB_FIELDS)"

section \<open>Dispatch\<close>

type_synonym handler = "env \<Rightarrow> str \<Rightarrow> pydict \<Rightarrow> unit hop"

definition enrichers :: "(str list \<times> handler) list" where
  "enrichers =
    [(session_events, session_handler),
     ([''execution:start'', ''execution:end'', ''orchestrator:complete''], orchestrator_run_handler),
     ([''provider:request'', ''llm:request'', ''llm:response''], iteration_handler),
     ([''content_block:start'', ''content_block:end''], content_block_handler),
     ([''tool:pre'', ''tool:post'', ''tool:error''], tool_call_handler),
     ([''prompt:submit''], prompt_handler),
     ([''cancel:completed''], cancellation_handler),
     ([''context:pre_compact'', ''context:post_compact''], context_compaction_handler),
     ([''delegate:agent_spawned'', ''delegate:agent_completed'', ''delegate:agent_resumed'',
       ''delegate:agent_cancelled'', ''delegate:error''], delegation_handler),
     ([''skill:loaded'', ''skill:unloaded''], skill_load_handler),
     ([''recipe:start'', ''recipe:complete'', ''recipe:approval'', ''recipe:loop_iteration'',
       ''recipe:loop_complete''], recipe_run_handler),
     ([''recipe:step'', ''recipe:approval'', ''recipe:loop_iteration'', ''tool:pre''], recipe_step_handler)]"

definition TERMINAL_EVENTS :: "str list" where
  "TERMINAL_EVENTS = [''session:end'']"

definition run_enrichers :: "env \<Rightarrow> str \<Rightarrow> pydict \<Rightarrow> unit hop" where
  "run_enrichers env event data =
    for_each enrichers (\<lambda>(handled, h). when_op (event \<in> set handled) (h env event data))"

definition process_event :: "env \<Rightarrow> str \<Rightarrow> pydict \<Rightarrow> str option \<Rightarrow> unit hop" where
  "process_event env event data wd =
    bnd (lift_res (truthy_str data ''session_id'')) (\<lambda>sid.
    bnd (case sid of None \<Rightarrow> ret () | Some session_id \<Rightarrow> ensure_session_node session_id data wd) (\<lambda>_.
    bnd (lift_res (truthy_str data ''timestamp'')) (\<lambda>ts.
    bnd (case (sid, ts, blob_write env) of
           (Some session_id, Some timestamp, Some write) \<Rightarrow>
             bnd (lift_res (make_node_id (fromiso env) (event_identity env) session_id event timestamp None))
               (\<lambda>node_id. process_event_data write session_id node_id data)
         | _ \<Rightarrow> ret data) (\<lambda>data.
    bnd (default_handler env event data) (\<lambda>_.
    bnd (run_enrichers env event data) (\<lambda>_.
    case (sid, ts) of
      (Some session_id, Some timestamp) \<Rightarrow> touch_session env session_id timestamp
    | _ \<Rightarrow> ret ()))))))"

end
