(* ===== verification/PipelineSpec.thy ===== *)
theory PipelineSpec
  imports Pipeline
begin

text \<open>
  Invariants of the pipeline.  A predicate of the graph that survives the writes the handlers make
  survives the processing of any event, whether the processing returns or raises; the contract is a
  locale, interpreted for the well-formedness of the store and for the order of the session types.
\<close>

section \<open>Session types\<close>

definition type_of :: "graph \<Rightarrow> str \<Rightarrow> str set" where
  "type_of g n = set (node_labels g n) \<inter> set TYPE_LABELS"

definition one_terminal :: "graph \<Rightarrow> bool" where
  "one_terminal g = (\<forall>n. \<exists>t. type_of g n \<subseteq> {t})"

text \<open>\<^verbatim>\<open>ForkedSession > SubSession > RootSession\<close>, an untyped node below them all.\<close>

definition type_rank :: "str set \<Rightarrow> nat" where
  "type_rank T = (if ''ForkedSession'' \<in> T then 3 else if ''SubSession'' \<in> T then 2
                  else if ''RootSession'' \<in> T then 1 else 0)"

lemma type_of_set_labels:
  "type_of (set_labels n rem add g) m =
    (if m = n then (type_of g n - set rem) \<union> (set add \<inter> set TYPE_LABELS) else type_of g m)"
  by (auto simp: type_of_def node_labels_set_labels)

lemma type_of_edges:
  "type_of (upsert_edge a b data g) m = type_of g m" "type_of (remove_edge a b g) m = type_of g m"
  by (simp_all add: type_of_def node_labels_edges)

lemma type_of_upsert:
  "set (labels_of data) \<inter> set TYPE_LABELS \<subseteq> set (node_labels g n) \<Longrightarrow>
    type_of (upsert_node n data g) m = type_of g m"
  by (auto simp: type_of_def node_labels_upsert)

text \<open>A transition leaves the type alone, gives an untyped node a type, or exchanges the type it was
  computed from for one at least as specific.\<close>

lemma classify_cases:
  assumes "classify current ev hp = Inr tr"
  obtains (keep) "tr = no_transition"
  | (incomplete) "current = None" "set (tr_add tr) \<inter> set TYPE_LABELS = {}" "set (tr_remove tr) \<inter> set TYPE_LABELS = {}"
  | (first) t where "current = None" "set (tr_add tr) \<inter> set TYPE_LABELS = {t}" "set (tr_remove tr) \<inter> set TYPE_LABELS = {}"
  | (exchange) c t where "current = Some c" "set (tr_add tr) \<inter> set TYPE_LABELS = {t}"
      "set (tr_remove tr) \<inter> set TYPE_LABELS = {c}" "type_rank {c} \<le> type_rank {t}"
  | (foreign) "current \<notin> insert None (Some ` set TYPE_LABELS)"
proof -
  have labels:
    "set [''SubSession'', ''SST_EVENT''] \<inter> set TYPE_LABELS = {''SubSession''}"
    "set [''Session'', ''SubSession'', ''SST_EVENT''] \<inter> set TYPE_LABELS = {''SubSession''}"
    "set [''RootSession'', ''Session'', ''SST_EVENT''] \<inter> set TYPE_LABELS = {''RootSession''}"
    "set [''ForkedSession'', ''SST_EVENT''] \<inter> set TYPE_LABELS = {''ForkedSession''}"
    "set [''Session'', ''ForkedSession'', ''SST_EVENT''] \<inter> set TYPE_LABELS = {''ForkedSession''}"
    "set [''IncompleteSession'', ''SST_EVENT''] \<inter> set TYPE_LABELS = {}"
    "set [''StubSession''] \<inter> set TYPE_LABELS = {}"
    "set [''RootSession'', ''StubSession''] \<inter> set TYPE_LABELS = {''RootSession''}"
    "set [''SubSession'', ''StubSession''] \<inter> set TYPE_LABELS = {''SubSession''}"
    by (simp_all add: TYPE_LABELS_def)
  have ranks: "type_rank {''RootSession''} \<le> type_rank {''SubSession''}"
    "type_rank {''RootSession''} \<le> type_rank {''ForkedSession''}"
    "type_rank {''SubSession''} \<le> type_rank {''ForkedSession''}"
    by (simp_all add: type_rank_def)
  consider (none) "current = None" | (forked) "current = Some ''ForkedSession''"
    | (sub) "current = Some ''SubSession''" | (root) "current = Some ''RootSession''"
    | (other) "current \<notin> insert None (Some ` set TYPE_LABELS)"
    unfolding TYPE_LABELS_def by (cases current) auto
  then show thesis
  proof cases
    case none
    have "tr \<in> {\<lparr>tr_add = [''Session'', ''SubSession'', ''SST_EVENT''], tr_remove = [''StubSession'']\<rparr>,
        \<lparr>tr_add = [''RootSession'', ''Session'', ''SST_EVENT''], tr_remove = [''StubSession'']\<rparr>,
        \<lparr>tr_add = [''Session'', ''ForkedSession'', ''SST_EVENT''], tr_remove = [''StubSession'']\<rparr>,
        \<lparr>tr_add = [''IncompleteSession'', ''SST_EVENT''], tr_remove = [''StubSession'']\<rparr>}"
      using assms none by (simp add: classify_def split: if_splits)
    then show thesis using none first incomplete labels by (elim insertE emptyE) (simp_all del: set_simps)
  next
    case forked
    have "tr = no_transition" using assms forked by (simp add: classify_def split: if_splits)
    then show thesis by (rule keep)
  next
    case sub
    have "tr \<in> {no_transition, \<lparr>tr_add = [''ForkedSession'', ''SST_EVENT''], tr_remove = [''SubSession'', ''StubSession'']\<rparr>}"
      using assms sub by (simp add: classify_def split: if_splits)
    then show thesis using sub keep exchange labels ranks by (elim insertE emptyE) (simp_all del: set_simps)
  next
    case root
    have "tr \<in> {no_transition, \<lparr>tr_add = [''ForkedSession'', ''SST_EVENT''], tr_remove = [''RootSession'', ''StubSession'']\<rparr>,
        \<lparr>tr_add = [''SubSession'', ''SST_EVENT''], tr_remove = [''RootSession'', ''StubSession'']\<rparr>}"
      using assms root by (simp add: classify_def split: if_splits)
    then show thesis using root keep exchange labels ranks by (elim insertE emptyE) (simp_all del: set_simps)
  next
    case other
    then show thesis by (rule foreign)
  qed
qed

lemma current_type_in: "current_type ls = Some c \<Longrightarrow> c \<in> set ls \<inter> set TYPE_LABELS"
  by (auto simp: current_type_def find_Some_iff)

lemma current_type_none: "current_type ls = None \<Longrightarrow> set ls \<inter> set TYPE_LABELS = {}"
  by (auto simp: current_type_def find_None_iff)

lemma classify_types:
  assumes c: "classify (current_type ls) ev hp = Inr tr" and ls: "set ls \<inter> set TYPE_LABELS = type_of g n"
    and t: "type_of g n \<subseteq> {t}"
  shows "(\<exists>t'. (type_of g n - set (tr_remove tr)) \<union> (set (tr_add tr) \<inter> set TYPE_LABELS) \<subseteq> {t'}) \<and>
    type_rank (type_of g n) \<le>
      type_rank ((type_of g n - set (tr_remove tr)) \<union> (set (tr_add tr) \<inter> set TYPE_LABELS))"
  using c
proof (cases rule: classify_cases)
  case keep
  have "\<exists>t'. type_of g n \<subseteq> {t'}" using t by blast
  with keep show ?thesis by simp
next
  case incomplete
  then have "type_of g n = {}" using current_type_none [of ls] ls by simp
  then show ?thesis using incomplete by simp
next
  case (first u)
  then have "type_of g n = {}" using current_type_none [of ls] ls by simp
  then show ?thesis using first by (simp add: type_rank_def)
next
  case (exchange c u)
  have "c \<in> type_of g n" using current_type_in [OF exchange(1)] ls by simp
  then have T: "type_of g n = {c}" using t by blast
  have "c \<in> set (tr_remove tr)" using exchange(3) by blast
  then have "type_of g n - set (tr_remove tr) = {}" using T by simp
  then show ?thesis using exchange(2,4) T by simp
next
  case foreign
  then obtain c where c: "current_type ls = Some c" by (cases "current_type ls") simp_all
  have "c \<in> set TYPE_LABELS" using current_type_in [OF c] by simp
  with foreign c have False by simp
  then show ?thesis ..
qed

section \<open>The contract\<close>

definition plain_label :: "str \<Rightarrow> bool" where
  "plain_label l = (l \<notin> set TYPE_LABELS)"

text \<open>Properties that do not touch the record of an event.\<close>

definition record_free :: "pydict \<Rightarrow> bool" where
  "record_free props = (''event_name'' \<notin> fst ` set props \<and> ''data'' \<notin> fst ` set props)"

lemma record_free_simps [simp]:
  "record_free []"
  "record_free ((k, v) # d) \<longleftrightarrow> k \<noteq> ''event_name'' \<and> k \<noteq> ''data'' \<and> record_free d"
  "record_free (d @ e) \<longleftrightarrow> record_free d \<and> record_free e"
  "record_free (opt_entry b k v) \<longleftrightarrow> (b \<longrightarrow> k \<noteq> ''event_name'' \<and> k \<noteq> ''data'')"
  by (auto simp: record_free_def opt_entry_def)

lemma record_free_option:
  "record_free d \<Longrightarrow> (\<And>x. record_free (f x)) \<Longrightarrow> record_free (case v of None \<Rightarrow> d | Some x \<Rightarrow> f x)"
  by (cases v) auto

lemmas plain_simps = plain_label_def TYPE_LABELS_def not_none_entry_def renamed_entry_def record_free_option

lemma labels_of_head [simp]: "labels_of ((''labels'', label_list ls) # props) = ls"
  by (simp add: labels_of_def)

lemma keeps_pyval:
  "keeps P a \<Longrightarrow> (\<And>b. keeps P (fb b)) \<Longrightarrow> (\<And>i. keeps P (fi i)) \<Longrightarrow> (\<And>r. keeps P (ff r)) \<Longrightarrow> (\<And>s. keeps P (fs s)) \<Longrightarrow>
    (\<And>l. keeps P (fl l)) \<Longrightarrow> (\<And>d. keeps P (fd d)) \<Longrightarrow>
    keeps P (case v of PNone \<Rightarrow> a | PBool b \<Rightarrow> fb b | PInt i \<Rightarrow> fi i | PFloat r \<Rightarrow> ff r | PStr s \<Rightarrow> fs s
      | PList l \<Rightarrow> fl l | PDict d \<Rightarrow> fd d)"
  by (cases v) auto

lemma keeps_pair:
  "(\<And>a b. keeps P (f a b)) \<Longrightarrow> keeps P (case (x, y) of (Some a, Some b) \<Rightarrow> f a b | _ \<Rightarrow> ret ())"
  by (auto intro: keeps_ret split: option.splits)

lemma keeps_triple:
  "(\<And>a b c. keeps P (f a b c)) \<Longrightarrow> keeps P (case (x, y, z) of (Some a, Some b, Some c) \<Rightarrow> f a b c | _ \<Rightarrow> ret d)"
  by (auto intro: keeps_ret split: option.splits)

text \<open>A pure computation's result is known where it returned.\<close>

lemma keeps_bnd_lift: "(\<And>x. r = Inr x \<Longrightarrow> keeps P (f x)) \<Longrightarrow> keeps P (bnd (lift_res r) f)"
  by (cases r) (simp_all add: op_simps keeps_raise)

lemma derived_plain: "derive_labels e = Inr labels \<Longrightarrow> list_all plain_label labels"
proof (rule derive_labels_ok [of e])
  fix full cat
  assume d: "derive_labels e = Inr labels" "derive_labels e = Inr [full @ ''Event'', cat @ ''Event'', ''Event'']"
  have "p @ ''Event'' \<noteq> q @ ''n''" for p q :: str
    by (auto dest: arg_cong [where f = last])
  from this [of _ "''RootSessio''"] this [of _ "''SubSessio''"] this [of _ "''ForkedSessio''"]
  have "plain_label (p @ ''Event'')" for p by (simp add: plain_simps)
  from this [of full] this [of cat] this [of "[]"] d show "list_all plain_label labels" by auto
qed

lemma type_of_record:
  assumes "derive_labels event = Inr labels"
  shows "type_of (upsert_node m (event_props env event labels ts data) g) n = type_of g n"
proof (rule type_of_upsert)
  have "labels_of (event_props env event labels ts data) = labels"
    by (simp add: labels_of_def event_props_lookup)
  then show "set (labels_of (event_props env event labels ts data)) \<inter> set TYPE_LABELS \<subseteq> set (node_labels g m)"
    using derived_plain [OF assms] by (auto simp: list_all_iff plain_label_def)
qed

text \<open>A predicate the enrichers preserve: node writes that bring no session type and leave the event record
  alone, and edge writes.\<close>

locale enrich_invariant =
  fixes P :: "graph \<Rightarrow> bool"
  assumes P_upsert:
      "P g \<Longrightarrow> set (labels_of data) \<inter> set TYPE_LABELS \<subseteq> set (node_labels g n) \<Longrightarrow> record_free data \<Longrightarrow>
        P (upsert_node n data g)"
    and P_edge: "P g \<Longrightarrow> P (upsert_edge a b data g)"
begin

lemma keeps_node: "list_all plain_label (labels_of data) \<Longrightarrow> record_free data \<Longrightarrow> keeps (on_hs P) (node_op n data)"
  unfolding node_op_def by (rule keeps_on_graph, rule P_upsert) (auto simp: list_all_iff plain_label_def)

lemma keeps_labelled:
  "list_all plain_label ls \<and> record_free props \<Longrightarrow> keeps (on_hs P) (node_op n ((''labels'', label_list ls) # props))"
  by (rule keeps_node) simp_all

lemma keeps_labelled_app:
  "list_all plain_label ls \<and> record_free props \<and> record_free extra \<Longrightarrow>
    keeps (on_hs P) (node_op n (((''labels'', label_list ls) # props) @ extra))"
  by (rule keeps_node) simp_all

lemma keeps_edge: "keeps (on_hs P) (edge_op a b data)"
  unfolding edge_op_def by (rule keeps_on_graph, rule P_edge)

lemma keeps_link: "keeps (on_hs P) (link a b t sst)"
  by (simp add: link_def keeps_edge)

lemma keeps_sourced_from: "keeps (on_hs P) (sourced_from env src sid ev ts dis)"
  unfolding sourced_from_def by (intro keeps_bnd keeps_lift keeps_edge)

lemmas store_keeps = keeps_labelled keeps_labelled_app keeps_edge keeps_link keeps_sourced_from

lemma keeps_ensure: "keeps (on_hs P) (ensure_session_node sid data wd)"
  unfolding ensure_session_node_def Let_def by (intro keeps_rules store_keeps) (simp_all add: plain_simps)

lemma keeps_touch: "keeps (on_hs P) (touch_session env sid ts)"
proof -
  have w: "keeps (on_hs P) (node_op sid [(''labels'', label_list [''Session'']), (''last_updated'', PStr ts)])"
    by (intro store_keeps) (simp add: plain_simps)
  show ?thesis unfolding touch_session_def Let_def
    by (intro keeps_rules; rule keeps_pyval; intro keeps_rules w)
qed

text \<open>The other enrichers write only labels that are not session types.\<close>

lemmas guard_defs = with_session_def with_timestamp_def Let_def

lemma keeps_orch: "keeps (on_hs P) (orchestrator_run_handler env event data)"
  unfolding orchestrator_run_handler_def handle_execution_start_def handle_execution_end_def
    handle_orchestrator_complete_def guard_defs
  by (intro keeps_rules store_keeps) (simp_all add: plain_simps)

lemma keeps_iteration: "keeps (on_hs P) (iteration_handler env event data)"
  unfolding iteration_handler_def handle_provider_request_def handle_llm_request_def handle_llm_response_def
    enrich_iteration_def guard_defs
  by (intro keeps_rules store_keeps) (simp_all add: plain_simps)

lemma keeps_block: "keeps (on_hs P) (content_block_handler env event data)"
  unfolding content_block_handler_def handle_block_start_def handle_block_end_def guard_defs
  by (intro keeps_rules store_keeps) (simp_all add: plain_simps)

lemma keeps_tool: "keeps (on_hs P) (tool_call_handler env event data)"
  unfolding tool_call_handler_def handle_tool_pre_def handle_tool_post_def handle_tool_error_def guard_defs
  by (intro keeps_rules store_keeps) (simp_all add: plain_simps)

lemma keeps_prompt: "keeps (on_hs P) (prompt_handler env event data)"
  unfolding prompt_handler_def guard_defs
  by (intro keeps_rules store_keeps) (simp_all add: plain_simps)

lemma keeps_cancel: "keeps (on_hs P) (cancellation_handler env event data)"
  unfolding cancellation_handler_def guard_defs
  by (intro keeps_rules store_keeps) (simp_all add: plain_simps)

lemma keeps_compaction: "keeps (on_hs P) (context_compaction_handler env event data)"
  unfolding context_compaction_handler_def guard_defs
  by (intro keeps_rules store_keeps) (simp_all add: plain_simps)

lemma keeps_delegation: "keeps (on_hs P) (delegation_handler env event data)"
  unfolding delegation_handler_def handle_spawned_def handle_lifecycle_def guard_defs
  by (intro keeps_rules store_keeps keeps_ensure) (simp_all add: plain_simps)

lemma keeps_skill: "keeps (on_hs P) (skill_load_handler env event data)"
  unfolding skill_load_handler_def handle_loaded_def handle_unloaded_def guard_defs
  by (intro keeps_rules store_keeps) (simp_all add: plain_simps)

lemma keeps_recipe_start: "keeps (on_hs P) (handle_recipe_start env sid data ev dis)"
  unfolding handle_recipe_start_def guard_defs
  by (intro keeps_rules store_keeps keeps_ensure) (simp_all add: plain_simps)

lemma keeps_recipe_run: "keeps (on_hs P) (recipe_run_handler env event data)"
  unfolding recipe_run_handler_def handle_recipe_complete_def handle_run_approval_def
    handle_run_loop_iteration_def handle_loop_complete_def top_run_def guard_defs
  by (intro keeps_rules store_keeps keeps_recipe_start) (simp_all add: plain_simps)

lemma keeps_recipe_step: "keeps (on_hs P) (recipe_step_handler env event data)"
  unfolding recipe_step_handler_def handle_step_def handle_step_approval_def handle_step_loop_iteration_def
    handle_step_tool_pre_def record_step_def clear_step_def top_run_def guard_defs
  by (intro keeps_rules store_keeps keeps_pair) (simp_all add: plain_simps)

lemma keeps_other_enrichers: "event \<notin> set session_events \<Longrightarrow> keeps (on_hs P) (run_enrichers env event data)"
  unfolding run_enrichers_def enrichers_def for_each.simps prod.case
  by (intro keeps_rules keeps_orch keeps_iteration keeps_block keeps_tool keeps_prompt keeps_cancel
    keeps_compaction keeps_delegation keeps_skill keeps_recipe_run keeps_recipe_step) simp

lemma keeps_offload: "keeps (on_hs P) (offload_fields write sid nid ks data)"
proof (induction ks arbitrary: data)
  case (Cons k ks)
  have "keeps (on_hs P) (offload_field write sid nid k data)"
    unfolding offload_field_def Let_def
    by (rule keeps_if [OF keeps_ret]) (auto split: sum.splits intro!: keeps_rules)
  then show ?case by (simp add: keeps_bnd Cons.IH)
qed (simp add: keeps_ret)

lemma keeps_blobs: "keeps (on_hs P) (process_event_data write sid nid data)"
  unfolding process_event_data_def by (intro keeps_rules keeps_offload)

end

text \<open>One that the record of an event preserves too.\<close>

locale plain_invariant = enrich_invariant +
  assumes P_record:
      "P g \<Longrightarrow> derive_labels event = Inr labels \<Longrightarrow> P (upsert_node n (event_props env event labels ts data) g)"
begin

lemma keeps_default: "keeps (on_hs P) (default_handler env event data)"
proof -
  have "keeps (on_hs P) (node_op n (event_props env event labels ts data))" if "derive_labels event = Inr labels" for n labels ts
    unfolding node_op_def by (rule keeps_on_graph) (rule P_record [OF _ that])
  then show ?thesis unfolding default_handler_def
    by (intro keeps_rules store_keeps keeps_bnd_lift)
qed

lemma keeps_process_other:
  "event \<notin> set session_events \<Longrightarrow> keeps (on_hs P) (process_event env event data wd)"
  unfolding process_event_def
  by (intro keeps_rules keeps_ensure keeps_default keeps_other_enrichers keeps_touch keeps_blobs keeps_pair keeps_triple)

end

text \<open>One that survives the relabelling of a session, and so every enricher.\<close>

locale relabel_invariant = enrich_invariant +
  assumes P_remove: "P g \<Longrightarrow> P (remove_edge a b g)"
    and P_classify:
      "P g \<Longrightarrow> set ls \<inter> set TYPE_LABELS = type_of g n \<Longrightarrow> classify (current_type ls) ev hp = Inr tr \<Longrightarrow>
        P (set_labels n (tr_remove tr) (tr_add tr) g)"
begin

text \<open>The session handler: between reading the labels and applying the transition computed from them, no
  write changes the type of the node.\<close>

lemma keeps_remove: "keeps (on_hs P) (on_graph (remove_edge a b))"
  by (rule keeps_on_graph, rule P_remove)

abbreviation typed :: "str \<Rightarrow> str list \<Rightarrow> hook_state \<Rightarrow> bool" where
  "typed n ls \<equiv> on_hs (\<lambda>g. P g \<and> set ls \<inter> set TYPE_LABELS = type_of g n)"

lemma typed_edge: "keeps (typed n ls) (edge_op a b data)"
  unfolding edge_op_def by (rule keeps_on_graph) (simp add: P_edge type_of_def node_labels_edges)

lemma typed_sourced: "keeps (typed n ls) (sourced_from env src sid ev ts dis)"
  unfolding sourced_from_def by (intro keeps_bnd keeps_lift typed_edge)

lemma typed_node: "list_all plain_label (labels_of data) \<Longrightarrow> record_free data \<Longrightarrow> keeps (typed n ls) (node_op m data)"
proof -
  assume free: "record_free data" and "list_all plain_label (labels_of data)"
  then have "set (labels_of data) \<inter> set TYPE_LABELS = {}" by (auto simp: list_all_iff plain_label_def)
  then show ?thesis
    unfolding node_op_def by (intro keeps_on_graph) (simp add: P_upsert type_of_upsert free)
qed

lemma typed_weaken: "typed n ls s \<Longrightarrow> on_hs P s"
  by (simp add: on_hs_def)

lemma leads_read_labels:
  assumes "\<And>ls. leads (\<lambda>s. on_hs P s \<and> set ls = set (node_labels (hs_graph s) n)) B (f ls)"
  shows "leads (on_hs P) B (bnd (read_labels n) f)"
proof -
  have r: "read_labels n = gets (\<lambda>s. node_labels (hs_graph s) n)"
    by (simp add: read_labels_def read_node_def bnd_def gets_def ret_def fun_eq_iff node_labels_def node_or_empty_get
      split: option.splits)
  show ?thesis unfolding r
    by (rule leads_gets, rule leads_weaken [OF _ assms]) auto
qed

lemma leads_transition:
  assumes "classify (current_type ls) ev hp = Inr tr" and "\<And>x. keeps (on_hs P) (f x)"
  shows "leads (typed n ls) (on_hs P) (bnd (apply_transition n tr) f)"
proof (rule leads_then [OF _ assms(2)])
  show "leads (typed n ls) (on_hs P) (apply_transition n tr)"
    using P_classify [OF _ _ assms(1)]
    by (auto simp: leads_def apply_transition_def when_op_def on_graph_def modify_def ret_def on_hs_def)
qed

lemma leads_start: "leads (typed n ls) (on_hs P) m \<Longrightarrow>
    leads (\<lambda>s. on_hs P s \<and> set ls = set (node_labels (hs_graph s) n)) (on_hs P) m"
  by (rule leads_weaken) (auto simp: on_hs_def type_of_def)

lemma keeps_lineage: "keeps (on_hs P) (lineage_edge p sid ty ts)"
  by (simp add: lineage_edge_def keeps_edge)

lemma keeps_mount_plan: "keeps (on_hs P) (create_mount_plan sid f)"
  unfolding create_mount_plan_def Let_def by (intro keeps_rules store_keeps) (simp_all add: plain_simps)

lemma leads_labelled:
  assumes "list_all plain_label ls' \<and> record_free props" and "\<And>x. leads (typed n ls) (on_hs P) (f x)"
  shows "leads (typed n ls) (on_hs P) (bnd (node_op m ((''labels'', label_list ls') # props)) f)"
  by (rule leads_bnd [OF typed_node assms(2) typed_weaken]) (use assms(1) in simp_all)

lemma leads_sourced:
  "(\<And>x. leads (typed n ls) (on_hs P) (f x)) \<Longrightarrow>
    leads (typed n ls) (on_hs P) (bnd (sourced_from env src sid ev ts dis) f)"
  by (rule leads_bnd [OF typed_sourced _ typed_weaken])

lemma leads_edge:
  "(\<And>x. leads (typed n ls) (on_hs P) (f x)) \<Longrightarrow> leads (typed n ls) (on_hs P) (bnd (edge_op a b data) f)"
  by (rule leads_bnd [OF typed_edge _ typed_weaken])

lemma leads_classify:
  assumes "\<And>tr x. keeps (on_hs P) (f tr x)"
  shows "leads (typed n ls) (on_hs P)
    (bnd (lift_res (classify (current_type ls) ev hp)) (\<lambda>tr. bnd (apply_transition n tr) (f tr)))"
  by (rule leads_lift [OF _ typed_weaken]) (simp add: leads_transition assms)

lemmas session_leads = leads_labelled leads_sourced leads_edge leads_classify

lemma keeps_handle_start: "keeps (on_hs P) (handle_start env sid ts data)"
  unfolding handle_start_def seq_ops.simps(2) bnd_assoc
  by (rule keeps_bnd_lift, rule keeps_leads, rule leads_read_labels, rule leads_start,
      intro session_leads keeps_rules keeps_ensure keeps_lineage)
    (simp_all add: plain_simps)

lemma keeps_handle_fork: "keeps (on_hs P) (handle_fork env sid ts data)"
  unfolding handle_fork_def seq_ops.simps(2) bnd_assoc
  by (rule keeps_bnd_lift, rule keeps_bnd, rule keeps_gets, rule keeps_leads, rule leads_read_labels, rule leads_start,
      rule leads_labelled, simp add: plain_simps, rule leads_lift [OF _ typed_weaken], 
      intro session_leads keeps_rules keeps_ensure keeps_lineage keeps_mount_plan keeps_remove)

lemma keeps_handle_end: "keeps (on_hs P) (handle_end env sid ts data)"
proof -
  have reseed: "leads (\<lambda>s. on_hs P s \<and> set ls = set (node_labels (hs_graph s) sid)) (on_hs P)
      (bnd (node_op sid (((''labels'', label_list ([''Session'', ''SST_EVENT''] @ ls)) # props) @ extra)) f)"
    if f: "\<And>x. leads (typed sid ls) (on_hs P) (f x)" and free: "record_free props \<and> record_free extra"
    for ls props extra f
  proof -
    have "P (upsert_node sid d g) \<and> set ls \<inter> set TYPE_LABELS = type_of (upsert_node sid d g) sid"
      if "P g" "set ls = set (node_labels g sid)" "labels_of d = [''Session'', ''SST_EVENT''] @ ls" "record_free d" for g d
      using that P_upsert [of g d sid] type_of_upsert [of d g sid sid] by (auto simp: plain_simps type_of_def)
    then show ?thesis
      using f free by (simp add: leads_def bnd_def node_op_def on_graph_def modify_def on_hs_def)
  qed
  have tr: "keeps (on_hs P) (ret x)" for x :: unit by (rule keeps_ret)
  show ?thesis
    unfolding handle_end_def seq_ops.simps bnd_assoc
    by (rule keeps_leads, rule leads_read_labels, rule leads_lift, rule reseed,
        intro session_leads leads_classify tr) (simp_all add: on_hs_def plain_simps)
qed

lemma keeps_session: "keeps (on_hs P) (session_handler env event data)"
  unfolding session_handler_def
  by (intro keeps_rules keeps_handle_start keeps_handle_fork keeps_handle_end)

lemma keeps_enrichers: "keeps (on_hs P) (run_enrichers env event data)"
  unfolding run_enrichers_def enrichers_def for_each.simps prod.case
  by (intro keeps_rules keeps_session keeps_orch keeps_iteration keeps_block keeps_tool keeps_prompt keeps_cancel
    keeps_compaction keeps_delegation keeps_skill keeps_recipe_run keeps_recipe_step)

end

text \<open>One that survives every event.\<close>

locale session_invariant = plain_invariant + relabel_invariant
begin

lemma keeps_process_event: "keeps (on_hs P) (process_event env event data wd)"
  unfolding process_event_def
  by (intro keeps_rules keeps_ensure keeps_default keeps_enrichers keeps_touch keeps_blobs keeps_pair keeps_triple)

end

section \<open>The invariants\<close>

interpretation store: session_invariant wf_graph
  by unfold_locales (simp_all add: wf_upsert_node wf_upsert_edge wf_remove_edge wf_set_labels)

interpretation fixed: plain_invariant "\<lambda>g. type_of g n = T" for n T
  by unfold_locales (simp_all add: type_of_upsert type_of_edges type_of_record)

interpretation lattice: session_invariant "\<lambda>g. one_terminal g \<and> k \<le> type_rank (type_of g n)" for k n
proof (unfold_locales, goal_cases)
  case (5 g ls m ev hp tr)
  show ?case
  proof (intro conjI)
    obtain t where t: "type_of g m \<subseteq> {t}" using 5(1) by (auto simp: one_terminal_def)
    note c = classify_types [OF 5(3) 5(2) t]
    show "one_terminal (set_labels m (tr_remove tr) (tr_add tr) g)"
      using 5(1) c by (auto simp: one_terminal_def type_of_set_labels)
    show "k \<le> type_rank (type_of (set_labels m (tr_remove tr) (tr_add tr) g) n)"
      using 5(1) c by (auto simp: type_of_set_labels)
  qed
qed (simp_all add: one_terminal_def type_of_upsert type_of_edges type_of_record)

section \<open>The record of an event\<close>

lemma dget_merge_free:
  assumes "k \<notin> fst ` set data" and "k \<noteq> ''labels''" and "k \<noteq> ''status''"
  shows "dget (merge_props d data) k = dget d k"
proof -
  have "dget (dupdate e (plain_props data)) k = dget e k" for e
    by (rule dget_dupdate_other) (use assms(1) in auto)
  then show ?thesis using assms(2,3) by (auto simp: merge_props_def Let_def split: option.splits)
qed

definition recorded :: "str \<Rightarrow> pyval \<Rightarrow> pyval \<Rightarrow> graph \<Rightarrow> bool" where
  "recorded nid name payload g =
    (dget (node_or_empty g nid) ''event_name'' = Some name \<and> dget (node_or_empty g nid) ''data'' = Some payload)"

interpretation rec: relabel_invariant "recorded nid name payload" for nid name payload
  by unfold_locales (auto simp: recorded_def node_or_empty_write dget_merge_free record_free_def)

interpretation has_edge: enrich_invariant "\<lambda>g. get_edge a b g \<noteq> None" for a b
  by unfold_locales (auto simp: get_edge_upsert_edge get_edge_upsert_node)

end
