(* ===== verification/SessionTypes.thy ===== *)
theory SessionTypes
  imports PipelineSpec "HOL-Library.Multiset"
begin

text \<open>
  The type of a session as a function of the events seen: the most specific type any of its lifecycle
  events implies, whatever their order.
\<close>

interpretation pair: plain_invariant "\<lambda>g. type_of g n = T \<and> U = type_of g m" for n T m U
  by unfold_locales (simp_all add: type_of_upsert type_of_edges type_of_record)

interpretation ranked: plain_invariant "\<lambda>g. type_rank (type_of g n) = r" for n r
  by unfold_locales (simp_all add: type_of_upsert type_of_edges type_of_record)

text \<open>What a lifecycle event implies about the type of its session.\<close>

definition lifecycle_rank :: "str \<Rightarrow> bool \<Rightarrow> nat" where
  "lifecycle_rank ev has_parent =
    (if ev = ''start'' then if has_parent then 2 else 1 else if ev = ''fork'' then 3 else 0)"

definition implied_rank :: "str \<Rightarrow> pydict \<Rightarrow> str \<Rightarrow> nat" where
  "implied_rank event data n =
    (if truthy_str data ''session_id'' = Inr (Some n)
     then if event = ''session:start'' then lifecycle_rank ''start'' (parent_of data \<noteq> Inr [])
          else if event = ''session:fork'' then 3 else 0
     else 0)"

lemma classify_rank:
  assumes c: "classify (current_type ls) ev hp = Inr tr" and T: "set ls \<inter> set TYPE_LABELS = T"
  shows "type_rank ((T - set (tr_remove tr)) \<union> (set (tr_add tr) \<inter> set TYPE_LABELS)) =
    max (type_rank T) (lifecycle_rank ev hp)"
proof -
  have ev: "ev = ''start'' \<or> ev = ''fork'' \<or> ev = ''end''"
    using c by (auto simp: classify_def split: if_splits)
  have find: "current_type ls =
      (if ''ForkedSession'' \<in> T then Some ''ForkedSession'' else if ''SubSession'' \<in> T then Some ''SubSession''
       else if ''RootSession'' \<in> T then Some ''RootSession'' else None)"
    using T by (auto simp: current_type_def TYPE_LABELS_def)
  consider (forked) "''ForkedSession'' \<in> T" | (sub) "''ForkedSession'' \<notin> T" "''SubSession'' \<in> T"
    | (root) "''ForkedSession'' \<notin> T" "''SubSession'' \<notin> T" "''RootSession'' \<in> T"
    | (none) "''ForkedSession'' \<notin> T" "''SubSession'' \<notin> T" "''RootSession'' \<notin> T" by blast
  then show ?thesis
  proof cases
    case forked
    then have "tr = no_transition" using c find ev by (auto simp: classify_def)
    then show ?thesis using forked by (simp add: type_rank_def lifecycle_rank_def)
  next
    case sub
    from ev c show ?thesis unfolding find
      by (elim disjE) (auto simp: sub classify_def type_rank_def lifecycle_rank_def TYPE_LABELS_def)
  next
    case root
    from ev c show ?thesis unfolding find
      by (elim disjE) (auto simp: root classify_def type_rank_def lifecycle_rank_def TYPE_LABELS_def split: if_splits)
  next
    case none
    from ev c show ?thesis unfolding find
      by (elim disjE) (auto simp: none classify_def type_rank_def lifecycle_rank_def TYPE_LABELS_def split: if_splits)
  qed
qed

section \<open>The session handler\<close>

abbreviation at_type :: "str \<Rightarrow> str set \<Rightarrow> hook_state \<Rightarrow> bool" where
  "at_type n T \<equiv> on_hs (\<lambda>g. type_of g n = T)"

abbreviation read_type :: "str \<Rightarrow> str set \<Rightarrow> str list \<Rightarrow> str \<Rightarrow> hook_state \<Rightarrow> bool" where
  "read_type n T ls sid \<equiv> on_hs (\<lambda>g. type_of g n = T \<and> set ls \<inter> set TYPE_LABELS = type_of g sid)"

abbreviation at_rank :: "str \<Rightarrow> nat \<Rightarrow> hook_state \<Rightarrow> bool" where
  "at_rank n r \<equiv> on_hs (\<lambda>g. type_rank (type_of g n) = r)"

lemma yields_read_labels:
  assumes "\<And>ls. yields (read_type n T ls sid) (f ls) B"
  shows "yields (at_type n T) (bnd (read_labels sid) f) B"
proof -
  have r: "read_labels sid = gets (\<lambda>s. node_labels (hs_graph s) sid)"
    by (simp add: read_labels_def read_node_def bnd_def gets_def ret_def fun_eq_iff node_labels_def node_or_empty_get
      split: option.splits)
  show ?thesis unfolding r
    by (rule yields_gets, rule yields_weaken [OF _ assms]) (auto simp: on_hs_def type_of_def)
qed

lemma yields_transition:
  assumes "classify (current_type ls) ev hp = Inr tr"
    and "\<And>x. keeps (at_rank n (max (type_rank T) (if n = sid then lifecycle_rank ev hp else 0))) (f x)"
  shows "yields (read_type n T ls sid) (bnd (apply_transition sid tr) f)
    (at_rank n (max (type_rank T) (if n = sid then lifecycle_rank ev hp else 0)))"
proof (rule yields_before [OF _ assms(2)], unfold yields_def, intro allI impI)
  fix s x s'
  assume s: "read_type n T ls sid s" and a: "apply_transition sid tr s = (Inr x, s')"
  let ?g = "hs_graph s"
  have t: "type_of ?g n = T" and l: "set ls \<inter> set TYPE_LABELS = type_of ?g sid" using s by (simp_all add: on_hs_def)
  have "type_of (hs_graph s') m =
      (if m = sid then (type_of ?g sid - set (tr_remove tr)) \<union> (set (tr_add tr) \<inter> set TYPE_LABELS) else type_of ?g m)" for m
    using a by (auto simp: apply_transition_def when_op_def on_graph_def modify_def ret_def type_of_set_labels split: if_splits)
  then show "at_rank n (max (type_rank T) (if n = sid then lifecycle_rank ev hp else 0)) s'"
    using classify_rank [OF assms(1) l] t by (cases "n = sid") (simp_all add: on_hs_def)
qed

lemma yields_classify:
  assumes "\<And>tr x. keeps (at_rank n (max (type_rank T) (if n = sid then lifecycle_rank ev hp else 0))) (f tr x)"
  shows "yields (read_type n T ls sid)
    (bnd (lift_res (classify (current_type ls) ev hp)) (\<lambda>tr. bnd (apply_transition sid tr) (f tr)))
    (at_rank n (max (type_rank T) (if n = sid then lifecycle_rank ev hp else 0)))"
  by (rule yields_lift, rule yields_transition) (simp_all add: assms)

lemma yields_reseed:
  assumes "\<And>x. yields (read_type n T ls sid) (f x) B"
  shows "yields (read_type n T ls sid)
    (bnd (node_op sid (((''labels'', label_list ([''Session'', ''SST_EVENT''] @ ls)) # props) @ extra)) f) B"
proof (rule yields_after [OF _ assms], unfold node_op_def, rule keeps_on_graph)
  fix g
  assume g: "type_of g n = T \<and> set ls \<inter> set TYPE_LABELS = type_of g sid"
  let ?d = "((''labels'', label_list ([''Session'', ''SST_EVENT''] @ ls)) # props) @ extra"
  have "set (labels_of ?d) \<inter> set TYPE_LABELS \<subseteq> set (node_labels g sid)"
    using g by (auto simp: type_of_def plain_simps)
  then show "type_of (upsert_node sid ?d g) n = T \<and> set ls \<inter> set TYPE_LABELS = type_of (upsert_node sid ?d g) sid"
    using g by (simp add: type_of_upsert)
qed

lemma yields_labelled:
  assumes "list_all plain_label ls' \<and> record_free props" and "\<And>x. yields (read_type n T ls sid) (f x) B"
  shows "yields (read_type n T ls sid) (bnd (node_op m ((''labels'', label_list ls') # props)) f) B"
  by (rule yields_after [OF pair.keeps_labelled assms(2)]) (rule assms(1))

lemmas session_yields =
  yields_after [OF pair.keeps_sourced_from] yields_after [OF pair.keeps_edge] yields_classify

lemma ranked_lineage: "keeps (at_rank n r) (lineage_edge p sid ty ts)"
  by (simp add: lineage_edge_def ranked.keeps_edge)

lemma ranked_remove: "keeps (at_rank n r) (on_graph (remove_edge a b))"
  by (rule keeps_on_graph) (simp add: type_of_edges)

lemma ranked_mount_plan: "keeps (at_rank n r) (create_mount_plan sid f)"
  unfolding create_mount_plan_def Let_def by (intro keeps_rules ranked.store_keeps) (simp_all add: plain_simps)

lemma yields_start:
  assumes "parent_of data = Inr p"
  shows "yields (at_type n T) (handle_start env sid ts data)
    (at_rank n (max (type_rank T) (if n = sid then lifecycle_rank ''start'' (p \<noteq> []) else 0)))"
  unfolding handle_start_def seq_ops.simps(2) bnd_assoc assms bnd_lift_Inr
  by (rule yields_read_labels, rule yields_labelled, simp add: plain_simps,
      intro session_yields keeps_rules ranked.keeps_ensure ranked_lineage)

lemma lifecycle_rank_fork: "lifecycle_rank ''fork'' hp = 3"
  by (simp add: lifecycle_rank_def)

lemma lifecycle_rank_end: "(if n = sid then lifecycle_rank ''end'' hp else 0) = 0"
  by (simp add: lifecycle_rank_def)

lemma yields_fork:
  "yields (at_type n T) (handle_fork env sid ts data) (at_rank n (max (type_rank T) (if n = sid then 3 else 0)))"
  unfolding handle_fork_def seq_ops.simps(2) bnd_assoc
  by (rule yields_lift, rule yields_after, rule keeps_gets, rule yields_read_labels, rule yields_labelled,
      simp add: plain_simps, rule yields_lift, rule yields_after [OF pair.keeps_edge],
      rule yields_classify [where ev = "''fork''", unfolded lifecycle_rank_fork],
      intro keeps_rules ranked.keeps_ensure ranked_lineage ranked_mount_plan ranked_remove)

lemma yields_end:
  "yields (at_type n T) (handle_end env sid ts data) (at_rank n (type_rank T))"
  unfolding handle_end_def seq_ops.simps bnd_assoc
  by (rule yields_read_labels, rule yields_lift, rule yields_reseed, rule yields_after [OF pair.keeps_sourced_from],
      rule yields_classify [where ev = "''end''", unfolded lifecycle_rank_end max_0R], rule keeps_ret)

text \<open>The rank of a node after a session event.\<close>

lemma yields_session:
  "yields (at_type n T) (session_handler env event data) (at_rank n (max (type_rank T) (implied_rank event data n)))"
proof (cases "truthy_str data ''session_id''")
  case (Inr sid)
  show ?thesis
  proof (cases sid)
    case None
    then show ?thesis
      using Inr by (simp add: session_handler_def op_simps implied_rank_def yields_def ret_def on_hs_def)
  next
    case (Some session_id)
    have R: "implied_rank event data n =
        (if n = session_id then if event = ''session:start'' then lifecycle_rank ''start'' (parent_of data \<noteq> Inr [])
           else if event = ''session:fork'' then 3 else 0 else 0)"
      using Inr Some by (simp add: implied_rank_def)
    have start: "yields (at_type n T) (handle_start env session_id ts data) (at_rank n (max (type_rank T) (implied_rank event data n)))"
      if "event = ''session:start''" for ts
    proof (cases "parent_of data")
      case (Inl e)
      then show ?thesis by (simp add: handle_start_def op_simps yields_def raise_op_def)
    next
      case (Inr p)
      have "implied_rank event data n = (if n = session_id then lifecycle_rank ''start'' (p \<noteq> []) else 0)"
        using R that Inr by simp
      with yields_start [OF Inr, of n T env session_id ts] show ?thesis by simp
    qed
    have fork: "yields (at_type n T) (handle_fork env session_id ts data) (at_rank n (max (type_rank T) (implied_rank event data n)))"
      if "event = ''session:fork''" for ts
    proof -
      have "implied_rank event data n = (if n = session_id then 3 else 0)" using R that by simp
      with yields_fork [of n T env session_id ts data] show ?thesis by simp
    qed
    have other: "max (type_rank T) (implied_rank event data n) = type_rank T"
      if "event \<noteq> ''session:start''" "event \<noteq> ''session:fork''"
      using R that by simp
    have fin: "yields (at_type n T) m (at_rank n (max (type_rank T) (implied_rank event data n)))"
      if "event \<noteq> ''session:start''" "event \<noteq> ''session:fork''" "m = ret () \<or> m = handle_end env session_id ts data" for m ts
      using that(3) yields_end [of n T env session_id ts data] unfolding other [OF that(1,2)]
      by (auto simp: yields_def ret_def on_hs_def)
    show ?thesis
      unfolding session_handler_def Inr Some bnd_lift_Inr option.case
      by (intro yields_lift yields_if start fork; (assumption | (rule fin; blast)))
  qed
qed (simp add: session_handler_def op_simps yields_def raise_op_def)

section \<open>Blob offloading keeps the session fields\<close>

definition offload_keys :: "str list" where
  "offload_keys = BLOB_FIELDS @ [''stop_reason'', ''finish_reason'', ''usage'']"

lemma lift_raw_other:
  assumes "lift_raw_fields data = Inr data'" and k: "k \<noteq> ''stop_reason''" "k \<noteq> ''finish_reason''" "k \<noteq> ''usage''"
  shows "any_field data' k = any_field data k"
proof -
  have p: "any_field (promote_field raw j d) k = any_field d k" if "k \<noteq> j" for raw j d
    using that by (auto simp: promote_field_def split: option.splits)
  show ?thesis
    using assms(1) k p
    by (auto simp: lift_raw_fields_def Let_def split: pyval.splits if_splits)
qed

lemma offload_other:
  "offload_fields write sid nid ks data s = (Inr data', s') \<Longrightarrow> k \<notin> set ks \<Longrightarrow> any_field data' k = any_field data k"
proof (induction ks arbitrary: data s)
  case (Cons j ks)
  from Cons.prems(1) obtain d1 s1 where 1: "offload_field write sid nid j data s = (Inr d1, s1)"
    and 2: "offload_fields write sid nid ks d1 s1 = (Inr data', s')"
    by (auto simp: bnd_Inr_iff)
  have "any_field d1 k = any_field data k"
    using 1 Cons.prems(2)
    by (auto simp: offload_field_def Let_def ret_def bnd_modify split: if_splits sum.splits)
  with Cons.IH [OF 2] Cons.prems(2) show ?case by simp
qed (simp add: ret_def)

lemma process_event_data_other:
  "process_event_data write sid nid data s = (Inr data', s') \<Longrightarrow> k \<notin> set offload_keys \<Longrightarrow>
    any_field data' k = any_field data k"
  unfolding process_event_data_def bnd_Inr_iff
  by (auto simp: lift_res_def lift_raw_other offload_keys_def dest!: offload_other [where k = k])

lemma implied_rank_cong:
  assumes "any_field data' ''session_id'' = any_field data ''session_id''"
    and "any_field data' ''parent_id'' = any_field data ''parent_id''"
    and "any_field data' ''parent'' = any_field data ''parent''"
  shows "implied_rank event data' n = implied_rank event data n"
  using assms by (simp add: implied_rank_def truthy_str_def parent_of_def)

lemma implied_rank_offload:
  "process_event_data write sid nid data s = (Inr data', s') \<Longrightarrow> implied_rank event data' n = implied_rank event data n"
  by (rule implied_rank_cong) (simp_all add: process_event_data_other offload_keys_def BLOB_FIELDS_def)

section \<open>The pipeline\<close>

lemma run_enrichers_session:
  "event \<in> set session_events \<Longrightarrow> run_enrichers env event data = bnd (session_handler env event data) (\<lambda>_. ret ())"
  unfolding session_events_def
  by (simp only: list.set insert_iff empty_iff, elim disjE FalseE)
    (simp_all add: run_enrichers_def enrichers_def session_events_def when_op_def op_simps)

lemma yields_bnd_val:
  assumes "\<And>s x s'. A s \<Longrightarrow> m s = (Inr x, s') \<Longrightarrow> A s' \<and> Q x" and "\<And>x. Q x \<Longrightarrow> yields A (f x) B"
  shows "yields A (bnd m f) B"
  using assms unfolding yields_def bnd_Inr_iff by blast

lemma yields_process_event:
  "yields (at_type n T) (process_event env event data wd) (at_rank n (max (type_rank T) (implied_rank event data n)))"
proof (cases "event \<in> set session_events")
  case False
  then have "implied_rank event data n = 0" by (simp add: implied_rank_def session_events_def)
  moreover have "yields (at_type n T) (process_event env event data wd) (at_type n T)"
    by (rule yields_keeps, rule fixed.keeps_process_other [OF False])
  ultimately show ?thesis by (auto simp: yields_def on_hs_def)
next
  case True
  let ?B = "at_rank n (max (type_rank T) (implied_rank event data n))"
  have enrich: "yields (at_type n T) (bnd (run_enrichers env event data') f) ?B"
    if "implied_rank event data' n = implied_rank event data n" "\<And>x. keeps ?B (f x)" for data' f
    unfolding run_enrichers_session [OF True] bnd_assoc bnd_ret
    by (rule yields_before [OF _ that(2)]) (use yields_session [of n T env event data'] that(1) in simp)
  have blobs: "at_type n T s' \<and> implied_rank event data' n = implied_rank event data n"
    if "at_type n T s" "(case (sid, ts, blob_write env) of
           (Some session_id, Some timestamp, Some write) \<Rightarrow>
             bnd (lift_res (make_node_id (fromiso env) (event_identity env) session_id event timestamp None))
               (\<lambda>node_id. process_event_data write session_id node_id data)
         | _ \<Rightarrow> ret data) s = (Inr data', s')" for s s' sid ts data'
  proof
    have "keeps (at_type n T) (case (sid, ts, blob_write env) of
           (Some session_id, Some timestamp, Some write) \<Rightarrow>
             bnd (lift_res (make_node_id (fromiso env) (event_identity env) session_id event timestamp None))
               (\<lambda>node_id. process_event_data write session_id node_id data)
         | _ \<Rightarrow> ret data)"
      by (intro keeps_rules keeps_triple fixed.keeps_blobs)
    then show "at_type n T s'" using that by (rule keepsD)
    show "implied_rank event data' n = implied_rank event data n"
      using that(2)
      by (cases sid; cases ts; cases "blob_write env")
        (auto simp: bnd_Inr_iff ret_def lift_res_def intro: implied_rank_offload)
  qed
  show ?thesis
    unfolding process_event_def
    by (rule yields_lift, rule yields_after, intro keeps_rules fixed.keeps_ensure, rule yields_lift,
        rule yields_bnd_val, erule (1) blobs, rule yields_after, rule fixed.keeps_default, rule enrich,
        assumption, intro keeps_pair ranked.keeps_touch)
qed

section \<open>Sequences of events\<close>

type_synonym event_record = "env \<times> str \<times> pydict \<times> str option"

text \<open>The events a worker processes, in order, until one raises.\<close>

definition run_events :: "event_record list \<Rightarrow> unit hop" where
  "run_events es = for_each es (\<lambda>(env, event, data, wd). process_event env event data wd)"

definition implied_by :: "str \<Rightarrow> event_record \<Rightarrow> nat" where
  "implied_by n e = (case e of (env, event, data, wd) \<Rightarrow> implied_rank event data n)"

lemma yields_run_events:
  "run_events es s = (Inr (), s') \<Longrightarrow>
    type_rank (type_of (hs_graph s') n) = foldl (\<lambda>r e. max r (implied_by n e)) (type_rank (type_of (hs_graph s) n)) es"
proof (induction es arbitrary: s)
  case (Cons e es)
  obtain env event data wd where e: "e = (env, event, data, wd)" by (cases e)
  from Cons.prems obtain s1 where 1: "process_event env event data wd s = (Inr (), s1)"
    and 2: "run_events es s1 = (Inr (), s')"
    by (auto simp: run_events_def e bnd_Inr_iff)
  have "type_rank (type_of (hs_graph s1) n) = max (type_rank (type_of (hs_graph s) n)) (implied_by n e)"
    using yieldsD [OF yields_process_event _ 1, of n "type_of (hs_graph s) n"] by (simp add: on_hs_def implied_by_def e)
  with Cons.IH [OF 2] show ?case by simp
qed (simp add: run_events_def ret_def)

lemma keeps_run_events: "(\<And>env event data wd. keeps P (process_event env event data wd)) \<Longrightarrow> keeps P (run_events es)"
  unfolding run_events_def by (rule keeps_for) (simp split: prod.splits)

lemma run_one_terminal: "one_terminal (hs_graph s) \<Longrightarrow> run_events es s = (r, s') \<Longrightarrow> one_terminal (hs_graph s')"
proof -
  have k: "keeps (on_hs (\<lambda>g. one_terminal g \<and> 0 \<le> type_rank (type_of g n))) (run_events es)" for n
    by (rule keeps_run_events) (rule lattice.keeps_process_event)
  show "one_terminal (hs_graph s) \<Longrightarrow> run_events es s = (r, s') \<Longrightarrow> ?thesis"
    using keepsD [OF k [of "[]"], of s r s'] by (simp add: on_hs_def)
qed

lemma foldl_max_Max: "foldl (\<lambda>r e. max r (f e)) (r :: nat) es = Max (insert r (f ` set es))"
proof (induction es arbitrary: r)
  case (Cons e es)
  have "Max (insert (max r (f e)) (f ` set es)) = Max (insert r (insert (f e) (f ` set es)))"
    by (cases "es = []") (simp_all add: max.assoc)
  then show ?case using Cons.IH [of "max r (f e)"] by simp
qed simp

lemma type_by_rank:
  assumes "T \<subseteq> {t}" "U \<subseteq> {u}" "T \<subseteq> set TYPE_LABELS" "U \<subseteq> set TYPE_LABELS" "type_rank T = type_rank U"
  shows "T = U"
proof -
  have "T = {} \<or> T = {t}" "U = {} \<or> U = {u}" using assms(1,2) by blast+
  then show ?thesis using assms(3-5) by (auto simp: TYPE_LABELS_def type_rank_def split: if_splits)
qed

text \<open>
  C15 [session_type_confluent]: the type of a session does not depend on the order in which its
  lifecycle events arrive.  After any sequence of events that is processed without an exception, the
  rank of every session's type is the largest among the type it had and the types its own events
  imply (start without a parent: root, start with a parent: sub-session, fork: forked); two orders
  of the same events give every session the same type.
\<close>

theorem session_type_confluent:
  assumes "one_terminal (hs_graph s)"
    and "run_events es s = (Inr (), s1)" and "run_events es' s = (Inr (), s2)" and "mset es = mset es'"
  shows "type_rank (type_of (hs_graph s1) n) =
      Max (insert (type_rank (type_of (hs_graph s) n)) (implied_by n ` set es)) \<and>
    type_of (hs_graph s1) n = type_of (hs_graph s2) n"
proof -
  have "set es = set es'" using assms(4) by (rule mset_eq_setD)
  then have r: "type_rank (type_of (hs_graph s1) n) = type_rank (type_of (hs_graph s2) n)"
    using yields_run_events [OF assms(2)] yields_run_events [OF assms(3)] by (simp add: foldl_max_Max)
  have "one_terminal (hs_graph s1)" "one_terminal (hs_graph s2)"
    using run_one_terminal [OF assms(1,2)] run_one_terminal [OF assms(1,3)] by blast+
  then obtain t u where "type_of (hs_graph s1) n \<subseteq> {t}" "type_of (hs_graph s2) n \<subseteq> {u}"
    by (meson one_terminal_def)
  then have "type_of (hs_graph s1) n = type_of (hs_graph s2) n"
    by (rule type_by_rank) (simp_all add: type_of_def r [unfolded type_of_def])
  with yields_run_events [OF assms(2), of n] show ?thesis by (simp add: foldl_max_Max)
qed

definition sample_env :: env where
  "sample_env = \<lparr>fromiso = (\<lambda>_. Some 0), parse_dt = (\<lambda>_. None), dumps = (\<lambda>_. []), blob_write = None,
    event_identity = None\<rparr>"

definition sample_start :: event_record where
  "sample_start = (sample_env, ''session:start'', [(''session_id'', PStr ''s''), (''timestamp'', PStr ''t'')], None)"

definition sample_fork :: event_record where
  "sample_fork = (sample_env, ''session:fork'',
    [(''session_id'', PStr ''s''), (''timestamp'', PStr ''t''), (''parent'', PStr ''p'')], None)"

lemma returns_session_ops [returns_rules]:
  "returns (node_op n d)" "returns (edge_op a b d)" "returns (link a b ty sst)" "returns (read_node n)"
  "returns (on_graph f)" "returns (read_labels n)" "returns (apply_transition n tr)"
  "returns (lineage_edge p n ty ts)" "returns (create_mount_plan n m)"
  unfolding node_op_def edge_op_def link_def read_node_def on_graph_def read_labels_def apply_transition_def
    lineage_edge_def create_mount_plan_def Let_def
  by (intro returns_rules)+

lemma returns_ensure [returns_rules]: "returns (ensure_session_node sid d wd)"
  unfolding ensure_session_node_def Let_def by (intro returns_rules)

lemma returns_touch [returns_rules]: "returns (touch_session env sid ts)"
  unfolding touch_session_def Let_def by (intro returns_rules)

lemma returns_sourced [returns_rules]: "fromiso env ts \<noteq> None \<Longrightarrow> returns (sourced_from env src sid ev ts dis)"
  unfolding sourced_from_def by (auto simp: make_node_id_def op_simps Let_def returns_session_ops)

lemma returns_classify:
  "returns (lift_res (classify c ''start'' hp))" "returns (lift_res (classify c ''fork'' hp))"
  "returns (lift_res (classify c ''end'' hp))"
  by (simp_all add: returns_def lift_res_def classify_def)

text \<open>A lifecycle event with string identifiers and a timestamp that parses is processed without an
  exception in every state.\<close>

lemma returns_lifecycle:
  assumes ev: "event \<in> set session_events" and sid: "dget data ''session_id'' = Some (PStr sid)" "sid \<noteq> []"
    and ts: "dget data ''timestamp'' = Some (PStr ts)" "ts \<noteq> []" "fromiso env ts = Some e"
    and par: "parent_of data = Inr p" and blob: "blob_write env = None"
    and tc: "any_field data ''tool_call_id'' = PNone"
  shows "returns (process_event env event data wd)"
proof -
  have s: "truthy_str data ''session_id'' = Inr (Some sid)" using sid by (simp add: truthy_str_def any_field_def)
  have t: "truthy_str data ''timestamp'' = Inr (Some ts)" using ts by (simp add: truthy_str_def any_field_def)
  have t': "str_field data ''timestamp'' [] = Inr ts" using ts by (simp add: str_field_def)
  have nid: "\<exists>n. make_node_id (fromiso env) (event_identity env) sid ev ts None = Inr n" for ev
    using ts by (simp add: make_node_id_def Let_def)
  have ok: "fromiso env ts \<noteq> None" using ts by simp
  obtain labels where l: "derive_labels event = Inr labels" by (rule derive_labels_ok)
  have dis: "opt_fmt (any_field data ''tool_call_id'') = Inr None" using tc by (simp add: opt_fmt_def)
  obtain n where n: "make_node_id (fromiso env) (event_identity env) sid event ts None = Inr n" using nid by blast
  have d: "returns (default_handler env event data)"
    unfolding default_handler_def s t' l dis bnd_lift_Inr option.case n by (intro returns_rules)
  have start: "returns (handle_start env sid ts data)"
    unfolding handle_start_def par bnd_lift_Inr by (intro returns_rules returns_classify ok)
  have fin: "returns (handle_end env sid ts data)"
    unfolding handle_end_def par bnd_lift_Inr by (intro returns_rules returns_classify ok)
  obtain m where m: "make_node_id (fromiso env) (event_identity env) sid ''session:fork'' ts None = Inr m"
    using nid by blast
  have fork: "returns (handle_fork env sid ts data)"
    unfolding handle_fork_def par m bnd_lift_Inr by (intro returns_rules returns_classify)
  have h: "returns (session_handler env event data)"
    unfolding session_handler_def s t' bnd_lift_Inr option.case by (intro returns_rules start fork fin)
  show ?thesis
    unfolding process_event_def s t blob bnd_lift_Inr option.case prod.case bnd_ret run_enrichers_session [OF ev]
    by (intro returns_rules d h)
qed

lemma returns_run:
  "(\<And>env event data wd. (env, event, data, wd) \<in> set es \<Longrightarrow> returns (process_event env event data wd)) \<Longrightarrow> returns (run_events es)"
  by (induction es) (auto simp: run_events_def intro!: returns_ret returns_bnd)

lemma returns_pair: "returns m \<Longrightarrow> m s = (Inr (), snd (m s))" for m :: "('s, unit) op"
  by (metis (full_types) old.unit.exhaust prod.collapse returns_def snd_conv)

lemma sample_returns: "set es \<subseteq> {sample_start, sample_fork} \<Longrightarrow> returns (run_events es)"
proof (rule returns_run)
  fix env event data wd
  assume "set es \<subseteq> {sample_start, sample_fork}" "(env, event, data, wd) \<in> set es"
  then have "(env, event, data, wd) = sample_start \<or> (env, event, data, wd) = sample_fork" by blast
  then show "returns (process_event env event data wd)"
    by (elim disjE)
      (rule returns_lifecycle [where sid = "''s''" and ts = "''t''" and e = 0];
       simp add: sample_start_def sample_fork_def session_events_def sample_env_def any_field_def parent_of_def por_def)+
qed

theorem session_type_confluent_witness:
  "type_of (hs_graph (snd (run_events [sample_start, sample_fork] (HookStateService ''w'' None)))) ''s'' =
   type_of (hs_graph (snd (run_events [sample_fork, sample_start] (HookStateService ''w'' None)))) ''s''"
proof -
  have "one_terminal (hs_graph (HookStateService ''w'' None))"
    by (simp add: HookStateService_def GraphState_def one_terminal_def type_of_def node_labels_def node_or_empty_def)
  from session_type_confluent [OF this returns_pair [OF sample_returns] returns_pair [OF sample_returns]]
  show ?thesis by simp
qed

text \<open>
  C20 [session_type_authority]: the session handler is the only writer of session types.  Processing
  any other event, whether it returns or raises, leaves the type labels of every node as they were.
\<close>

theorem session_type_authority:
  assumes "event \<notin> {''session:start'', ''session:fork'', ''session:end''}"
    and "process_event env event data wd s = (r, s')"
  shows "type_of (hs_graph s') n = type_of (hs_graph s) n"
proof -
  have "event \<notin> set session_events" using assms(1) by (simp add: session_events_def)
  from keepsD [OF fixed.keeps_process_other [OF this] _ assms(2), of n "type_of (hs_graph s) n"]
  show ?thesis by (simp add: on_hs_def)
qed

theorem session_type_authority_witness:
  "type_of (hs_graph (snd (process_event sample_env ''tool:pre'' [(''session_id'', PStr ''s'')] None
      (HookStateService ''w'' None)))) ''s'' = type_of (hs_graph (HookStateService ''w'' None)) ''s''"
  by (rule session_type_authority [OF _ prod.collapse [symmetric]]) simp

text \<open>
  C21 [session_type_monotone]: no event, whether its processing returns or raises, gives a node a
  second session type or a less specific one than it had.
\<close>

theorem session_type_monotone:
  assumes "one_terminal (hs_graph s)" and "process_event env event data wd s = (r, s')"
  shows "one_terminal (hs_graph s') \<and> type_rank (type_of (hs_graph s) n) \<le> type_rank (type_of (hs_graph s') n)"
  using keepsD [OF lattice.keeps_process_event _ assms(2), of "type_rank (type_of (hs_graph s) n)" n] assms(1)
  by (simp add: on_hs_def)

theorem session_type_monotone_witness:
  "one_terminal (hs_graph (snd (process_event sample_env ''session:end'' [(''session_id'', PStr ''s'')] None
      (HookStateService ''w'' None))))"
proof -
  have "one_terminal (hs_graph (HookStateService ''w'' None))"
    by (simp add: HookStateService_def GraphState_def one_terminal_def type_of_def node_labels_def node_or_empty_def)
  from session_type_monotone [OF this prod.collapse [symmetric]] show ?thesis by blast
qed



end
