(* ===== verification/EventRecord.thy ===== *)
theory EventRecord
  imports SessionTypes
begin

text \<open>
  What processing an event guarantees about its record in the graph, and what the bridges and the blob
  offloading do to it.
\<close>

section \<open>The event is recorded\<close>







section \<open>Session stubs never revert a session\<close>

text \<open>The node a stub call leaves, from the node it found.\<close>

lemma ensure_result:
  assumes "ensure_session_node sid data wd s = (r, s')"
  shows "r = Inr ()" and "sid \<in> set (seen_sessions s')" and "get_edge a b (hs_graph s') = get_edge a b (hs_graph s)"
    and "n \<noteq> sid \<Longrightarrow> get_node n (hs_graph s') = get_node n (hs_graph s)"
    and "get_node sid (hs_graph s) = Some d \<Longrightarrow> sid \<notin> set (seen_sessions s) \<Longrightarrow>
      get_node sid (hs_graph s') = Some (merge_props d
        ([(''labels'', label_list [''Session'']), (''status_if_absent'', PStr ''running''), (''session_id'', PStr sid)] @
         opt_entry (truthy_opt wd \<and> \<not> truthy (any_field d ''working_dir'')) ''working_dir'' (opt_val wd)))"
    and "sid \<in> set (seen_sessions s) \<Longrightarrow> s' = s"
    and "sid \<notin> set (seen_sessions s) \<Longrightarrow> get_node sid (hs_graph s') \<noteq> None"
  using assms
  by (auto simp: ensure_session_node_def op_simps read_node_def node_op_def on_graph_def ret_def bnd_def gets_def
    modify_def graph_simps node_or_empty_get Let_def split: if_splits option.splits)

text \<open>
  C24 [stub_never_reverts]: a reference to a session never takes anything back.  \<^verbatim>\<open>ensure_session_node\<close>
  always returns; a session node that already has a status keeps it, whatever it is, and one that has
  a working directory keeps that; a node without a status is marked running; every property other than
  the labels, the status, the identifier and the working directory stays; every other node and every
  edge is untouched; and a second call is without effect.
\<close>

theorem stub_never_reverts:
  assumes "ensure_session_node sid data wd s = (r, s')" and "get_node sid (hs_graph s) = Some d"
  shows "r = Inr () \<and>
    (\<exists>d'. get_node sid (hs_graph s') = Some d' \<and>
      (truthy (any_field d ''status'') \<longrightarrow> any_field d' ''status'' = any_field d ''status'') \<and>
      (\<not> truthy (any_field d ''status'') \<and> sid \<notin> set (seen_sessions s) \<longrightarrow> any_field d' ''status'' = PStr ''running'') \<and>
      (truthy (any_field d ''working_dir'') \<longrightarrow> any_field d' ''working_dir'' = any_field d ''working_dir'') \<and>
      set (labels_of d) \<subseteq> set (labels_of d') \<and>
      (\<forall>k. k \<notin> {''labels'', ''status'', ''status_if_absent'', ''session_id'', ''working_dir''} \<longrightarrow> dget d' k = dget d k)) \<and>
    (\<forall>n. n \<noteq> sid \<longrightarrow> get_node n (hs_graph s') = get_node n (hs_graph s)) \<and>
    (\<forall>a b. get_edge a b (hs_graph s') = get_edge a b (hs_graph s)) \<and>
    ensure_session_node sid data' wd' s' = (Inr (), s')"
proof -
  note e = ensure_result [OF assms(1)]
  have again: "ensure_session_node sid data' wd' s' = (Inr (), s')"
    using e(2) by (simp add: ensure_session_node_def op_simps ret_def)
  let ?w = "[(''labels'', label_list [''Session'']), (''status_if_absent'', PStr ''running''), (''session_id'', PStr sid)] @
         opt_entry (truthy_opt wd \<and> \<not> truthy (any_field d ''working_dir'')) ''working_dir'' (opt_val wd)"
  have w: "wf_dict ?w" by (auto simp: opt_entry_def)
  have n: "dget ?w ''status'' = None" "dget ?w ''status_if_absent'' = Some (PStr ''running'')"
    by (auto simp: opt_entry_def)
  show ?thesis
  proof (cases "sid \<in> set (seen_sessions s)")
    case True
    then show ?thesis using e assms(2) again by auto
  next
    case False
    let ?d = "merge_props d ?w"
    have d': "get_node sid (hs_graph s') = Some ?d" using e(5) [OF assms(2) False] .
    have "truthy (any_field d ''status'') \<Longrightarrow> any_field ?d ''status'' = any_field d ''status''"
      using status_merge_keep [OF n(1)] by (simp only: any_field_def)
    moreover have "\<not> truthy (any_field d ''status'') \<Longrightarrow> any_field ?d ''status'' = PStr ''running''"
      using status_merge_hint [OF n(1) _ n(2)] by (simp add: any_field_def)
    moreover have "truthy (any_field d ''working_dir'') \<Longrightarrow> any_field ?d ''working_dir'' = any_field d ''working_dir''"
      using dget_merge [OF w, of "''working_dir''" d] by (simp add: any_field_def opt_entry_def)
    moreover have "set (labels_of d) \<subseteq> set (labels_of ?d)" by (auto simp: labels_merge)
    moreover have "k \<notin> {''labels'', ''status'', ''status_if_absent'', ''session_id'', ''working_dir''} \<Longrightarrow>
        dget ?d k = dget d k" for k
      using dget_merge [OF w, of k d] by (simp add: opt_entry_def)
    ultimately show ?thesis using e d' again by blast
  qed
qed

definition ended_state :: hook_state where
  "ended_state = (HookStateService ''w'' None)
    \<lparr>hs_graph := upsert_node ''s'' [(''status'', PStr ''completed'')] (GraphState ''w'')\<rparr>"

theorem stub_never_reverts_witness:
  "\<exists>d. get_node ''s'' (hs_graph (snd (ensure_session_node ''s'' [] None ended_state))) = Some d \<and>
    any_field d ''status'' = PStr ''completed''"
proof -
  have "get_node ''s'' (hs_graph ended_state) = Some [(''status'', PStr ''completed'')]"
    by (simp add: ended_state_def GraphState_def graph_simps node_or_empty_def merge_props_def Let_def any_field_def)
  note r = stub_never_reverts [OF prod.collapse [symmetric] this, where data' = "[]" and wd' = None]
  obtain d' where "get_node ''s'' (hs_graph (snd (ensure_session_node ''s'' [] None ended_state))) = Some d'"
    and "truthy (any_field [(''status'', PStr ''completed'')] ''status'') \<longrightarrow>
      any_field d' ''status'' = any_field [(''status'', PStr ''completed'')] ''status''"
    using r by blast
  then show ?thesis by (auto simp: any_field_def)
qed

section \<open>The end of a session is processed twice\<close>

text \<open>Two graphs that no read can tell apart.\<close>

definition edge_props :: "graph \<Rightarrow> str \<Rightarrow> str \<Rightarrow> pydict" where
  "edge_props g a b = (case get_edge a b g of None \<Rightarrow> [] | Some d \<Rightarrow> d)"

definition same_graph :: "graph \<Rightarrow> graph \<Rightarrow> bool" where
  "same_graph g h =
    ((\<forall>n. (get_node n g = None) = (get_node n h = None) \<and> dget (node_or_empty g n) = dget (node_or_empty h n)) \<and>
     (\<forall>a b. (get_edge a b g = None) = (get_edge a b h = None) \<and> dget (edge_props g a b) = dget (edge_props h a b)))"

definition end_props :: "str \<Rightarrow> str \<Rightarrow> str \<Rightarrow> str list \<Rightarrow> pydict" where
  "end_props sid ts p labels =
    [(''labels'', label_list ([''Session'', ''SST_EVENT''] @ labels)), (''ended_at'', PStr ts),
     (''status'', PStr ''completed''), (''session_id'', PStr sid)] @ opt_entry (p \<noteq> []) ''parent_id'' (PStr p)"

definition end_labels :: "str list \<Rightarrow> str list" where
  "end_labels ls =
    (if current_type ls = None
     then sorted_set (filter (\<lambda>l. l \<noteq> ''StubSession'') (sorted_set (ls @ [''Session'', ''SST_EVENT''] @ ls)) @
       [''IncompleteSession'', ''SST_EVENT''])
     else sorted_set (ls @ [''Session'', ''SST_EVENT''] @ ls))"

lemma current_type_cong: "set ls \<inter> set TYPE_LABELS = set ls' \<inter> set TYPE_LABELS \<Longrightarrow> current_type ls = current_type ls'"
  unfolding current_type_def by (rule find_cong) auto

lemma end_labels_twice: "end_labels (end_labels ls) = end_labels ls"
proof -
  have "set (end_labels ls) \<inter> set TYPE_LABELS = set ls \<inter> set TYPE_LABELS"
    by (auto simp: end_labels_def TYPE_LABELS_def)
  then have c: "current_type (end_labels ls) = current_type ls" by (rule current_type_cong)
  have "set (end_labels (end_labels ls)) = set (end_labels ls)"
    unfolding end_labels_def [of "end_labels ls"] c by (auto simp: end_labels_def)
  moreover have "end_labels x = sorted_set (end_labels x)" for x
    unfolding end_labels_def by (simp split: if_splits) (auto intro: sorted_set_cong)
  ultimately show ?thesis by (metis sorted_set_cong)
qed

definition end_graph :: "str \<Rightarrow> str \<Rightarrow> str \<Rightarrow> str \<Rightarrow> graph \<Rightarrow> graph" where
  "end_graph sid ts p nid g =
    (let g' = upsert_edge sid nid [(''type'', PStr ''SOURCED_FROM'')]
           (upsert_node sid (end_props sid ts p (node_labels g sid)) g)
     in if current_type (node_labels g sid) = None
        then set_labels sid [''StubSession''] [''IncompleteSession'', ''SST_EVENT''] g' else g')"

lemma read_labels_gets: "read_labels n = gets (\<lambda>s. node_labels (hs_graph s) n)"
  by (simp add: read_labels_def read_node_def bnd_def gets_def ret_def fun_eq_iff node_labels_def node_or_empty_get
    split: option.splits)

lemma handle_end_run:
  assumes "parent_of data = Inr p"
    and "make_node_id (fromiso env) (event_identity env) sid ''session:end'' ts None = Inr nid"
  shows "handle_end env sid ts data s = (Inr (), s\<lparr>hs_graph := end_graph sid ts p nid (hs_graph s)\<rparr>)"
proof -
  have r: "bnd m ret = m" for m :: "unit hop"
    by (auto simp: bnd_def ret_def fun_eq_iff split: prod.splits sum.splits)
  have m: "modify f s' = (Inr (), f s')" "ret () s' = (Inr (), s')" for f and s' :: hook_state
    by (simp_all add: modify_def ret_def)
  show ?thesis
    using assms
    by (cases "current_type (node_labels (hs_graph s) sid)",
        simp_all add: handle_end_def read_labels_gets op_simps sourced_from_def classify_def node_op_def edge_op_def
          on_graph_def end_graph_def end_props_def apply_transition_def when_op_def r Let_def)
      (simp_all add: m)
qed

lemma handle_end_ok:
  assumes "handle_end env sid ts data s = (Inr (), s')"
  obtains p nid where "parent_of data = Inr p"
    and "make_node_id (fromiso env) (event_identity env) sid ''session:end'' ts None = Inr nid"
proof -
  have "\<exists>p. parent_of data = Inr p"
    using assms by (cases "parent_of data") (simp_all add: handle_end_def read_labels_gets op_simps raise_op_def)
  moreover have "\<exists>nid. make_node_id (fromiso env) (event_identity env) sid ''session:end'' ts None = Inr nid"
    using assms by (cases "make_node_id (fromiso env) (event_identity env) sid ''session:end'' ts None")
      (auto simp: handle_end_def bnd_Inr_iff sourced_from_def lift_res_def)
  ultimately show thesis using that by blast
qed

lemma status_merge_set:
  assumes "wf_dict data" and "dget data ''status'' = Some v" and "truthy v"
  shows "dget (merge_props d data) ''status'' = Some v"
proof -
  have "dget (dupdate e (plain_props data)) ''status'' = Some v" for e
    using assms by (simp add: dget_dupdate wf_plain map_of_plain)
  then show ?thesis using assms(3) by (auto simp: merge_props_def Let_def any_field_def split: option.splits)
qed

lemma hint_merge: "dget (merge_props d data) ''status_if_absent'' = dget d ''status_if_absent''"
proof -
  have "dget (dupdate e (plain_props data)) ''status_if_absent'' = dget e ''status_if_absent''" for e
    by (rule dget_dupdate_other) auto
  then show ?thesis by (auto simp: merge_props_def Let_def split: option.splits)
qed

lemma end_merge:
  "dget (merge_props d (end_props sid ts p ls)) k =
    (if k = ''labels'' then Some (label_list (sorted_set (labels_of d @ [''Session'', ''SST_EVENT''] @ ls)))
     else case dget (end_props sid ts p []) k of None \<Rightarrow> dget d k | Some v \<Rightarrow> Some v)"
proof -
  have wf: "wf_dict (end_props sid ts p ls)" by (auto simp: end_props_def opt_entry_def)
  have l: "dget (end_props sid ts p ls) ''labels'' = Some (label_list ([''Session'', ''SST_EVENT''] @ ls))"
    by (simp add: end_props_def)
  have s: "dget (end_props sid ts p ls) ''status'' = Some (PStr ''completed'')" by (simp add: end_props_def)
  have h: "dget (end_props sid ts p []) ''status_if_absent'' = None" by (auto simp: end_props_def opt_entry_def)
  have other: "k \<noteq> ''labels'' \<Longrightarrow> dget (end_props sid ts p ls) k = dget (end_props sid ts p []) k"
    by (simp add: end_props_def)
  consider (labels) "k = ''labels''" | (status) "k = ''status''" | (hint) "k = ''status_if_absent''"
    | (plain) "k \<noteq> ''labels''" "k \<noteq> ''status''" "k \<noteq> ''status_if_absent''" by blast
  then show ?thesis
  proof cases
    case labels
    then show ?thesis using dget_merge_labels [of d "end_props sid ts p ls"] l by simp
  next
    case status
    have "dget (end_props sid ts p []) ''status'' = Some (PStr ''completed'')" by (simp add: end_props_def)
    then show ?thesis using status status_merge_set [OF wf s] by simp
  next
    case hint
    then show ?thesis using hint_merge [of d] h by simp
  next
    case plain
    then show ?thesis using dget_merge [OF wf plain(1,2,3), of d] other by simp
  qed
qed

lemma end_graph_node:
  "dget (node_or_empty (end_graph sid ts p nid g) sid) k =
    (if k = ''labels'' then Some (label_list (end_labels (node_labels g sid)))
     else case dget (end_props sid ts p []) k of None \<Rightarrow> dget (node_or_empty g sid) k | Some v \<Rightarrow> Some v)"
proof -
  have "labels_of (merge_props (node_or_empty g sid) (end_props sid ts p (node_labels g sid))) =
      sorted_set (node_labels g sid @ [''Session'', ''SST_EVENT''] @ node_labels g sid)"
    by (simp add: labels_of_def end_merge node_labels_def)
  then show ?thesis
    by (simp add: end_graph_def Let_def node_or_empty_write end_merge end_labels_def node_labels_def)
qed

lemma end_graph_labels: "node_labels (end_graph sid ts p nid g) sid = end_labels (node_labels g sid)"
  by (simp add: node_labels_def labels_of_def end_graph_node)

lemma end_graph_other: "n \<noteq> sid \<Longrightarrow> get_node n (end_graph sid ts p nid g) = get_node n g"
  by (simp add: end_graph_def Let_def graph_simps)

lemma end_graph_some: "get_node sid (end_graph sid ts p nid g) \<noteq> None"
  by (simp add: end_graph_def Let_def graph_simps)

lemma end_graph_edge:
  "get_edge a b (end_graph sid ts p nid g) =
    (if (a, b) = (sid, nid) then Some (dupdate (edge_props g sid nid) [(''type'', PStr ''SOURCED_FROM'')]) else get_edge a b g)"
  by (simp add: end_graph_def Let_def graph_simps edge_props_def)

text \<open>
  C17 [session_end_idempotent]: the drainer processes the end of a session twice.  The second run of
  the handler returns whenever the first did, and it leaves a graph that no read can tell from the one
  the first run left: the same nodes with the same labels and properties and the same edges.
\<close>

theorem session_end_idempotent:
  assumes "handle_end env sid ts data s = (Inr (), s1)"
  shows "\<exists>s2. handle_end env sid ts data s1 = (Inr (), s2) \<and> same_graph (hs_graph s2) (hs_graph s1)"
proof -
  obtain p nid where p: "parent_of data = Inr p"
    and nid: "make_node_id (fromiso env) (event_identity env) sid ''session:end'' ts None = Inr nid"
    by (rule handle_end_ok [OF assms])
  note run = handle_end_run [OF p nid]
  let ?g1 = "end_graph sid ts p nid (hs_graph s)"
  have s1: "hs_graph s1 = ?g1" using assms run [of s] by auto
  have "same_graph (end_graph sid ts p nid ?g1) ?g1"
    unfolding same_graph_def
  proof (intro conjI allI)
    fix n
    show "(get_node n (end_graph sid ts p nid ?g1) = None) = (get_node n ?g1 = None)"
      using end_graph_some [of sid ts p nid ?g1] end_graph_some [of sid ts p nid "hs_graph s"]
      by (cases "n = sid") (auto simp: end_graph_other)
    show "dget (node_or_empty (end_graph sid ts p nid ?g1) n) = dget (node_or_empty ?g1 n)"
    proof (cases "n = sid")
      case True
      then show ?thesis
        by (auto simp: fun_eq_iff end_graph_node end_graph_labels end_labels_twice split: option.splits)
    qed (simp add: node_or_empty_get end_graph_other)
  next
    fix a b
    show "(get_edge a b (end_graph sid ts p nid ?g1) = None) = (get_edge a b ?g1 = None)"
      by (simp add: end_graph_edge)
    show "dget (edge_props (end_graph sid ts p nid ?g1) a b) = dget (edge_props ?g1 a b)"
      by (auto simp: edge_props_def end_graph_edge fun_eq_iff)
  qed
  then show ?thesis using run [of s1] s1 by auto
qed

theorem session_end_idempotent_witness:
  "\<exists>s2. handle_end sample_env ''s'' ''t'' [] (snd (handle_end sample_env ''s'' ''t'' [] (HookStateService ''w'' None))) =
    (Inr (), s2)"
proof -
  have "\<exists>nid. make_node_id (fromiso sample_env) (event_identity sample_env) ''s'' ''session:end'' ''t'' None = Inr nid"
    by (simp add: sample_env_def make_node_id_def Let_def)
  moreover have "parent_of [] = Inr []" by code_simp
  ultimately have "handle_end sample_env ''s'' ''t'' [] s = (Inr (), snd (handle_end sample_env ''s'' ''t'' [] s))" for s
    using handle_end_run by fastforce
  from session_end_idempotent [OF this] show ?thesis by blast
qed

end
