(* ===== verification/HandlerSpec.thy ===== *)
theory HandlerSpec
  imports EventRecord
begin

text \<open>
  The resolution of self-delegations against its specification, and three behaviours of the handlers in
  combination: what the blob offloading does to the outcome of a tool call, which edge is left between a
  session and its lifecycle events, and where the bridges of recipe steps lead.
\<close>

section \<open>Self-delegations\<close>

text \<open>The agent that, after a number of self-delegations, spawned a session.\<close>

inductive spawned_by :: "graph \<Rightarrow> nat \<Rightarrow> str \<Rightarrow> str \<Rightarrow> bool" for g where
  direct: "find_delegation_by_sub_session sub g = Some d \<Longrightarrow> any_field d ''agent'' = PStr a \<Longrightarrow> a \<noteq> ''self'' \<Longrightarrow>
    a \<noteq> [] \<Longrightarrow> spawned_by g 0 sub a"
| via_self: "find_delegation_by_sub_session sub g = Some d \<Longrightarrow> any_field d ''agent'' = PStr ''self'' \<Longrightarrow>
    any_field d ''parent_session_id'' = PStr p \<Longrightarrow> p \<noteq> [] \<Longrightarrow> spawned_by g n p a \<Longrightarrow> spawned_by g (Suc n) sub a"

inductive_cases spawned_zero: "spawned_by g 0 sub a"
inductive_cases spawned_suc: "spawned_by g (Suc n) sub a"

lemma spawned_unique: "spawned_by g n sub a \<Longrightarrow> spawned_by g m sub b \<Longrightarrow> n = m \<and> a = b"
proof (induction arbitrary: m b rule: spawned_by.induct)
  case (direct sub d a)
  then show ?case by (auto elim: spawned_by.cases)
next
  case (via_self sub d p n a)
  from via_self.prems show ?case
  proof (cases rule: spawned_by.cases)
    case (via_self d' p' n')
    then show ?thesis using via_self.IH via_self.hyps by auto
  qed (use via_self.hyps in auto)
qed

lemma walk_complete:
  "spawned_by g n sub a \<Longrightarrow> n < k \<Longrightarrow> (\<forall>v\<in>set visited. \<forall>m b. spawned_by g m v b \<longrightarrow> n < m) \<Longrightarrow>
    self_agent_walk k g visited sub = Inr a"
proof (induction arbitrary: k visited rule: spawned_by.induct)
  case (direct sub d a)
  have "sub \<notin> set visited" using direct by (meson less_irrefl spawned_by.direct)
  with direct show ?case by (cases k) (auto simp: truthy_str_def)
next
  case (via_self sub d p n a)
  have this_one: "spawned_by g (Suc n) sub a" using via_self.hyps by (rule spawned_by.via_self)
  obtain j where k: "k = Suc j" "n < j" using via_self.prems(1) by (cases k) auto
  have "sub \<notin> set visited" using via_self.prems(2) this_one by blast
  moreover have "\<forall>v\<in>set (sub # visited). \<forall>m b. spawned_by g m v b \<longrightarrow> n < m"
    using via_self.prems(2) spawned_unique [OF this_one] by fastforce
  then have "self_agent_walk j g (sub # visited) p = Inr a" using via_self.IH k by blast
  ultimately show ?case using via_self.hyps k by (simp add: truthy_str_def)
qed

lemma walk_sound:
  "self_agent_walk k g visited sub = Inr a \<Longrightarrow> a \<notin> {''root'', ''forked'', ''unresolved''} \<Longrightarrow>
    \<exists>n<k. spawned_by g n sub a"
proof (induction k arbitrary: visited sub)
  case (Suc k)
  show ?case
  proof (cases "find_delegation_by_sub_session sub g")
    case None
    then show ?thesis using Suc.prems
      by (auto simp: discriminate_root_vs_unresolved_def Let_def split: if_splits)
  next
    case (Some d)
    show ?thesis
    proof (cases "any_field d ''agent'' = PStr ''self''")
      case False
      have "any_field d ''agent'' = PStr a \<and> a \<noteq> []"
        using Suc.prems Some False
        by (auto simp: bind_res_Inr_iff truthy_str_def split: if_splits option.splits pyval.splits)
      then have "spawned_by g 0 sub a" using Some False by (auto intro: spawned_by.direct)
      then show ?thesis by blast
    next
      case True
      obtain p where p: "any_field d ''parent_session_id'' = PStr p" "p \<noteq> []"
        and w: "self_agent_walk k g (sub # visited) p = Inr a"
        using Suc.prems Some True
        by (auto simp: bind_res_Inr_iff truthy_str_def split: if_splits option.splits pyval.splits)
      then show ?thesis using Suc.IH [OF w Suc.prems(2)] Some True by (blast intro: spawned_by.via_self)
    qed
  qed
qed simp

text \<open>
  C23 [self_agent_resolved]: the walk behind a self-delegation names the agent that really spawned the
  session, and only that one.  If a chain of fewer than eight self-delegations leads from the session to a
  delegation of a named agent, the walk returns that agent, whatever cycles the rest of the graph has;
  and an answer other than the three markers is always the agent at the end of such a chain.
\<close>

theorem self_agent_resolved:
  assumes "a \<notin> {''root'', ''forked'', ''unresolved''}"
  shows "resolve_self_agent g sub = Inr a \<longleftrightarrow> (\<exists>n<8. spawned_by g n sub a)"
  using walk_complete [of g _ sub a MAX_SELF_DELEGATION_DEPTH "[]"]
    walk_sound [of MAX_SELF_DELEGATION_DEPTH g "[]" sub a] assms
  by (auto simp: resolve_self_agent_def MAX_SELF_DELEGATION_DEPTH_def)

definition delegation_graph :: graph where
  "delegation_graph =
    (GraphState ''w'')\<lparr>g_nodes :=
      [(''d'', [(''labels'', label_list [''Delegation'']), (''agent'', PStr ''bob''), (''sub_session_id'', PStr ''s'')])]\<rparr>"

lemma delegation_spawned: "spawned_by delegation_graph 0 ''s'' ''bob''"
  by (rule spawned_by.direct [where d = "[(''labels'', label_list [''Delegation'']), (''agent'', PStr ''bob''),
        (''sub_session_id'', PStr ''s'')]"])
    (simp_all add: delegation_graph_def find_delegation_by_sub_session_def any_field_def)

theorem self_agent_resolved_witness: "resolve_self_agent delegation_graph ''s'' = Inr ''bob''"
proof -
  have "\<exists>n<8. spawned_by delegation_graph n ''s'' ''bob''" by (rule exI [of _ 0]) (simp add: delegation_spawned)
  then show ?thesis using self_agent_resolved [of "''bob''" delegation_graph "''s''"] by simp
qed

section \<open>Tool results behind a blob store\<close>

lemma offload_result_field:
  "offload_fields write sid nid ks data s = (Inr data', s') \<Longrightarrow> k \<in> set ks \<Longrightarrow> distinct ks \<Longrightarrow> any_field data k \<noteq> PNone \<Longrightarrow>
    \<exists>j v. j \<in> {''$blob_ref'', ''$blob_error''} \<and> dget data' k = Some (PDict [(j, v)])"
proof (induction ks arbitrary: data s)
  case (Cons i ks)
  from Cons.prems(1) obtain d1 s1 where 1: "offload_field write sid nid i data s = (Inr d1, s1)"
    and 2: "offload_fields write sid nid ks d1 s1 = (Inr data', s')"
    by (auto simp: bnd_Inr_iff)
  show ?case
  proof (cases "i = k")
    case True
    then obtain j v where d1: "j \<in> {''$blob_ref'', ''$blob_error''}" "any_field d1 k = PDict [(j, v)]"
      using 1 Cons.prems(4)
      by (auto simp: offload_field_def Let_def ret_def bnd_modify split: if_splits sum.splits)
    have "any_field data' k = any_field d1 k" using offload_other [OF 2] Cons.prems(3) True by simp
    then show ?thesis using d1 by (auto simp: any_field_def split: option.splits)
  next
    case False
    then have "any_field d1 k = any_field data k"
      using 1 by (auto simp: offload_field_def Let_def ret_def bnd_modify split: if_splits sum.splits)
    then show ?thesis using Cons.IH [OF 2] Cons.prems False by auto
  qed
qed simp

text \<open>When a blob store is configured, the outcome of a tool call is read from the payload after its
  \<^verbatim>\<open>result\<close> was replaced by a blob reference: a failed call is stored as a success without output or error.\<close>

theorem tool_post_success_masked:
  assumes "process_event_data write sid nid data s = (Inr data', s')" and "any_field data ''result'' \<noteq> PNone"
    and "handle_tool_post env sid tc ts data' s1 = (Inr (), s2)"
  shows "\<exists>d. get_node tc (hs_graph s2) = Some d \<and> any_field d ''result_success'' = PBool True \<and>
    any_field d ''result_error'' = PNone"
proof -
  obtain d0 s0 where l: "lift_raw_fields data = Inr d0" and f: "offload_fields write sid nid BLOB_FIELDS d0 s0 = (Inr data', s')"
    using assms(1) by (auto simp: process_event_data_def bnd_Inr_iff lift_res_def)
  have "any_field d0 ''result'' = any_field data ''result''"
    by (rule lift_raw_other [OF l]) simp_all
  then obtain j v where j: "j \<in> {''$blob_ref'', ''$blob_error''}" and r: "dget data' ''result'' = Some (PDict [(j, v)])"
    using offload_result_field [OF f, of "''result''"] assms(2) by (auto simp: BLOB_FIELDS_def)
  let ?p = "[(''labels'', label_list [''ToolCall'', ''SST_EVENT'']), (''ended_at'', PStr ts),
    (''result_success'', PBool True), (''result_output'', PNone), (''result_error'', PNone)]"
  have e: "any_field [(j, v)] ''error'' = PNone" "any_field [(j, v)] ''output'' = PNone"
    using j by (auto simp: any_field_def)
  have "\<exists>nid. hs_graph s2 = upsert_edge tc nid [(''type'', PStr ''SOURCED_FROM'')] (upsert_node tc ?p (hs_graph s1))"
    using assms(3) unfolding handle_tool_post_def r
    by (auto simp: op_simps e node_op_def edge_op_def on_graph_def sourced_from_def bnd_Inr_iff lift_res_def modify_def ret_def)
  then have "get_node tc (hs_graph s2) = Some (merge_props (node_or_empty (hs_graph s1) tc) ?p)"
    by (elim exE) (simp only: get_node_upsert_edge get_node_upsert if_True refl)
  moreover have "any_field (merge_props d ?p) ''result_success'' = PBool True" for d
    using dget_merge [of ?p "''result_success''" d] by (simp add: any_field_def)
  moreover have "any_field (merge_props d ?p) ''result_error'' = PNone" for d
    using dget_merge [of ?p "''result_error''" d] by (simp add: any_field_def)
  ultimately show ?thesis by blast
qed

section \<open>Edges between a session and its lifecycle events\<close>

text \<open>Edges are keyed by their end points alone: the bridge that the session handler draws replaces the
  \<^verbatim>\<open>HAS_EVENT\<close> edge that the default handler has just drawn between the same two nodes.\<close>

theorem has_event_replaced:
  assumes d: "default_handler env ''session:end'' data s = (Inr (), s1)"
    and e: "handle_end env sid ts data s1 = (Inr (), s2)"
    and sid: "truthy_str data ''session_id'' = Inr (Some sid)" and ts: "str_field data ''timestamp'' [] = Inr ts"
    and tc: "any_field data ''tool_call_id'' = PNone"
  shows "\<exists>nid. dget (edge_props (hs_graph s1) sid nid) ''type'' = Some (PStr ''HAS_EVENT'') \<and>
    dget (edge_props (hs_graph s2) sid nid) ''type'' = Some (PStr ''SOURCED_FROM'')"
proof -
  obtain p nid where p: "parent_of data = Inr p"
    and nid: "make_node_id (fromiso env) (event_identity env) sid ''session:end'' ts None = Inr nid"
    by (rule handle_end_ok [OF e])
  have s2: "hs_graph s2 = end_graph sid ts p nid (hs_graph s1)" using handle_end_run [OF p nid, of s1] e by auto
  obtain labels where l: "derive_labels ''session:end'' = Inr labels" by (rule derive_labels_ok)
  have dis: "opt_fmt (any_field data ''tool_call_id'') = Inr None" using tc by (simp add: opt_fmt_def)
  have s1: "hs_graph s1 = upsert_edge sid nid [(''type'', PStr ''HAS_EVENT''), (''occurred_at'', PStr ts)]
        (upsert_node nid (event_props env ''session:end'' labels ts data) (hs_graph s))"
    using d unfolding default_handler_def sid ts l dis bnd_lift_Inr option.case nid
    by (auto simp: op_simps node_op_def edge_op_def on_graph_def ret_def)
  have "dget (edge_props (hs_graph s1) sid nid) ''type'' = Some (PStr ''HAS_EVENT'')"
    by (simp add: edge_props_def s1 get_edge_upsert_edge)
  moreover have "dget (edge_props (hs_graph s2) sid nid) ''type'' = Some (PStr ''SOURCED_FROM'')"
    by (simp add: s2 edge_props_def end_graph_edge)
  ultimately show ?thesis by blast
qed

section \<open>Bridges with a disambiguator of their own\<close>

text \<open>The handlers of recipe steps and of the delegation lifecycle build the target of their bridge with a
  disambiguator the default handler does not use when it records the event, so the target is another
  identifier than the recorded event's.\<close>

theorem bridge_misses_record:
  assumes "make_node_id f ident sid event ts None = Inr recorded_id"
    and "make_node_id f ident sid event ts (Some dis) = Inr bridged_id"
  shows "bridged_id \<noteq> recorded_id"
proof -
  have "length recorded_id < length bridged_id"
    using assms by (auto simp: make_node_id_def Let_def split: option.splits)
  then show ?thesis by auto
qed

end
