(* ===== verification/Files.thy ===== *)
theory Files
  imports Utils
begin

text \<open>
  The spool directory and the byte framing of \<^verbatim>\<open>queue_manager.py\<close>.

  A directory maps file names to contents.  The only failures of a read, an existence test, an
  unlink or a rename are a missing file and a name longer than \<^verbatim>\<open>NAME_MAX\<close>, the two
  errors the sources distinguish.  A write runs against a device script that says what each
  \<^verbatim>\<open>os.write\<close> call does: write so many bytes, or fail.  A script that is used up writes
  everything.
\<close>

section \<open>The directory\<close>

type_synonym dir = "bytes dict"

definition NAME_MAX :: nat where
  "NAME_MAX = 255"

definition fs_read :: "dir \<Rightarrow> str \<Rightarrow> bytes res" where
  "fs_read d name =
    (if NAME_MAX < length name then Inl (OSError ENAMETOOLONG)
     else case dget d name of None \<Rightarrow> Inl (OSError ENOENT) | Some b \<Rightarrow> Inr b)"

definition fs_unlink :: "dir \<Rightarrow> str \<Rightarrow> dir res" where
  "fs_unlink d name =
    (if NAME_MAX < length name then Inl (OSError ENAMETOOLONG)
     else case dget d name of None \<Rightarrow> Inl (OSError ENOENT) | Some b \<Rightarrow> Inr (AList.delete name d))"

text \<open>\<^verbatim>\<open>try: path.unlink() except FileNotFoundError: pass\<close>\<close>

definition unlink_missing_ok :: "dir \<Rightarrow> str \<Rightarrow> dir res" where
  "unlink_missing_ok d name =
    (case fs_unlink d name of
       Inl (OSError e) \<Rightarrow> if e = ENOENT then Inr d else Inl (OSError e)
     | r \<Rightarrow> r)"

definition fs_put :: "dir \<Rightarrow> str \<Rightarrow> bytes \<Rightarrow> dir res" where
  "fs_put d name b =
    (if NAME_MAX < length name then Inl (OSError ENAMETOOLONG) else Inr (dset name b d))"

definition fs_replace :: "dir \<Rightarrow> str \<Rightarrow> str \<Rightarrow> dir res" where
  "fs_replace d src dst =
    (if NAME_MAX < length src \<or> NAME_MAX < length dst then Inl (OSError ENAMETOOLONG)
     else case dget d src of
            None \<Rightarrow> Inl (OSError ENOENT)
          | Some b \<Rightarrow> Inr (if src = dst then d else dset dst b (AList.delete src d)))"

section \<open>Lines\<close>

definition NL :: char where
  "NL = CHR 0x0A"

text \<open>\<^verbatim>\<open>f.readline()\<close> on the bytes from the current position.\<close>

definition readline :: "bytes \<Rightarrow> bytes" where
  "readline b = takeWhile (\<lambda>c. c \<noteq> NL) b @ take 1 (dropWhile (\<lambda>c. c \<noteq> NL) b)"

text \<open>The reference reading of a file: its complete lines and the unterminated tail.\<close>

fun split_lines :: "bytes \<Rightarrow> bytes list \<times> bytes" where
  "split_lines [] = ([], [])"
| "split_lines (c # cs) =
    (let (ls, t) = split_lines cs in
     if c = NL then ([] # ls, t)
     else (case ls of [] \<Rightarrow> ([], c # t) | l # ls' \<Rightarrow> ((c # l) # ls', t)))"

definition clines :: "bytes \<Rightarrow> bytes list" where
  "clines b = fst (split_lines b)"

definition ctail :: "bytes \<Rightarrow> bytes" where
  "ctail b = snd (split_lines b)"

definition frame :: "bytes list \<Rightarrow> bytes" where
  "frame ls = concat (map (\<lambda>l. l @ [NL]) ls)"

definition no_nl :: "bytes \<Rightarrow> bool" where
  "no_nl l = (NL \<notin> set l)"

section \<open>Writing\<close>

datatype wr = Wrote nat | WFail nat

fun write_all :: "wr list \<Rightarrow> bytes \<Rightarrow> bytes \<Rightarrow> unit res \<times> bytes \<times> wr list" where
  "write_all sc f [] = (Inr (), f, sc)"
| "write_all [] f (c # cs) = (Inr (), f @ c # cs, [])"
| "write_all (WFail e # sc) f (c # cs) = (Inl (OSError e), f, sc)"
| "write_all (Wrote n # sc) f (c # cs) =
    (if n = 0 then (Inl (OSError 0), f, sc)
     else write_all sc (f @ take n (c # cs)) (drop n (c # cs)))"

definition discard_partial :: "wr list \<Rightarrow> bytes \<Rightarrow> bytes" where
  "discard_partial sc f = fst (snd (write_all sc f [NL]))"

definition write_record :: "wr list \<Rightarrow> dir \<Rightarrow> str \<Rightarrow> bytes \<Rightarrow> unit res \<times> dir" where
  "write_record sc d path line =
    (if NAME_MAX < length path then (Inl (OSError ENAMETOOLONG), d)
     else let f = (case dget d path of None \<Rightarrow> [] | Some b \<Rightarrow> b)
          in case write_all sc f line of
               (Inr _, f', _) \<Rightarrow> (Inr (), dset path f' d)
             | (Inl e, f', sc') \<Rightarrow> (Inl e, dset path (discard_partial sc' f') d))"

section \<open>Streaming scans\<close>

definition SCAN_CHUNK_BYTES :: nat where
  "SCAN_CHUNK_BYTES = 1048576"

fun rfind_nl :: "bytes \<Rightarrow> nat option" where
  "rfind_nl [] = None"
| "rfind_nl (c # cs) =
    (case rfind_nl cs of Some i \<Rightarrow> Some (Suc i) | None \<Rightarrow> if c = NL then Some 0 else None)"

text \<open>The backward scan of \<^verbatim>\<open>_last_complete_end\<close> over a file of which the first \<^verbatim>\<open>pos\<close>
  bytes are still to be searched, in chunks of \<^verbatim>\<open>chunk\<close> bytes.\<close>

function last_end_loop :: "nat \<Rightarrow> bytes \<Rightarrow> nat \<Rightarrow> nat" where
  "last_end_loop chunk f pos =
    (if pos = 0 \<or> chunk = 0 then 0
     else let read_size = min chunk pos;
              pos' = pos - read_size;
              buf = take read_size (drop pos' f)
          in case rfind_nl buf of
               Some idx \<Rightarrow> pos' + idx + 1
             | None \<Rightarrow> last_end_loop chunk f pos')"
  by pat_completeness auto
termination
  by (relation "measure (\<lambda>(c, f, p). p)") auto

declare last_end_loop.simps [simp del]

definition last_complete_end :: "dir \<Rightarrow> str \<Rightarrow> nat res" where
  "last_complete_end d path =
    (case fs_read d path of
       Inr f \<Rightarrow> Inr (last_end_loop SCAN_CHUNK_BYTES f (length f))
     | Inl (OSError e) \<Rightarrow> if e = ENOENT then Inr 0 else Inl (OSError e)
     | Inl e \<Rightarrow> Inl e)"

text \<open>The forward count of \<^verbatim>\<open>_stream_newlines\<close>: \<^verbatim>\<open>remaining\<close> is absent when counting to the
  end of the file.\<close>

function count_loop :: "nat \<Rightarrow> bytes \<Rightarrow> nat option \<Rightarrow> nat \<Rightarrow> nat" where
  "count_loop chunk rest remaining count =
    (let to_read = (case remaining of None \<Rightarrow> chunk | Some r \<Rightarrow> min chunk r) in
     if to_read = 0 then count
     else let buf = take to_read rest in
       if buf = [] then count
       else count_loop chunk (drop to_read rest)
              (map_option (\<lambda>r. r - length buf) remaining)
              (count + length (filter (\<lambda>c. c = NL) buf)))"
  by pat_completeness auto
termination
  by (relation "measure (\<lambda>(c, r, m, n). length r)") auto

declare count_loop.simps [simp del]

text \<open>A negative position makes \<^verbatim>\<open>seek\<close> raise.\<close>

abbreviation EINVAL :: nat where "EINVAL \<equiv> 22"

definition stream_newlines :: "dir \<Rightarrow> str \<Rightarrow> int \<Rightarrow> int option \<Rightarrow> nat res" where
  "stream_newlines d path start stop =
    (if (case stop of None \<Rightarrow> False | Some e \<Rightarrow> e \<le> start) then Inr 0
     else case fs_read d path of
       Inl (OSError e) \<Rightarrow> if e = ENOENT then Inr 0 else Inl (OSError e)
     | Inl e \<Rightarrow> Inl e
     | Inr f \<Rightarrow>
         if start < 0 then Inl (OSError EINVAL)
         else Inr (count_loop SCAN_CHUNK_BYTES (drop (nat start) f)
                     (map_option (\<lambda>e. nat (e - start)) stop) 0))"

section \<open>Framing lemmas\<close>

lemma frame_simps [simp]:
  "frame [] = []" "frame (l # ls) = l @ NL # frame ls" "frame (ls @ ms) = frame ls @ frame ms"
  by (simp_all add: frame_def)

lemma no_nl_simps [simp]:
  "no_nl []" "no_nl (c # l) \<longleftrightarrow> c \<noteq> NL \<and> no_nl l" "no_nl (l @ m) \<longleftrightarrow> no_nl l \<and> no_nl m"
  by (auto simp: no_nl_def)

lemma split_lines_eq: "split_lines b = (clines b, ctail b)"
  by (simp add: clines_def ctail_def)

lemma split_lines_no_nl: "no_nl l \<Longrightarrow> split_lines l = ([], l)"
  by (induction l) auto

lemma split_lines_line: "no_nl l \<Longrightarrow> split_lines (l @ NL # b) = (l # clines b, ctail b)"
  by (induction l) (auto simp: clines_def ctail_def split: prod.splits)

lemma split_lines_frame:
  "list_all no_nl ls \<Longrightarrow> split_lines (frame ls @ b) = (ls @ clines b, ctail b)"
  by (induction ls) (simp_all add: split_lines_line clines_def ctail_def)

lemma clines_frame: "list_all no_nl ls \<Longrightarrow> clines (frame ls @ b) = ls @ clines b"
  and ctail_frame: "list_all no_nl ls \<Longrightarrow> ctail (frame ls @ b) = ctail b"
  using split_lines_frame [of ls b] by (simp_all add: clines_def ctail_def)

lemma clines_no_nl [simp]: "no_nl l \<Longrightarrow> clines l = []"
  and ctail_no_nl [simp]: "no_nl l \<Longrightarrow> ctail l = l"
  by (simp_all add: clines_def ctail_def split_lines_no_nl)

lemma split_lines_join:
  "frame (clines b) @ ctail b = b \<and> list_all no_nl (clines b) \<and> no_nl (ctail b)"
proof (induction b)
  case (Cons c b)
  then show ?case
    by (cases "clines b") (auto simp: clines_def ctail_def split: prod.splits)
qed (simp add: clines_def ctail_def)

lemma frame_clines: "frame (clines b) @ ctail b = b"
  and clines_all_no_nl: "list_all no_nl (clines b)"
  and no_nl_ctail [simp]: "no_nl (ctail b)"
  using split_lines_join [of b] by simp_all

lemma clines_line: "no_nl l \<Longrightarrow> clines (l @ NL # b) = l # clines b"
  and ctail_line: "no_nl l \<Longrightarrow> ctail (l @ NL # b) = ctail b"
  using split_lines_line [of l b] by (simp_all add: split_lines_eq)

lemma clines_append: "clines (a @ b) = clines a @ clines (ctail a @ b)"
  and ctail_append: "ctail (a @ b) = ctail (ctail a @ b)"
  using clines_frame [OF clines_all_no_nl, of a "ctail a @ b"]
    ctail_frame [OF clines_all_no_nl, of a "ctail a @ b"]
  by (simp_all add: frame_clines flip: append.assoc)

lemma clines_close: "clines (a @ [NL]) = clines a @ [ctail a]"
  and ctail_close [simp]: "ctail (a @ [NL]) = []"
  by (simp_all add: clines_append [of a] ctail_append [of a] clines_line ctail_line)

definition cend :: "bytes \<Rightarrow> nat" where
  "cend b = length (frame (clines b))"

lemma cend_plus_tail: "cend b + length (ctail b) = length b"
  unfolding cend_def by (metis frame_clines length_append)

lemma cend_le [simp]: "cend b \<le> length b"
  using cend_plus_tail [of b] by simp

lemma cend_no_nl: "no_nl y \<Longrightarrow> cend (a @ y) = cend a"
  by (simp add: cend_def clines_append [of a y])

lemma cend_line: "no_nl y \<Longrightarrow> cend (a @ NL # y) = Suc (length a)"
  using cend_no_nl [of y "a @ [NL]"] cend_plus_tail [of "a @ [NL]"] by simp

lemma take_cend: "take (cend b) b = frame (clines b)"
  unfolding cend_def by (metis append_eq_conv_conj frame_clines)

section \<open>The scans compute the reference values\<close>

lemma rfind_nl_None: "rfind_nl b = None \<longleftrightarrow> no_nl b"
  by (induction b) (auto split: option.splits)

lemma rfind_nl_Some: "rfind_nl b = Some i \<Longrightarrow> \<exists>x y. b = x @ NL # y \<and> length x = i \<and> no_nl y"
proof (induction b arbitrary: i)
  case (Cons c b)
  show ?case
  proof (cases "rfind_nl b")
    case None
    with Cons.prems have "c = NL" "i = 0" by (auto split: if_splits)
    with None show ?thesis by (intro exI [of _ "[]"] exI [of _ b]) (simp add: rfind_nl_None)
  next
    case (Some j)
    with Cons obtain x y where "b = x @ NL # y" "length x = j" "no_nl y" by blast
    with Some Cons.prems show ?thesis by (intro exI [of _ "c # x"] exI [of _ y]) simp
  qed
qed simp

lemma take_split: "k \<le> pos \<Longrightarrow> take pos f = take (pos - k) f @ take k (drop (pos - k) f)"
  by (metis add_diff_inverse_nat add.commute not_le take_add)

theorem last_end_loop_correct:
  "0 < chunk \<Longrightarrow> pos \<le> length f \<Longrightarrow> last_end_loop chunk f pos = cend (take pos f)"
proof (induction chunk f pos rule: last_end_loop.induct)
  case (1 chunk f pos)
  show ?case
  proof (cases "pos = 0")
    case True
    then show ?thesis by (simp add: last_end_loop.simps cend_def)
  next
    case False
    define k where "k = min chunk pos"
    define buf where "buf = take k (drop (pos - k) f)"
    have k: "k \<le> pos" by (simp add: k_def)
    have split: "take pos f = take (pos - k) f @ buf"
      unfolding buf_def by (rule take_split [OF k])
    have loop: "last_end_loop chunk f pos = (case rfind_nl buf of Some idx \<Rightarrow> pos - k + idx + 1
        | None \<Rightarrow> last_end_loop chunk f (pos - k))"
      unfolding k_def buf_def using False 1(2)
      by (simp add: last_end_loop.simps [of chunk f pos] Let_def)
    show ?thesis
    proof (cases "rfind_nl buf")
      case None
      then have "last_end_loop chunk f (pos - k) = cend (take (pos - k) f)"
        using 1(1) [OF _ refl refl refl] False 1(2,3) unfolding k_def buf_def by simp
      moreover have "no_nl buf" using None by (simp add: rfind_nl_None)
      ultimately show ?thesis by (simp add: loop None split cend_no_nl)
    next
      case (Some i)
      then obtain x y where "buf = x @ NL # y" "length x = i" "no_nl y"
        using rfind_nl_Some by blast
      then have "cend (take pos f) = pos - k + i + 1"
        using split cend_line [of y "take (pos - k) f @ x"] 1(3) by simp
      with Some show ?thesis by (simp add: loop)
    qed
  qed
qed

abbreviation nlcount :: "bytes \<Rightarrow> nat" where
  "nlcount b \<equiv> length (filter (\<lambda>c. c = NL) b)"

lemma nlcount_no_nl: "no_nl l \<Longrightarrow> nlcount l = 0"
  by (auto simp: no_nl_def filter_empty_conv)

lemma nlcount_frame: "list_all no_nl ls \<Longrightarrow> nlcount (frame ls) = length ls"
  by (induction ls) (simp_all add: nlcount_no_nl)

lemma nlcount_clines: "nlcount b = length (clines b)"
proof -
  have "nlcount b = nlcount (frame (clines b) @ ctail b)" by (simp only: frame_clines)
  also have "\<dots> = length (clines b)"
    using nlcount_frame [OF clines_all_no_nl] nlcount_no_nl [OF no_nl_ctail] by simp
  finally show ?thesis .
qed

lemma count_loop_correct:
  "0 < chunk \<Longrightarrow> count_loop chunk rest remaining count
     = count + nlcount (case remaining of None \<Rightarrow> rest | Some r \<Rightarrow> take r rest)"
proof (induction chunk rest remaining count rule: count_loop.induct)
  case (1 chunk rest remaining count)
  define k where "k = (case remaining of None \<Rightarrow> chunk | Some r \<Rightarrow> min chunk r)"
  let ?w = "case remaining of None \<Rightarrow> rest | Some r \<Rightarrow> take r rest"
  show ?case
  proof (cases "k = 0 \<or> take k rest = []")
    case True
    then have "count_loop chunk rest remaining count = count"
      by (subst count_loop.simps) (auto simp: k_def Let_def)
    moreover have "?w = []"
      using True 1(2) by (auto simp: k_def split: option.splits)
    ultimately show ?thesis by simp
  next
    case False
    let ?b = "take k rest"
    let ?m = "map_option (\<lambda>r. r - length ?b) remaining"
    have "count_loop chunk rest remaining count = count_loop chunk (drop k rest) ?m (count + nlcount ?b)"
      using False by (subst count_loop.simps) (simp add: k_def Let_def)
    also have "\<dots> = count + nlcount ?b + nlcount (case ?m of None \<Rightarrow> drop k rest | Some r \<Rightarrow> take r (drop k rest))"
      using False 1(2) by (intro 1(1) [OF k_def _ refl]) auto
    finally have total: "count_loop chunk rest remaining count
        = count + nlcount ?b + nlcount (case ?m of None \<Rightarrow> drop k rest | Some r \<Rightarrow> take r (drop k rest))" .
    have "?b @ (case ?m of None \<Rightarrow> drop k rest | Some r \<Rightarrow> take r (drop k rest)) = ?w"
    proof (cases remaining)
      case (Some r)
      then have "k \<le> r" by (simp add: k_def)
      with Some show ?thesis
        by (cases "k \<le> length rest") (simp_all add: min_def flip: take_add)
    qed (simp add: k_def)
    then have "nlcount ?b + nlcount (case ?m of None \<Rightarrow> drop k rest | Some r \<Rightarrow> take r (drop k rest))
        = nlcount ?w"
      by (metis filter_append length_append)
    with total show ?thesis by simp
  qed
qed

end
