(* ===== verification/QueueManager.thy ===== *)
theory QueueManager
  imports Files
begin

text \<open>
  The per-session operations of \<^verbatim>\<open>queue_manager.py\<close>: key validation and folding, the
  per-key guards, append, read, commit, dead-letter and the deletes.

  The manager's state is a record of the spool directory, the guard table and the two statistics
  snapshots.  A guard is an object: the table maps a key to a reference and the heap holds the
  guard's fields, so that \<^verbatim>\<open>is\<close> tests are equality of references.  Each operation returns its
  result or exception together with the state it leaves.  An operation runs to completion once it
  holds its key's locks; what interleaves are whole operations and the holders of
  \<^verbatim>\<open>append_waiter\<close>.
\<close>

section \<open>Keys\<close>

definition COMMIT_TEMP_FILENAME_SUFFIX :: str where
  "COMMIT_TEMP_FILENAME_SUFFIX = ''.offset.'' @ replicate 32 (CHR ''0'') @ ''.tmp''"

definition MAX_SESSION_ID_BYTES :: nat where
  "MAX_SESSION_ID_BYTES = NAME_MAX - length COMMIT_TEMP_FILENAME_SUFFIX"

definition MAX_SUFFIX_BYTES :: nat where
  "MAX_SUFFIX_BYTES = length ''.offset.'' + 32 + length ''.tmp''"

definition MAX_KEY_BYTES :: nat where
  "MAX_KEY_BYTES = NAME_MAX - MAX_SUFFIX_BYTES"

text \<open>A control character (category Cc): below 32, 127, or U+0080 to U+009F, which UTF-8 encodes as
  the lead byte C2 and a second byte of 80 to 9F.\<close>

fun has_control :: "nat list \<Rightarrow> bool" where
  "has_control [] = False"
| "has_control (b # bs) =
    (b < 32 \<or> b = 127
     \<or> (b = 0xC2 \<and> (case bs of [] \<Rightarrow> False | c # _ \<Rightarrow> 0x80 \<le> c \<and> c \<le> 0x9F))
     \<or> has_control bs)"

definition is_safe_session_component :: "str \<Rightarrow> bool" where
  "is_safe_session_component value =
    (if value = [] \<or> value \<in> {''.'', ''..''} \<or> CHR ''/'' \<in> set value \<or> CHR 0x5C \<in> set value
     then False
     else if \<not> utf8_valid value then False
     else \<not> has_control (map of_char value))"

definition is_safe_session_id :: "str \<Rightarrow> bool" where
  "is_safe_session_id session_id =
    (is_safe_session_component session_id \<and> length session_id \<le> MAX_SESSION_ID_BYTES)"

definition fold_worker_key :: "(str \<Rightarrow> str) \<Rightarrow> str \<Rightarrow> str" where
  "fold_worker_key sha key = fold_name sha key (int MAX_KEY_BYTES)"

definition validate_session_id :: "str \<Rightarrow> unit res" where
  "validate_session_id session_id =
    (if MAX_KEY_BYTES < length session_id then Inl ValueError
     else if \<not> is_safe_session_id session_id then Inl ValueError
     else Inr ())"

definition log_path :: "str \<Rightarrow> str" where
  "log_path session_id = session_id @ ''.log''"

definition offset_path :: "str \<Rightarrow> str" where
  "offset_path session_id = session_id @ ''.offset''"

definition dead_path :: "str \<Rightarrow> str" where
  "dead_path session_id = session_id @ ''.dead.jsonl''"

definition offset_tmp_path :: "str \<Rightarrow> str \<Rightarrow> str" where
  "offset_tmp_path session_id hex = session_id @ ''.offset.'' @ hex @ ''.tmp''"

section \<open>State\<close>

record key_guard =
  waiters :: int
  append_event :: bool
  append_generation :: nat
  deferred_removal :: bool

record spool_figures =
  pending_sessions :: int
  spool_bytes_total :: int
  corrupt_offsets :: int

record key_stats =
  ks_worker_key :: str
  ks_in_queue :: nat
  ks_dead :: nat

record all_stats =
  per_key :: "key_stats list"
  in_queue_total :: nat
  dead_total :: nat

record qm =
  files :: dir
  guards :: "nat dict"
  gheap :: "nat \<Rightarrow> key_guard"
  next_ref :: nat
  stats_cache :: "all_stats option"
  spool_cache :: "spool_figures option"

record qrecord =
  r_raw :: bytes
  r_start :: int
  r_end :: int

record batch =
  b_session :: str
  b_records :: "qrecord list"
  b_start :: int
  b_end :: int

definition batch_lines :: "batch \<Rightarrow> bytes list" where
  "batch_lines b = map r_raw (b_records b)"

section \<open>Guards\<close>

definition new_guard :: key_guard where
  "new_guard = \<lparr>waiters = 0, append_event = False, append_generation = 0, deferred_removal = False\<rparr>"

definition upd_guard :: "nat \<Rightarrow> (key_guard \<Rightarrow> key_guard) \<Rightarrow> qm \<Rightarrow> qm" where
  "upd_guard g f q = q\<lparr>gheap := (gheap q)(g := f (gheap q g))\<rparr>"

definition guard_enter :: "str \<Rightarrow> qm \<Rightarrow> nat \<times> qm" where
  "guard_enter key q =
    (case dget (guards q) key of
       Some g \<Rightarrow> (g, upd_guard g (\<lambda>kg. kg\<lparr>waiters := waiters kg + 1\<rparr>) q)
     | None \<Rightarrow>
         let g = next_ref q;
             q = q\<lparr>next_ref := g + 1, guards := dset key g (guards q), gheap := (gheap q)(g := new_guard)\<rparr>
         in (g, upd_guard g (\<lambda>kg. kg\<lparr>waiters := waiters kg + 1\<rparr>) q))"

definition guard_exit :: "str \<Rightarrow> nat \<Rightarrow> qm \<Rightarrow> qm" where
  "guard_exit key g q =
    (let q = upd_guard g (\<lambda>kg. kg\<lparr>waiters := waiters kg - 1\<rparr>) q in
     if deferred_removal (gheap q g) \<and> waiters (gheap q g) = 0 \<and> dget (guards q) key = Some g
     then q\<lparr>guards := AList.delete key (guards q)\<rparr> else q)"

definition with_guard :: "str \<Rightarrow> (nat \<Rightarrow> qm \<Rightarrow> 'a res \<times> qm) \<Rightarrow> qm \<Rightarrow> 'a res \<times> qm" where
  "with_guard key body q =
    (let (g, q) = guard_enter key q; (r, q) = body g q in (r, guard_exit key g q))"

text \<open>The append waiter of a drainer: clear-and-snapshot before a read, and the test that ends the
  wait.\<close>

definition clear_before_read :: "nat \<Rightarrow> qm \<Rightarrow> nat \<times> qm" where
  "clear_before_read g q =
    (let q = upd_guard g (\<lambda>kg. kg\<lparr>append_event := False\<rparr>) q in (append_generation (gheap q g), q))"

definition changed_since :: "nat \<Rightarrow> nat \<Rightarrow> qm \<Rightarrow> bool" where
  "changed_since g generation q = (append_generation (gheap q g) \<noteq> generation)"

section \<open>Offsets and counts\<close>

definition read_committed_offset :: "dir \<Rightarrow> str \<Rightarrow> int res" where
  "read_committed_offset d session_id =
    (case fs_read d (offset_path session_id) of
       Inl (OSError e) \<Rightarrow> if e = ENOENT then Inr 0 else Inl (OSError e)
     | Inl e \<Rightarrow> Inl e
     | Inr b \<Rightarrow>
         if \<not> utf8_valid b then Inl ValueError
         else let text = py_strip b in if text \<noteq> [] then py_int text else Inr 0)"

definition complete_data_end :: "dir \<Rightarrow> str \<Rightarrow> nat res" where
  "complete_data_end d session_id = last_complete_end d (log_path session_id)"

definition count_newlines :: "dir \<Rightarrow> str \<Rightarrow> int \<Rightarrow> int option \<Rightarrow> nat res" where
  "count_newlines d session_id start stop = stream_newlines d (log_path session_id) start stop"

definition count_dead :: "dir \<Rightarrow> str \<Rightarrow> nat res" where
  "count_dead d worker_key = stream_newlines d (dead_path worker_key) 0 None"

definition pending_in :: "dir \<Rightarrow> str \<Rightarrow> nat res" where
  "pending_in d session_id =
    bind_res (read_committed_offset d session_id) (\<lambda>committed.
    bind_res (complete_data_end d session_id) (\<lambda>complete_end.
    count_newlines d session_id committed (Some (int complete_end))))"

definition pending_count :: "str \<Rightarrow> qm \<Rightarrow> nat res" where
  "pending_count session_id q =
    bind_res (validate_session_id session_id) (\<lambda>_. pending_in (files q) session_id)"

section \<open>Append and read\<close>

definition append_queue :: "wr list \<Rightarrow> str \<Rightarrow> bytes \<Rightarrow> qm \<Rightarrow> unit res \<times> qm" where
  "append_queue sc session_id raw q =
    (case validate_session_id session_id of
       Inl e \<Rightarrow> (Inl e, q)
     | Inr _ \<Rightarrow>
         let line = (if raw \<noteq> [] \<and> last raw = NL then raw else raw @ [NL]) in
         with_guard session_id (\<lambda>g q.
           let q = upd_guard g (\<lambda>kg. kg\<lparr>deferred_removal := False\<rparr>) q;
               (r, d) = write_record sc (files q) (log_path session_id) line;
               q = q\<lparr>files := d\<rparr>
           in (r, upd_guard g (\<lambda>kg. kg\<lparr>append_generation := append_generation kg + 1, append_event := True\<rparr>) q)) q)"

fun read_loop :: "nat \<Rightarrow> int \<Rightarrow> int \<Rightarrow> bytes \<Rightarrow> qrecord list \<Rightarrow> qrecord list \<times> int" where
  "read_loop 0 start consumed rest records = (records, consumed)"
| "read_loop (Suc n) start consumed rest records =
    (let raw = readline rest in
     if raw = [] \<or> last raw \<noteq> NL then (records, consumed)
     else let rec_start = start + consumed;
              consumed = consumed + int (length raw);
              rec_end = start + consumed
          in read_loop n start consumed (drop (length raw) rest)
               (records @ [\<lparr>r_raw = butlast raw, r_start = rec_start, r_end = rec_end\<rparr>]))"

definition read_batch :: "str \<Rightarrow> int \<Rightarrow> qm \<Rightarrow> batch res" where
  "read_batch session_id max_items q =
    bind_res (validate_session_id session_id) (\<lambda>_.
    bind_res (read_committed_offset (files q) session_id) (\<lambda>start.
    case fs_read (files q) (log_path session_id) of
      Inl (OSError e) \<Rightarrow>
        if e = ENOENT then Inr \<lparr>b_session = session_id, b_records = [], b_start = start, b_end = start\<rparr>
        else Inl (OSError e)
    | Inl e \<Rightarrow> Inl e
    | Inr f \<Rightarrow>
        if start < 0 then Inl (OSError EINVAL)
        else let (records, consumed) = read_loop (nat max_items) start 0 (drop (nat start) f) []
             in Inr \<lparr>b_session = session_id, b_records = records, b_start = start,
                     b_end = start + consumed\<rparr>))"

section \<open>Commit\<close>

text \<open>What the file system does to a commit: succeed, fail writing the temporary file after some
  of its bytes, or fail the rename.\<close>

datatype commit_io = CommitOk | TmpWriteFails nat nat | ReplaceFails nat

definition cleanup_tmp :: "dir \<Rightarrow> str \<Rightarrow> dir" where
  "cleanup_tmp d tmp = (case fs_unlink d tmp of Inl _ \<Rightarrow> d | Inr d' \<Rightarrow> d')"

definition commit :: "str \<Rightarrow> commit_io \<Rightarrow> str \<Rightarrow> int \<Rightarrow> qm \<Rightarrow> unit res \<times> qm" where
  "commit hex io session_id new_offset q =
    (case validate_session_id session_id of
       Inl e \<Rightarrow> (Inl e, q)
     | Inr _ \<Rightarrow>
         let final = offset_path session_id;
             tmp = offset_tmp_path session_id hex;
             text = int_dec new_offset
         in case io of
              TmpWriteFails n e \<Rightarrow>
                (Inl (OSError e), q\<lparr>files := cleanup_tmp (dset tmp (take n text) (files q)) tmp\<rparr>)
            | _ \<Rightarrow>
                (case fs_put (files q) tmp text of
                   Inl e \<Rightarrow> (Inl e, q\<lparr>files := cleanup_tmp (files q) tmp\<rparr>)
                 | Inr d \<Rightarrow>
                     (case io of
                        ReplaceFails e \<Rightarrow> (Inl (OSError e), q\<lparr>files := cleanup_tmp d tmp\<rparr>)
                      | _ \<Rightarrow>
                          (case fs_replace d tmp final of
                             Inl e \<Rightarrow> (Inl e, q\<lparr>files := cleanup_tmp d tmp\<rparr>)
                           | Inr d \<Rightarrow> (Inr (), q\<lparr>files := d\<rparr>)))))"

section \<open>Dead letters\<close>

text \<open>The record written for a line: \<^verbatim>\<open>ts\<close> is the clock reading and \<^verbatim>\<open>b64\<close> the base 64
  encoder.\<close>

definition dead_record :: "(bytes \<Rightarrow> str) \<Rightarrow> pyval \<Rightarrow> bytes \<Rightarrow> str \<Rightarrow> pyval" where
  "dead_record b64 ts raw error =
    (let payload = (if raw \<noteq> [] \<and> last raw = NL then butlast raw else raw)
     in PDict ([(''ts'', ts), (''error'', PStr error)]
          @ (if utf8_valid payload then [(''payload'', PStr payload)]
             else [(''payload_b64'', PStr (b64 payload))])))"

definition dead_letter ::
  "(pyval \<Rightarrow> str) \<Rightarrow> (bytes \<Rightarrow> str) \<Rightarrow> pyval \<Rightarrow> wr list \<Rightarrow> str \<Rightarrow> bytes \<Rightarrow> str \<Rightarrow> qm \<Rightarrow> unit res \<times> qm" where
  "dead_letter dumps b64 ts sc session_id raw error q =
    (case validate_session_id session_id of
       Inl e \<Rightarrow> (Inl e, q)
     | Inr _ \<Rightarrow>
         let line = dumps (dead_record b64 ts raw error) @ [NL] in
         with_guard session_id (\<lambda>g q.
           let (r, d) = write_record sc (files q) (dead_path session_id) line
           in (r, q\<lparr>files := d\<rparr>)) q)"

section \<open>Deletes\<close>

definition delete_drained :: "str \<Rightarrow> qm \<Rightarrow> bool res \<times> qm" where
  "delete_drained session_id q =
    (case validate_session_id session_id of
       Inl e \<Rightarrow> (Inl e, q)
     | Inr _ \<Rightarrow>
         with_guard session_id (\<lambda>g q.
           let log = log_path session_id;
               offset = offset_path session_id;
               (r, d) =
                 (case fs_read (files q) log of
                    Inl (OSError e) \<Rightarrow>
                      if e = ENOENT then
                        (case unlink_missing_ok (files q) offset of
                           Inl e \<Rightarrow> (Inl e, files q)
                         | Inr d \<Rightarrow> (Inr True, d))
                      else (Inl (OSError e), files q)
                  | Inl e \<Rightarrow> (Inl e, files q)
                  | Inr f \<Rightarrow>
                      (case read_committed_offset (files q) session_id of
                         Inl e \<Rightarrow> (Inl e, files q)
                       | Inr committed \<Rightarrow>
                           if committed < int (length f) then (Inr False, files q)
                           else (case unlink_missing_ok (files q) log of
                                   Inl e \<Rightarrow> (Inl e, files q)
                                 | Inr d \<Rightarrow>
                                     (case unlink_missing_ok d offset of
                                        Inl e \<Rightarrow> (Inl e, d)
                                      | Inr d \<Rightarrow> (Inr True, d)))));
               q = q\<lparr>files := d\<rparr>
           in (r, if r = Inr True then upd_guard g (\<lambda>kg. kg\<lparr>deferred_removal := True\<rparr>) q else q)) q)"

fun unlink_each :: "str list \<Rightarrow> bool \<Rightarrow> dir \<Rightarrow> bool res \<times> dir" where
  "unlink_each [] removed d = (Inr removed, d)"
| "unlink_each (p # ps) removed d =
    (case fs_unlink d p of
       Inr d \<Rightarrow> unlink_each ps True d
     | Inl (OSError e) \<Rightarrow> if e = ENOENT then unlink_each ps removed d else (Inl (OSError e), d)
     | Inl e \<Rightarrow> (Inl e, d))"

definition delete_session :: "str \<Rightarrow> qm \<Rightarrow> bool res \<times> qm" where
  "delete_session session_id q =
    (case validate_session_id session_id of
       Inl e \<Rightarrow> (Inl e, q)
     | Inr _ \<Rightarrow>
         with_guard session_id (\<lambda>g q.
           let (r, d) =
                 (case pending_in (files q) session_id of
                    Inl e \<Rightarrow> (Inl e, files q)
                  | Inr pending \<Rightarrow>
                      if pending \<noteq> 0 then (Inl RuntimeError, files q)
                      else unlink_each [log_path session_id, offset_path session_id, dead_path session_id]
                             False (files q));
               q = q\<lparr>files := d\<rparr>
           in (r, case r of Inr _ \<Rightarrow> upd_guard g (\<lambda>kg. kg\<lparr>deferred_removal := True\<rparr>) q | Inl _ \<Rightarrow> q)) q)"

definition purge_dead_letters :: "str \<Rightarrow> qm \<Rightarrow> nat res \<times> qm" where
  "purge_dead_letters worker_key q =
    (case validate_session_id worker_key of
       Inl e \<Rightarrow> (Inl e, q)
     | Inr _ \<Rightarrow>
         with_guard worker_key (\<lambda>g q.
           case count_dead (files q) worker_key of
             Inl e \<Rightarrow> (Inl e, q)
           | Inr count \<Rightarrow>
               (case unlink_missing_ok (files q) (dead_path worker_key) of
                  Inl e \<Rightarrow> (Inl e, q)
                | Inr d \<Rightarrow> (Inr count, q\<lparr>files := d\<rparr>))) q)"

section \<open>Paths and guards do not interfere\<close>

lemmas path_defs = log_path_def offset_path_def dead_path_def offset_tmp_path_def

lemma append_last_neq: "x \<noteq> [] \<Longrightarrow> y \<noteq> [] \<Longrightarrow> last x \<noteq> last y \<Longrightarrow> a @ x \<noteq> b @ y"
  by (metis last_appendR)

lemma paths_distinct [simp]:
  "log_path k \<noteq> offset_path k'" "offset_path k \<noteq> log_path k'"
  "log_path k \<noteq> dead_path k'" "dead_path k \<noteq> log_path k'"
  "log_path k \<noteq> offset_tmp_path k' h" "offset_tmp_path k h \<noteq> log_path k'"
  "offset_path k \<noteq> dead_path k'" "dead_path k \<noteq> offset_path k'"
  "offset_path k \<noteq> offset_tmp_path k' h" "offset_tmp_path k h \<noteq> offset_path k'"
  "dead_path k \<noteq> offset_tmp_path k' h" "offset_tmp_path k h \<noteq> dead_path k'"
  unfolding path_defs append.assoc [symmetric] by (rule append_last_neq; simp)+

lemma paths_inject [simp]:
  "log_path k = log_path k' \<longleftrightarrow> k = k'"
  "offset_path k = offset_path k' \<longleftrightarrow> k = k'"
  "dead_path k = dead_path k' \<longleftrightarrow> k = k'"
  by (simp_all add: path_defs)

lemma valid_key_length: "validate_session_id k = Inr () \<Longrightarrow> length k \<le> 211"
  by (simp add: validate_session_id_def MAX_KEY_BYTES_def MAX_SUFFIX_BYTES_def NAME_MAX_def
      split: if_splits)

lemma path_fits [simp]:
  assumes "validate_session_id k = Inr ()"
  shows "\<not> NAME_MAX < length (log_path k)" "\<not> NAME_MAX < length (offset_path k)"
    "\<not> NAME_MAX < length (dead_path k)"
    "length h = 32 \<Longrightarrow> \<not> NAME_MAX < length (offset_tmp_path k h)"
  using valid_key_length [OF assms] by (simp_all add: path_defs NAME_MAX_def)

lemma files_upd_guard [simp]: "files (upd_guard g f q) = files q"
  by (simp add: upd_guard_def)

lemma files_guard_enter [simp]: "files (snd (guard_enter k q)) = files q"
  by (simp add: guard_enter_def Let_def split: option.splits)

lemma files_guard_exit [simp]: "files (guard_exit k g q) = files q"
  by (simp add: guard_exit_def Let_def)

text \<open>An operation under the guard sees and leaves the directory as its body does.\<close>

definition outcome :: "'a res \<times> qm \<Rightarrow> 'a res \<times> dir" where
  "outcome rq = (fst rq, files (snd rq))"

lemma outcome_with_guard:
  assumes "\<And>g q. outcome (body g q) = W (files q)"
  shows "outcome (with_guard k body q) = W (files q)"
proof -
  obtain g q1 where e: "guard_enter k q = (g, q1)" by (cases "guard_enter k q")
  obtain r q2 where b: "body g q1 = (r, q2)" by (cases "body g q1")
  have "files q1 = files q" using files_guard_enter [of k q] e by simp
  then show ?thesis
    using assms [of g q1] by (simp add: with_guard_def outcome_def e b)
qed

section \<open>Writes\<close>

lemma write_all_cases:
  "write_all sc f data = (r, f', sc') \<Longrightarrow>
     (r = Inr () \<and> f' = f @ data) \<or> (\<exists>e p s. r = Inl (OSError e) \<and> data = p @ s \<and> s \<noteq> [] \<and> f' = f @ p)"
proof (induction sc f data arbitrary: r f' sc' rule: write_all.induct)
  case (4 n sc f c cs)
  show ?case
  proof (cases "n = 0")
    case True
    then have "r = Inl (OSError 0) \<and> c # cs = [] @ c # cs \<and> c # cs \<noteq> [] \<and> f' = f @ []"
      using 4 by simp
    then show ?thesis by blast
  next
    case False
    let ?d = "c # cs"
    from 4(1) [OF False] 4(2) False
    consider "r = Inr () \<and> f' = (f @ take n ?d) @ drop n ?d"
      | e p s where "r = Inl (OSError e)" "drop n ?d = p @ s" "s \<noteq> []" "f' = (f @ take n ?d) @ p"
      by (metis write_all.simps(4))
    then show ?thesis
    proof cases
      case 1
      then have "r = Inr () \<and> f' = f @ ?d" by (metis append.assoc append_take_drop_id)
      then show ?thesis by blast
    next
      case 2
      have "?d = (take n ?d @ p) @ s" using 2(2) by (metis append.assoc append_take_drop_id)
      with 2 have "r = Inl (OSError e) \<and> ?d = (take n ?d @ p) @ s \<and> s \<noteq> [] \<and> f' = f @ (take n ?d @ p)"
        by simp
      then show ?thesis by blast
    qed
  qed
qed (auto intro: exI [of _ "[]"])

lemma discard_partial_cases: "discard_partial sc f = f \<or> discard_partial sc f = f @ [NL]"
proof -
  obtain r f' sc' where w: "write_all sc f [NL] = (r, f', sc')" by (cases "write_all sc f [NL]")
  from write_all_cases [OF w] have "f' = f \<or> f' = f @ [NL]"
    by (auto simp: Cons_eq_append_conv)
  with w show ?thesis by (simp add: discard_partial_def)
qed

definition file_of :: "dir \<Rightarrow> str \<Rightarrow> bytes" where
  "file_of d path = (case dget d path of None \<Rightarrow> [] | Some b \<Rightarrow> b)"

lemma file_of_dset [simp]: "file_of (dset p b d) p' = (if p' = p then b else file_of d p')"
  by (simp add: file_of_def)

text \<open>A record write either appends the whole line, or raises and leaves a proper prefix of it,
  newline-terminated when the device still takes a byte.\<close>

lemma write_record_cases:
  assumes "write_record sc d path line = (r, d')" and "\<not> NAME_MAX < length path"
  obtains (written) "r = Inr ()" "d' = dset path (file_of d path @ line) d"
  | (torn) e p s where "r = Inl (OSError e)" "line = p @ s" "s \<noteq> []"
      "d' = dset path (file_of d path @ p) d \<or> d' = dset path (file_of d path @ p @ [NL]) d"
proof -
  obtain w f' sc' where w: "write_all sc (file_of d path) line = (w, f', sc')"
    by (cases "write_all sc (file_of d path) line")
  then have wr: "write_record sc d path line = (case w of Inr _ \<Rightarrow> (Inr (), dset path f' d)
      | Inl e \<Rightarrow> (Inl e, dset path (discard_partial sc' f') d))"
    using assms(2) by (simp add: write_record_def file_of_def Let_def split: sum.splits)
  from write_all_cases [OF w] show ?thesis
  proof (elim disjE exE conjE)
    assume "w = Inr ()" "f' = file_of d path @ line"
    with wr assms(1) written show ?thesis by simp
  next
    fix e p s
    assume "w = Inl (OSError e)" "line = p @ s" "s \<noteq> []" "f' = file_of d path @ p"
    with wr assms(1) discard_partial_cases [of sc' f'] torn show ?thesis by auto
  qed
qed

end
