(* ===== verification/QueueSpec.thy ===== *)
theory QueueSpec
  imports QueueManager
begin

text \<open>
  What the queue promises its clients.  The abstract state of a key is the list of its complete
  uncommitted records; append adds at the end, a read returns a prefix with the byte cursors of
  its records, and committing a record's end cursor drops the records up to it.  The locale
  \<^verbatim>\<open>durable_queue\<close> states this contract; it is interpreted on the file-level operations.
\<close>

section \<open>The abstract view of a key\<close>

definition log_of :: "dir \<Rightarrow> str \<Rightarrow> bytes" where
  "log_of d k = file_of d (log_path k)"

definition offset_of :: "dir \<Rightarrow> str \<Rightarrow> nat" where
  "offset_of d k = (case read_committed_offset d k of Inr i \<Rightarrow> nat i | Inl _ \<Rightarrow> 0)"

definition pending :: "dir \<Rightarrow> str \<Rightarrow> bytes list" where
  "pending d k = clines (drop (offset_of d k) (log_of d k))"

text \<open>A key is in order when its name is valid and its offset file holds a line boundary of its
  log.\<close>

definition key_ok :: "dir \<Rightarrow> str \<Rightarrow> bool" where
  "key_ok d k = (validate_session_id k = Inr ()
     \<and> read_committed_offset d k = Inr (int (offset_of d k))
     \<and> offset_of d k < 10 ^ INT_MAX_STR_DIGITS
     \<and> (\<exists>ls. frame ls = take (offset_of d k) (log_of d k) \<and> list_all no_nl ls)
     \<and> offset_of d k \<le> length (log_of d k))"

lemma key_okE:
  assumes "key_ok d k"
  obtains ls where "validate_session_id k = Inr ()"
    and "read_committed_offset d k = Inr (int (length (frame ls)))"
    and "offset_of d k = length (frame ls)" and "list_all no_nl ls"
    and "log_of d k = frame ls @ frame (pending d k) @ ctail (log_of d k)"
    and "clines (log_of d k) = ls @ pending d k"
    and "drop (offset_of d k) (log_of d k) = frame (pending d k) @ ctail (log_of d k)"
proof -
  from assms obtain ls where ls: "frame ls = take (offset_of d k) (log_of d k)" "list_all no_nl ls"
    and le: "offset_of d k \<le> length (log_of d k)"
    by (auto simp: key_ok_def)
  then have off: "offset_of d k = length (frame ls)" by simp
  define rest where "rest = drop (offset_of d k) (log_of d k)"
  have log: "log_of d k = frame ls @ rest" unfolding rest_def ls(1) by simp
  have tail: "ctail (log_of d k) = ctail rest" unfolding log by (rule ctail_frame [OF ls(2)])
  have lines: "clines (log_of d k) = ls @ pending d k"
    using clines_frame [OF ls(2), of rest] by (simp add: pending_def rest_def [symmetric] log [symmetric])
  have rest: "rest = frame (pending d k) @ ctail (log_of d k)"
    unfolding tail pending_def rest_def [symmetric] by (simp add: frame_clines)
  show ?thesis
    using that [of ls] assms off ls(2) log lines rest unfolding key_ok_def rest_def by simp
qed

lemma pending_no_nl: "list_all no_nl (pending d k)"
  by (simp add: pending_def clines_all_no_nl)

section \<open>Reading\<close>

lemma readline_line: "no_nl l \<Longrightarrow> readline (l @ NL # r) = l @ [NL]"
  unfolding readline_def no_nl_def
  by (subst takeWhile_append2, force, subst dropWhile_append2, force) simp

lemma readline_tail: "no_nl l \<Longrightarrow> readline l = l"
  by (induction l) (auto simp: readline_def)

lemma readline_Nil [simp]: "readline [] = []"
  by (simp add: readline_def)

lemma readline_progress: "readline r \<noteq> [] \<Longrightarrow> length r - length (readline r) < length r"
  by (cases r) auto

fun cursors :: "int \<Rightarrow> bytes list \<Rightarrow> qrecord list" where
  "cursors pos [] = []"
| "cursors pos (l # ls) =
    \<lparr>r_raw = l, r_start = pos, r_end = pos + int (length l) + 1\<rparr>
    # cursors (pos + int (length l) + 1) ls"

lemma map_raw_cursors [simp]: "map r_raw (cursors pos ls) = ls"
  by (induction ls arbitrary: pos) auto

lemma length_cursors [simp]: "length (cursors pos ls) = length ls"
  by (induction ls arbitrary: pos) auto

lemma cursors_nth_end:
  "i < length ls \<Longrightarrow> r_end (cursors pos ls ! i) = pos + int (length (frame (take (Suc i) ls)))"
proof (induction ls arbitrary: pos i)
  case (Cons l ls)
  then show ?case by (cases i) auto
qed simp

lemma read_loop_frame:
  "list_all no_nl ls \<Longrightarrow> no_nl t \<Longrightarrow>
   read_loop n start consumed (frame ls @ t) acc
     = (acc @ cursors (start + consumed) (take n ls), consumed + int (length (frame (take n ls))))"
proof (induction n arbitrary: ls consumed acc)
  case (Suc n)
  show ?case
  proof (cases ls)
    case Nil
    have "t = [] \<or> last t \<noteq> NL" using Suc.prems(2) by (metis last_in_set no_nl_def)
    with Nil Suc.prems show ?thesis by (auto simp: readline_tail)
  next
    case (Cons l ls')
    with Suc.prems have l: "no_nl l" "list_all no_nl ls'" by simp_all
    have "readline (frame ls @ t) = l @ [NL]"
      using readline_line [OF l(1), of "frame ls' @ t"] Cons by simp
    with Suc.IH [OF l(2) Suc.prems(2)] Cons show ?thesis
      by (simp add: Let_def algebra_simps)
  qed
qed simp

lemma read_batch_ok:
  assumes "key_ok (files q) k"
  shows "read_batch k n q = Inr \<lparr>b_session = k,
      b_records = cursors (int (offset_of (files q) k)) (take (nat n) (pending (files q) k)),
      b_start = int (offset_of (files q) k),
      b_end = int (offset_of (files q) k) + int (length (frame (take (nat n) (pending (files q) k))))\<rparr>"
proof (cases "dget (files q) (log_path k)")
  case None
  then have "pending (files q) k = []" by (simp add: pending_def log_of_def file_of_def)
  with None assms show ?thesis
    by (simp add: key_ok_def read_batch_def fs_read_def)
next
  case (Some f)
  then have f: "f = log_of (files q) k" by (simp add: log_of_def file_of_def)
  from assms obtain ls where "validate_session_id k = Inr ()"
    "read_committed_offset (files q) k = Inr (int (offset_of (files q) k))"
    "drop (offset_of (files q) k) f = frame (pending (files q) k) @ ctail f"
    by (rule key_okE) (simp add: f)
  with Some show ?thesis
    by (simp add: read_batch_def fs_read_def read_loop_frame pending_no_nl)
qed

section \<open>Offsets round trip\<close>

lemma strip_front_digit:
  assumes "list_all (\<lambda>w. w = [] \<or> \<not> is_digit (hd w)) ws" and "is_digit (hd s)" and "s \<noteq> []"
  shows "strip_front ws s = s"
proof -
  have "\<not> (w \<noteq> [] \<and> starts_with w s)" if "w \<in> set ws" for w
    using assms that by (cases s; cases w) (auto simp: starts_with_def list_all_iff)
  then have "find (\<lambda>w. w \<noteq> [] \<and> starts_with w s) ws = None" by (auto simp: find_None_iff)
  then show ?thesis by (subst strip_front.simps) simp
qed

lemma ws_chars_no_digit:
  "list_all (\<lambda>w. w = [] \<or> \<not> is_digit (hd w)) ws_chars"
  "list_all (\<lambda>w. w = [] \<or> \<not> is_digit (hd w)) (map rev ws_chars)"
  by (simp_all add: ws_chars_def is_digit_def)

lemma py_strip_nat_dec: "py_strip (nat_dec n) = nat_dec n"
proof -
  have "is_digit (hd (nat_dec n))" "is_digit (hd (rev (nat_dec n)))"
    using nat_dec_digits [of n] by (auto simp: list_all_iff hd_rev)
  then show ?thesis
    by (simp add: py_strip_def strip_front_digit ws_chars_no_digit)
qed

lemma utf8_valid_nat_dec: "utf8_valid (nat_dec n)"
  using nat_dec_digits [of n] by (intro utf8_valid_ascii) (auto simp: list_all_iff is_digit_def)

lemma read_offset_dset:
  assumes "validate_session_id k = Inr ()" and "n < 10 ^ INT_MAX_STR_DIGITS"
    and "dget d (offset_path k) = Some (int_dec (int n))"
  shows "read_committed_offset d k = Inr (int n)"
  using assms
  by (simp add: read_committed_offset_def fs_read_def int_dec_def utf8_valid_nat_dec
      py_strip_nat_dec py_int_nat_dec Let_def)

lemma read_offset_cong:
  "dget d' (offset_path k) = dget d (offset_path k) \<Longrightarrow> read_committed_offset d' k = read_committed_offset d k"
  by (simp add: read_committed_offset_def fs_read_def)

lemma offset_of_cong:
  "dget d' (offset_path k) = dget d (offset_path k) \<Longrightarrow> offset_of d' k = offset_of d k"
  by (simp add: offset_of_def read_offset_cong [of d' k d])

lemma log_of_cong: "dget d' (log_path k) = dget d (log_path k) \<Longrightarrow> log_of d' k = log_of d k"
  by (simp add: log_of_def file_of_def)

lemma pending_cong:
  "dget d' (offset_path k) = dget d (offset_path k) \<Longrightarrow> dget d' (log_path k) = dget d (log_path k)
   \<Longrightarrow> pending d' k = pending d k"
  by (simp add: pending_def offset_of_cong [of d' k d] log_of_cong [of d' k d])

lemma key_ok_cong:
  "dget d' (offset_path k) = dget d (offset_path k) \<Longrightarrow> dget d' (log_path k) = dget d (log_path k)
   \<Longrightarrow> key_ok d' k = key_ok d k"
  by (simp add: key_ok_def offset_of_cong [of d' k d] log_of_cong [of d' k d] read_offset_cong [of d' k d])

section \<open>Commit\<close>

lemma dget_delete [simp]: "map_of (AList.delete k d) k' = (if k' = k then None else map_of d k')"
  by (simp add: delete_conv')

lemma commit_cases:
  assumes "validate_session_id k = Inr ()" and "length hex = 32"
    and "commit hex io k new q = (r, q')"
  obtains (acked) "r = Inr ()" "io = CommitOk"
      "dget (files q') (offset_path k) = Some (int_dec new)"
      "dget (files q') (offset_tmp_path k hex) = None"
      "\<And>p. p \<noteq> offset_path k \<Longrightarrow> p \<noteq> offset_tmp_path k hex \<Longrightarrow> dget (files q') p = dget (files q) p"
  | (failed) e where "r = Inl (OSError e)" "dget (files q') (offset_tmp_path k hex) = None"
      "\<And>p. p \<noteq> offset_tmp_path k hex \<Longrightarrow> dget (files q') p = dget (files q) p"
proof (cases io)
  case CommitOk
  with assms acked show ?thesis
    by (auto simp: commit_def fs_put_def fs_replace_def Let_def)
next
  case (TmpWriteFails n e)
  with assms failed show ?thesis
    by (auto simp: commit_def cleanup_tmp_def fs_unlink_def Let_def)
next
  case (ReplaceFails e)
  with assms failed show ?thesis
    by (auto simp: commit_def fs_put_def cleanup_tmp_def fs_unlink_def Let_def)
qed

lemma commit_record:
  assumes ok: "key_ok (files q) k" and "length hex = 32" and i: "i \<le> length (pending (files q) k)"
    and new: "new = int (offset_of (files q) k) + int (length (frame (take i (pending (files q) k))))"
    and fits: "new < 10 ^ INT_MAX_STR_DIGITS"
    and c: "commit hex io k new q = (Inr (), q')"
  shows "key_ok (files q') k" and "pending (files q') k = drop i (pending (files q) k)"
    and "int (offset_of (files q') k) = new"
proof -
  let ?P = "pending (files q) k"
  from ok obtain ls where v: "validate_session_id k = Inr ()"
    and off: "offset_of (files q) k = length (frame ls)" and ls: "list_all no_nl ls"
    and log: "log_of (files q) k = frame ls @ frame ?P @ ctail (log_of (files q) k)"
    by (rule key_okE)
  define n where "n = length (frame (ls @ take i ?P))"
  have n: "new = int n" using new off by (simp add: n_def)
  have nfits: "n < 10 ^ INT_MAX_STR_DIGITS"
    using fits n by (metis of_nat_less_iff of_nat_numeral of_nat_power)
  have "dget (files q') (offset_path k) = Some (int_dec new)
      \<and> dget (files q') (log_path k) = dget (files q) (log_path k)"
    by (cases rule: commit_cases [OF v assms(2) c]) simp_all
  then have o': "dget (files q') (offset_path k) = Some (int_dec new)"
    and l': "dget (files q') (log_path k) = dget (files q) (log_path k)" by simp_all
  have rd: "read_committed_offset (files q') k = Inr (int n)"
    using read_offset_dset [OF v nfits] o' n by simp
  then have off': "offset_of (files q') k = n" by (simp add: offset_of_def)
  then show "int (offset_of (files q') k) = new" by (simp add: n)
  have lg: "log_of (files q') k = log_of (files q) k" by (rule log_of_cong [OF l'])
  have P: "?P = take i ?P @ drop i ?P" by simp
  have split: "log_of (files q) k = frame (ls @ take i ?P) @ frame (drop i ?P) @ ctail (log_of (files q) k)"
    using log P by (metis append.assoc frame_simps(3))
  have dr: "drop n (log_of (files q) k) = frame (drop i ?P) @ ctail (log_of (files q) k)"
    unfolding n_def by (subst split) simp
  have tk: "take n (log_of (files q) k) = frame (ls @ take i ?P)"
    unfolding n_def by (subst split) simp
  have nonl: "list_all no_nl (drop i ?P)" "list_all no_nl (take i ?P)"
    using pending_no_nl [of "files q" k] by (auto simp: list_all_iff dest: in_set_dropD in_set_takeD)
  have "pending (files q') k = clines (drop n (log_of (files q) k))"
    by (simp add: pending_def [of "files q'"] off' lg)
  then show "pending (files q') k = drop i ?P"
    unfolding dr by (simp add: clines_frame nonl)
  have "n \<le> length (log_of (files q) k)" unfolding n_def by (subst split) simp
  then show "key_ok (files q') k"
    using v rd nfits tk ls nonl unfolding key_ok_def off' lg
    by (auto intro!: exI [of _ "ls @ take i ?P"])
qed

section \<open>Append\<close>

abbreviation rec_line :: "bytes \<Rightarrow> bytes" where
  "rec_line raw \<equiv> (if raw \<noteq> [] \<and> last raw = NL then raw else raw @ [NL])"

lemma append_queue_outcome:
  assumes "validate_session_id k = Inr ()"
  shows "outcome (append_queue sc k raw q) = write_record sc (files q) (log_path k) (rec_line raw)"
  unfolding append_queue_def assms sum.case Let_def
  by (rule outcome_with_guard [where W = "\<lambda>d. write_record sc d (log_path k) (rec_line raw)"])
    (simp add: outcome_def split: prod.splits)

lemma rec_line_no_nl: "no_nl raw \<Longrightarrow> rec_line raw = raw @ [NL]"
  by (auto simp: no_nl_def dest: last_in_set)

text \<open>Whatever the device does to an append, every complete line that was in the log stays where
  it was, no other file changes, and a success adds exactly one line.\<close>

lemma append_queue_cases:
  assumes "validate_session_id k = Inr ()" and "no_nl raw" and "append_queue sc k raw q = (r, q')"
  obtains (stored) "r = Inr ()" "log_of (files q') k = log_of (files q) k @ raw @ [NL]"
      "\<And>p. p \<noteq> log_path k \<Longrightarrow> dget (files q') p = dget (files q) p"
  | (torn) e p s where "r = Inl (OSError e)" "raw @ [NL] = p @ s" "s \<noteq> []"
      "log_of (files q') k = log_of (files q) k @ p \<or> log_of (files q') k = log_of (files q) k @ p @ [NL]"
      "\<And>p. p \<noteq> log_path k \<Longrightarrow> dget (files q') p = dget (files q) p"
proof -
  have w: "write_record sc (files q) (log_path k) (raw @ [NL]) = (r, files q')"
    using append_queue_outcome [OF assms(1), of sc raw q] assms(3)
    unfolding rec_line_no_nl [OF assms(2)] by (simp add: outcome_def)
  from w path_fits(1) [OF assms(1)] show ?thesis
  proof (cases rule: write_record_cases)
    case written
    then show ?thesis using stored by (simp add: log_of_def)
  next
    case (torn e p s)
    then show ?thesis using that(2) [of e p s] by (auto simp: log_of_def)
  qed
qed

lemma append_extends:
  assumes ok: "key_ok d k" and o: "dget d' (offset_path k) = dget d (offset_path k)"
    and l: "log_of d' k = log_of d k @ x"
  shows "key_ok d' k" and "pending d' k = pending d k @ clines (ctail (log_of d k) @ x)"
proof -
  have off: "offset_of d' k = offset_of d k" by (rule offset_of_cong [OF o])
  have le: "offset_of d k \<le> length (log_of d k)" using ok by (simp add: key_ok_def)
  show "key_ok d' k"
    using ok le by (simp add: key_ok_def off l read_offset_cong [OF o])
  have dr: "drop (offset_of d k) (log_of d k) = frame (pending d k) @ ctail (log_of d k)"
    using ok by (rule key_okE)
  have "pending d' k = clines (drop (offset_of d k) (log_of d k) @ x)"
    using le by (simp add: pending_def [of d'] off l)
  then show "pending d' k = pending d k @ clines (ctail (log_of d k) @ x)"
    unfolding dr by (simp add: clines_frame pending_no_nl)
qed

section \<open>The contract\<close>

text \<open>A queue per key whose records are delivered in order and stay until they are acknowledged.
  \<^verbatim>\<open>enq\<close> and \<^verbatim>\<open>ack\<close> return nothing where the operation raised.\<close>

locale durable_queue =
  fixes ok :: "'q \<Rightarrow> 'k \<Rightarrow> bool"
    and record_ok :: "'r \<Rightarrow> bool"
    and pend :: "'q \<Rightarrow> 'k \<Rightarrow> 'r list"
    and enq :: "'k \<Rightarrow> 'r \<Rightarrow> 'q \<Rightarrow> 'q option"
    and peek :: "'k \<Rightarrow> nat \<Rightarrow> 'q \<Rightarrow> ('r \<times> 'c) list"
    and ack :: "'k \<Rightarrow> 'c \<Rightarrow> 'q \<Rightarrow> 'q option"
  assumes enq_pend: "ok q k \<Longrightarrow> record_ok r \<Longrightarrow> enq k r q = Some q' \<Longrightarrow>
      ok q' k \<and> pend q' k = pend q k @ [r]"
    and enq_other: "ok q k \<Longrightarrow> record_ok r \<Longrightarrow> enq k r q = Some q' \<Longrightarrow> k' \<noteq> k \<Longrightarrow>
      ok q' k' = ok q k' \<and> pend q' k' = pend q k'"
    and peek_pend: "ok q k \<Longrightarrow> map fst (peek k n q) = take n (pend q k)"
    and ack_pend: "ok q k \<Longrightarrow> i < length (peek k n q) \<Longrightarrow> ack k (snd (peek k n q ! i)) q = Some q' \<Longrightarrow>
      ok q' k \<and> pend q' k = drop (Suc i) (pend q k)"
    and ack_other: "ok q k \<Longrightarrow> i < length (peek k n q) \<Longrightarrow> ack k (snd (peek k n q ! i)) q = Some q' \<Longrightarrow>
      k' \<noteq> k \<Longrightarrow> ok q' k' = ok q k' \<and> pend q' k' = pend q k'"
begin

text \<open>A run of a drainer that acknowledges the last record of each batch it reads: the batches
  it delivered and the state it leaves.  It stops when a batch is empty or an acknowledgement
  fails.\<close>

fun drain_run :: "nat \<Rightarrow> 'k \<Rightarrow> nat \<Rightarrow> 'q \<Rightarrow> 'r list list \<times> 'q" where
  "drain_run 0 k n q = ([], q)"
| "drain_run (Suc m) k n q =
    (let b = peek k n q in
     if b = [] then ([], q)
     else case ack k (snd (last b)) q of
            None \<Rightarrow> ([], q)
          | Some q' \<Rightarrow> let (bs, q'') = drain_run m k n q' in (map fst b # bs, q''))"

lemma ack_last:
  assumes "ok q k" and "peek k n q \<noteq> []" and "ack k (snd (last (peek k n q))) q = Some q'"
  shows "ok q' k \<and> pend q k = map fst (peek k n q) @ pend q' k"
proof -
  let ?b = "peek k n q"
  have i: "length ?b - 1 < length ?b" using assms(2) by (cases ?b) auto
  have "ok q' k \<and> pend q' k = drop (Suc (length ?b - 1)) (pend q k)"
    using ack_pend [OF assms(1) i] assms(2,3) by (simp add: last_conv_nth)
  moreover have len: "length ?b = min (length (pend q k)) n"
    using peek_pend [OF assms(1), of n] by (metis length_map length_take)
  moreover have "Suc (length ?b - 1) = length ?b" using i by simp
  moreover have "drop (length ?b) (pend q k) = drop n (pend q k)" by (simp add: len min_def)
  ultimately show ?thesis using peek_pend [OF assms(1), of n] by simp
qed

text \<open>What was delivered and what is left make up what was pending, in order.\<close>

lemma drain_run_fifo:
  "ok q k \<Longrightarrow> drain_run m k n q = (bs, q') \<Longrightarrow> ok q' k \<and> pend q k = concat bs @ pend q' k"
proof (induction m arbitrary: q bs q')
  case (Suc m)
  show ?case
  proof (cases "peek k n q = []")
    case True
    with Suc.prems show ?thesis by simp
  next
    case False
    show ?thesis
    proof (cases "ack k (snd (last (peek k n q))) q")
      case None
      with Suc.prems False show ?thesis by simp
    next
      case (Some q1)
      obtain bs1 q2 where r: "drain_run m k n q1 = (bs1, q2)" by (cases "drain_run m k n q1")
      from ack_last [OF Suc.prems(1) False Some] Suc.IH [OF _ r] Suc.prems(2) False Some r
      show ?thesis by auto
    qed
  qed
qed simp

text \<open>If no acknowledgement fails, the queue is empty after as many rounds as there are records.\<close>

lemma drain_run_empties:
  assumes "\<And>q c. ok q k \<Longrightarrow> ack k c q \<noteq> None" and "0 < n"
  shows "ok q k \<Longrightarrow> length (pend q k) \<le> m \<Longrightarrow> pend (snd (drain_run m k n q)) k = []"
proof (induction m arbitrary: q)
  case (Suc m)
  show ?case
  proof (cases "peek k n q = []")
    case True
    then have "take n (pend q k) = []" using peek_pend [OF Suc.prems(1), of n] by simp
    with \<open>0 < n\<close> True show ?thesis by simp
  next
    case False
    obtain q1 where a: "ack k (snd (last (peek k n q))) q = Some q1"
      using assms(1) [OF Suc.prems(1)] by blast
    from ack_last [OF Suc.prems(1) False a]
    have q1: "ok q1 k" "pend q k = map fst (peek k n q) @ pend q1 k" by simp_all
    then have "length (pend q1 k) \<le> m"
      using Suc.prems(2) False by (cases "peek k n q") auto
    with Suc.IH [OF q1(1)] False a show ?thesis by (auto split: prod.splits)
  qed
qed simp

end

section \<open>The file-level queue meets the contract\<close>

text \<open>The operations as the client sees them.  The device script, the temporary name and the fate of
  the commit are arbitrary; an acknowledgement is of a position that fits the integer parser.\<close>

definition fq_ok :: "qm \<Rightarrow> str \<Rightarrow> bool" where
  "fq_ok q k = (key_ok (files q) k \<and> ctail (log_of (files q) k) = [])"

definition fq_pend :: "qm \<Rightarrow> str \<Rightarrow> bytes list" where
  "fq_pend q k = pending (files q) k"

definition fq_enq :: "wr list \<Rightarrow> str \<Rightarrow> bytes \<Rightarrow> qm \<Rightarrow> qm option" where
  "fq_enq sc k raw q = (case append_queue sc k raw q of (Inr _, q') \<Rightarrow> Some q' | _ \<Rightarrow> None)"

definition fq_peek :: "str \<Rightarrow> nat \<Rightarrow> qm \<Rightarrow> (bytes \<times> int) list" where
  "fq_peek k n q = (case read_batch k (int n) q of
     Inr b \<Rightarrow> map (\<lambda>r. (r_raw r, r_end r)) (b_records b) | Inl _ \<Rightarrow> [])"

definition fq_ack :: "str \<Rightarrow> commit_io \<Rightarrow> str \<Rightarrow> int \<Rightarrow> qm \<Rightarrow> qm option" where
  "fq_ack hex io k pos q =
    (if length hex = 32 \<and> pos < 10 ^ INT_MAX_STR_DIGITS
     then case commit hex io k pos q of (Inr _, q') \<Rightarrow> Some q' | _ \<Rightarrow> None
     else None)"

lemma fq_peek_ok:
  "fq_ok q k \<Longrightarrow> fq_peek k n q
     = map (\<lambda>r. (r_raw r, r_end r)) (cursors (int (offset_of (files q) k)) (take n (pending (files q) k)))"
  by (simp add: fq_ok_def fq_peek_def read_batch_ok)

lemma fq_enq_step:
  assumes "fq_ok q k" and "no_nl raw" and "fq_enq sc k raw q = Some q'"
  shows "fq_ok q' k" and "fq_pend q' k = fq_pend q k @ [raw]"
    and "\<And>p. p \<noteq> log_path k \<Longrightarrow> dget (files q') p = dget (files q) p"
proof -
  have v: "validate_session_id k = Inr ()" and ok: "key_ok (files q) k"
    and t: "ctail (log_of (files q) k) = []"
    using assms(1) by (simp_all add: fq_ok_def key_ok_def)
  have a: "append_queue sc k raw q = (Inr (), q')"
    using assms(3) by (auto simp: fq_enq_def split: prod.splits sum.splits)
  have log: "log_of (files q') k = log_of (files q) k @ raw @ [NL]"
    and other: "\<And>p. p \<noteq> log_path k \<Longrightarrow> dget (files q') p = dget (files q) p"
    by (cases rule: append_queue_cases [OF v assms(2) a]; simp)+
  show "\<And>p. p \<noteq> log_path k \<Longrightarrow> dget (files q') p = dget (files q) p" by (rule other)
  have o: "dget (files q') (offset_path k) = dget (files q) (offset_path k)" by (simp add: other)
  have "clines (raw @ [NL]) = [raw]" "ctail (log_of (files q') k) = []"
    using clines_close [of raw] assms(2) ctail_close [of "log_of (files q) k @ raw"]
    by (simp_all add: log)
  then show "fq_ok q' k" and "fq_pend q' k = fq_pend q k @ [raw]"
    using append_extends [OF ok o log] t by (simp_all add: fq_ok_def fq_pend_def)
qed

lemma fq_ack_step:
  assumes ok: "fq_ok q k" and i: "i < length (fq_peek k n q)"
    and "fq_ack hex io k (snd (fq_peek k n q ! i)) q = Some q'"
  shows "fq_ok q' k" and "fq_pend q' k = drop (Suc i) (fq_pend q k)"
    and "\<And>p. p \<noteq> offset_path k \<Longrightarrow> p \<noteq> offset_tmp_path k hex \<Longrightarrow> dget (files q') p = dget (files q) p"
proof -
  let ?P = "pending (files q) k"
  have kok: "key_ok (files q) k" and v: "validate_session_id k = Inr ()"
    using ok by (simp_all add: fq_ok_def key_ok_def)
  have iP: "i < length ?P" and im: "i < length (take n ?P)" using i by (simp_all add: fq_peek_ok ok)
  have take_twice: "take (min (Suc i) n) ?P = take (Suc i) ?P" using im by (simp add: min_absorb1)
  have pos: "snd (fq_peek k n q ! i) = int (offset_of (files q) k) + int (length (frame (take (Suc i) ?P)))"
    using im cursors_nth_end [OF im, of "int (offset_of (files q) k)"]
    by (simp add: fq_peek_ok [OF ok] take_twice)
  have h: "length hex = 32" and fits: "snd (fq_peek k n q ! i) < 10 ^ INT_MAX_STR_DIGITS"
    and c: "commit hex io k (snd (fq_peek k n q ! i)) q = (Inr (), q')"
    using assms(3) by (auto simp: fq_ack_def split: if_splits prod.splits sum.splits)
  have other: "\<And>p. p \<noteq> offset_path k \<Longrightarrow> p \<noteq> offset_tmp_path k hex \<Longrightarrow> dget (files q') p = dget (files q) p"
    by (cases rule: commit_cases [OF v h c]; simp)
  show "\<And>p. p \<noteq> offset_path k \<Longrightarrow> p \<noteq> offset_tmp_path k hex \<Longrightarrow> dget (files q') p = dget (files q) p"
    by (rule other)
  have "log_of (files q') k = log_of (files q) k" by (rule log_of_cong) (simp add: other)
  with commit_record [OF kok h Suc_leI [OF iP] pos fits c] ok
  show "fq_ok q' k" and "fq_pend q' k = drop (Suc i) (fq_pend q k)"
    by (simp_all add: fq_ok_def fq_pend_def)
qed

lemma fq_other:
  assumes "dget (files q') (log_path k) = dget (files q) (log_path k)"
    and "dget (files q') (offset_path k) = dget (files q) (offset_path k)"
  shows "fq_ok q' k = fq_ok q k \<and> fq_pend q' k = fq_pend q k"
  using assms by (simp add: fq_ok_def fq_pend_def key_ok_cong [of "files q'" k "files q"]
      pending_cong [of "files q'" k "files q"] log_of_cong [of "files q'" k "files q"])

interpretation fq: durable_queue fq_ok no_nl fq_pend "fq_enq sc" fq_peek "fq_ack hex io" for sc hex io
proof (unfold_locales, goal_cases)
  case (1 q k r q')
  then show ?case using fq_enq_step by blast
next
  case (2 q k r q' k')
  then show ?case by (intro fq_other) (simp_all add: fq_enq_step(3) [OF 2(1-3)])
next
  case (3 q k n)
  then show ?case by (simp add: fq_peek_ok fq_pend_def comp_def)
next
  case (4 q k i n q')
  then show ?case using fq_ack_step by blast
next
  case (5 q k i n q' k')
  then show ?case by (intro fq_other) (simp_all add: fq_ack_step(3) [OF 5(1-3)])
qed

section \<open>Counting pending records\<close>

lemma fs_read_log: "validate_session_id k = Inr () \<Longrightarrow> fs_read d (log_path k) =
    (case dget d (log_path k) of None \<Rightarrow> Inl (OSError ENOENT) | Some f \<Rightarrow> Inr f)"
  by (simp add: fs_read_def)

lemma complete_data_end_valid:
  "validate_session_id k = Inr () \<Longrightarrow> complete_data_end d k = Inr (cend (log_of d k))"
  by (simp add: complete_data_end_def last_complete_end_def fs_read_log log_of_def file_of_def
      last_end_loop_correct SCAN_CHUNK_BYTES_def cend_def split: option.splits)

lemma stream_newlines_eq:
  assumes "\<not> NAME_MAX < length path" and "0 \<le> start"
  shows "stream_newlines d path start stop =
    Inr (nlcount (case stop of None \<Rightarrow> drop (nat start) (file_of d path)
                  | Some e \<Rightarrow> take (nat (e - start)) (drop (nat start) (file_of d path))))"
  using assms
  by (auto simp: stream_newlines_def fs_read_def file_of_def count_loop_correct SCAN_CHUNK_BYTES_def
      split: option.splits)

lemma cend_key_ok:
  assumes "key_ok d k"
  shows "cend (log_of d k) = offset_of d k + length (frame (pending d k))"
proof -
  from assms obtain ls where "offset_of d k = length (frame ls)" "clines (log_of d k) = ls @ pending d k"
    by (rule key_okE)
  then show ?thesis by (simp add: cend_def)
qed

lemma pending_in_ok:
  assumes "key_ok d k"
  shows "pending_in d k = Inr (length (pending d k))"
proof -
  have v: "validate_session_id k = Inr ()" and rd: "read_committed_offset d k = Inr (int (offset_of d k))"
    using assms by (simp_all add: key_ok_def)
  have dr: "drop (offset_of d k) (log_of d k) = frame (pending d k) @ ctail (log_of d k)"
    using assms by (rule key_okE)
  have "count_newlines d k (int (offset_of d k)) (Some (int (cend (log_of d k))))
      = Inr (nlcount (frame (pending d k)))"
    using stream_newlines_eq [OF path_fits(1) [OF v], of "int (offset_of d k)" d "Some (int (cend (log_of d k)))"] dr
    by (simp add: count_newlines_def cend_key_ok [OF assms, unfolded log_of_def] log_of_def)
  then show ?thesis
    by (simp add: pending_in_def rd complete_data_end_valid [OF v] nlcount_frame pending_no_nl)
qed

section \<open>Deletes\<close>

definition drained_outcome :: "str \<Rightarrow> dir \<Rightarrow> bool res \<times> dir" where
  "drained_outcome k d =
    (case dget d (log_path k) of
       None \<Rightarrow> (Inr True, AList.delete (offset_path k) d)
     | Some f \<Rightarrow>
         (case read_committed_offset d k of
            Inl e \<Rightarrow> (Inl e, d)
          | Inr c \<Rightarrow> if c < int (length f) then (Inr False, d)
                     else (Inr True, AList.delete (offset_path k) (AList.delete (log_path k) d))))"

lemma unlink_missing_ok_eq:
  "\<not> NAME_MAX < length p \<Longrightarrow> unlink_missing_ok d p = Inr (AList.delete p d)"
proof -
  assume "\<not> NAME_MAX < length p"
  moreover have "AList.delete p d = d" if "map_of d p = None"
    using that by (simp add: delete_idem map_of_eq_None_iff)
  ultimately show ?thesis
    by (auto simp: unlink_missing_ok_def fs_unlink_def split: option.splits)
qed

lemma delete_drained_outcome:
  assumes "validate_session_id k = Inr ()"
  shows "outcome (delete_drained k q) = drained_outcome k (files q)"
  unfolding delete_drained_def assms sum.case
  by (rule outcome_with_guard [where W = "drained_outcome k"])
    (auto simp: outcome_def drained_outcome_def fs_read_log [OF assms] unlink_missing_ok_eq assms
      Let_def split: option.splits sum.splits exc.splits if_splits)

definition session_outcome :: "str \<Rightarrow> dir \<Rightarrow> bool res \<times> dir" where
  "session_outcome k d =
    (case pending_in d k of
       Inl e \<Rightarrow> (Inl e, d)
     | Inr n \<Rightarrow> if n \<noteq> 0 then (Inl RuntimeError, d)
                else unlink_each [log_path k, offset_path k, dead_path k] False d)"

lemma delete_session_outcome:
  assumes "validate_session_id k = Inr ()"
  shows "outcome (delete_session k q) = session_outcome k (files q)"
  unfolding delete_session_def assms sum.case
  by (rule outcome_with_guard [where W = "session_outcome k"])
    (auto simp: outcome_def session_outcome_def Let_def split: prod.splits sum.splits)

lemma unlink_each_eq:
  assumes "\<forall>p\<in>set ps. \<not> NAME_MAX < length p"
  shows "\<exists>b. unlink_each ps removed d = (Inr b, fold AList.delete ps d)
     \<and> b = (removed \<or> (\<exists>p\<in>set ps. dget d p \<noteq> None))"
  using assms
proof (induction ps arbitrary: removed d)
  case (Cons p ps)
  show ?case
  proof (cases "dget d p")
    case None
    then have "AList.delete p d = d" by (simp add: delete_idem map_of_eq_None_iff)
    with None Cons show ?thesis by (auto simp: fs_unlink_def)
  next
    case (Some x)
    with Cons.prems Cons.IH [of True "AList.delete p d"] show ?thesis by (auto simp: fs_unlink_def)
  qed
qed simp

section \<open>Properties\<close>

definition start_qm :: "dir \<Rightarrow> qm" where
  "start_qm d = \<lparr>files = d, guards = [], gheap = (\<lambda>_. new_guard), next_ref = 0, stats_cache = None, spool_cache = None\<rparr>"

text \<open>C5 [append_framing]: whatever the device does (short writes, a failure at any byte, a failing
  newline after a failure), an append touches no file but the key's log, keeps every complete line
  of that log in place, and a successful append adds exactly one line, made of the unterminated
  fragment an earlier crash may have left and the record.  A failed append leaves at most one
  line or fragment made of that fragment and a prefix of the record.\<close>

theorem append_framing:
  assumes "validate_session_id k = Inr ()" and "no_nl raw" and "append_queue sc k raw q = (r, q')"
  shows "(\<forall>p. p \<noteq> log_path k \<longrightarrow> dget (files q') p = dget (files q) p) \<and>
    (case r of
       Inr _ \<Rightarrow> clines (log_of (files q') k) = clines (log_of (files q) k) @ [ctail (log_of (files q) k) @ raw]
                \<and> ctail (log_of (files q') k) = []
     | Inl e \<Rightarrow> (\<exists>p s. raw = p @ s \<and>
         (log_of (files q') k = log_of (files q) k @ p \<and> clines (log_of (files q') k) = clines (log_of (files q) k)
          \<or> clines (log_of (files q') k) = clines (log_of (files q) k) @ [ctail (log_of (files q) k) @ p]
            \<and> ctail (log_of (files q') k) = [])))"
proof (cases rule: append_queue_cases [OF assms])
  case 1
  then show ?thesis
    using clines_close [of "log_of (files q) k @ raw"] ctail_close [of "log_of (files q) k @ raw"] assms(2)
    by (simp add: clines_append [of "log_of (files q) k" raw] ctail_append [of "log_of (files q) k" raw])
next
  case (2 e p s)
  then obtain s' where raw: "raw = p @ s'"
    by (cases s rule: rev_cases) auto
  have lines: "clines (log_of (files q) k @ p) = clines (log_of (files q) k)"
    "ctail (log_of (files q) k @ p) = ctail (log_of (files q) k) @ p"
    using assms(2) raw
    by (simp_all add: clines_append [of "log_of (files q) k" p] ctail_append [of "log_of (files q) k" p])
  with 2 raw show ?thesis
    using clines_close [of "log_of (files q) k @ p"] ctail_close [of "log_of (files q) k @ p"]
    by auto
qed

lemmas key_eval = validate_session_id_def is_safe_session_id_def is_safe_session_component_def
  MAX_KEY_BYTES_def MAX_SESSION_ID_BYTES_def MAX_SUFFIX_BYTES_def COMMIT_TEMP_FILENAME_SUFFIX_def
  NAME_MAX_def utf8_valid_def utf8_width_def utf8_tail_ok_def

lemma append_framing_witness:
  "clines (log_of (files (snd (append_queue [Wrote 2] ''s'' ''abc'' (start_qm [])))) ''s'') = [''abc'']"
proof -
  have "fst (append_queue [Wrote 2] ''s'' ''abc'' (start_qm [])) = Inr ()" by code_simp
  moreover have "validate_session_id ''s'' = Inr ()" "no_nl ''abc''"
    "log_of (files (start_qm [])) ''s'' = []" by code_simp+
  ultimately show ?thesis
    using append_framing [of "''s''" "''abc''" "[Wrote 2]" "start_qm []" "Inr ()"
        "snd (append_queue [Wrote 2] ''s'' ''abc'' (start_qm []))"]
    by (simp add: prod_eq_iff)
qed

text \<open>A spool with one key, whose first record is committed and whose second is pending.\<close>

definition sample_dir :: dir where
  "sample_dir = [(''s.log'', ''a'' @ [NL] @ ''b'' @ [NL]), (''s.offset'', ''2''), (''s.dead.jsonl'', ''x'' @ [NL])]"

lemma fits_small: "n < 10 \<Longrightarrow> n < (10::nat) ^ INT_MAX_STR_DIGITS"
  by (rule less_le_trans [OF _ self_le_power]) (simp_all add: INT_MAX_STR_DIGITS_def)

lemma sample_offset: "read_committed_offset sample_dir ''s'' = Inr 2"
  by code_simp

lemma sample_key_ok: "key_ok sample_dir ''s''" and sample_pending: "pending sample_dir ''s'' = [''b'']"
  and sample_valid: "validate_session_id ''s'' = Inr ()"
proof -
  show v: "validate_session_id ''s'' = Inr ()" by (simp add: key_eval)
  have off: "offset_of sample_dir ''s'' = 2" by (simp add: offset_of_def sample_offset)
  have log: "log_of sample_dir ''s'' = ''a'' @ [NL] @ ''b'' @ [NL]"
    by (simp add: log_of_def file_of_def sample_dir_def log_path_def)
  show "key_ok sample_dir ''s''"
    unfolding key_ok_def off log
    by (auto simp: v sample_offset fits_small NL_def intro!: exI [of _ "[''a'']"])
  show "pending sample_dir ''s'' = [''b'']"
    by (simp add: pending_def off log clines_def NL_def)
qed

text \<open>C6 [read_commit_fifo]: on a key in order, a read returns the oldest pending records, and a
  successful commit of the end cursor of the i-th record leaves exactly the records after it
  pending, with the key in order again.\<close>

theorem read_commit_fifo:
  assumes "key_ok (files q) k"
  shows "\<exists>b. read_batch k n q = Inr b \<and> batch_lines b = take (nat n) (pending (files q) k) \<and>
    (\<forall>i hex io q'. i < length (b_records b) \<longrightarrow> length hex = 32 \<longrightarrow>
       r_end (b_records b ! i) < 10 ^ INT_MAX_STR_DIGITS \<longrightarrow>
       commit hex io k (r_end (b_records b ! i)) q = (Inr (), q') \<longrightarrow>
       key_ok (files q') k \<and> pending (files q') k = drop (Suc i) (pending (files q) k))"
proof -
  let ?P = "pending (files q) k" and ?o = "int (offset_of (files q) k)"
  let ?rs = "cursors ?o (take (nat n) ?P)"
  have pos: "r_end (?rs ! i) = ?o + int (length (frame (take (Suc i) ?P)))" if "i < length ?rs" for i
  proof -
    have "take (Suc i) (take (nat n) ?P) = take (Suc i) ?P" using that by (simp add: min_absorb1)
    with that show ?thesis by (simp only: cursors_nth_end length_cursors)
  qed
  have step: "key_ok (files q') k \<and> pending (files q') k = drop (Suc i) ?P"
    if "i < length ?rs" "length hex = 32" "r_end (?rs ! i) < 10 ^ INT_MAX_STR_DIGITS"
      "commit hex io k (r_end (?rs ! i)) q = (Inr (), q')" for i hex io q'
    using commit_record [OF assms that(2) _ pos [OF that(1)] that(3,4)] that(1) by simp
  obtain b where b: "read_batch k n q = Inr b" and rs: "b_records b = ?rs"
    using read_batch_ok [OF assms, of n] by simp
  have "batch_lines b = take (nat n) ?P" by (simp add: batch_lines_def rs)
  with b step show ?thesis unfolding rs [symmetric] by blast
qed

lemma read_commit_fifo_witness:
  "\<exists>b. read_batch ''s'' 5 (start_qm sample_dir) = Inr b \<and> batch_lines b = [''b'']"
  using read_commit_fifo [of "start_qm sample_dir" "''s''" 5] sample_key_ok sample_pending
  by (auto simp: start_qm_def)



text \<open>C12 [delete_drained_safe]: deleting a drained key refuses, and changes nothing, while any
  uncommitted byte is left (a pending record or an unterminated fragment); otherwise it removes
  the log and the offset and no other file, in particular not the dead letters.\<close>

theorem delete_drained_safe:
  assumes "key_ok (files q) k" and "delete_drained k q = (r, q')"
  shows "if pending (files q) k = [] \<and> ctail (log_of (files q) k) = []
    then r = Inr True \<and> (\<forall>p. dget (files q') p =
           (if p = log_path k \<or> p = offset_path k then None else dget (files q) p))
    else r = Inr False \<and> files q' = files q"
proof -
  have v: "validate_session_id k = Inr ()"
    and rd: "read_committed_offset (files q) k = Inr (int (offset_of (files q) k))"
    using assms(1) by (simp_all add: key_ok_def)
  have o: "(r, files q') = drained_outcome k (files q)"
    using delete_drained_outcome [OF v, of q] assms(2) by (simp add: outcome_def)
  have len: "length (log_of (files q) k) = offset_of (files q) k
      + length (frame (pending (files q) k)) + length (ctail (log_of (files q) k))"
    using cend_plus_tail [of "log_of (files q) k"] cend_key_ok [OF assms(1)] by simp
  have nil: "frame ls = [] \<longleftrightarrow> ls = []" for ls by (cases ls) auto
  have left: "offset_of (files q) k < length (log_of (files q) k)
      \<longleftrightarrow> \<not> (pending (files q) k = [] \<and> ctail (log_of (files q) k) = [])"
    unfolding len by (simp add: nil)
  show ?thesis
  proof (cases "dget (files q) (log_path k)")
    case None
    then have "log_of (files q) k = []" by (simp add: log_of_def file_of_def)
    with None o left show ?thesis by (auto simp: drained_outcome_def)
  next
    case (Some f)
    then have f: "log_of (files q) k = f" by (simp add: log_of_def file_of_def)
    with Some o left rd show ?thesis by (auto simp: drained_outcome_def)
  qed
qed

lemma delete_drained_safe_witness:
  "fst (delete_drained ''s'' (start_qm sample_dir)) = Inr False"
  using delete_drained_safe [of "start_qm sample_dir" "''s''"
      "fst (delete_drained ''s'' (start_qm sample_dir))" "snd (delete_drained ''s'' (start_qm sample_dir))"]
  by (simp add: start_qm_def sample_key_ok sample_pending)

text \<open>C13 [delete_session_refuses_pending]: deleting a session raises and changes nothing while a
  complete record is uncommitted; otherwise it removes the log, the offset and the dead letters,
  keeps every other file, and reports whether any of the three existed.\<close>

theorem delete_session_refuses_pending:
  assumes "key_ok (files q) k" and "delete_session k q = (r, q')"
  shows "if pending (files q) k \<noteq> [] then r = Inl RuntimeError \<and> files q' = files q
    else (\<exists>b. r = Inr b \<and> b = (\<exists>p\<in>{log_path k, offset_path k, dead_path k}. dget (files q) p \<noteq> None))
       \<and> (\<forall>p. dget (files q') p =
            (if p \<in> {log_path k, offset_path k, dead_path k} then None else dget (files q) p))"
proof -
  have v: "validate_session_id k = Inr ()" using assms(1) by (simp add: key_ok_def)
  have o: "(r, files q') = session_outcome k (files q)"
    using delete_session_outcome [OF v, of q] assms(2) by (simp add: outcome_def)
  obtain b where b: "unlink_each [log_path k, offset_path k, dead_path k] False (files q)
      = (Inr b, fold AList.delete [log_path k, offset_path k, dead_path k] (files q))"
    "b = (\<exists>p\<in>{log_path k, offset_path k, dead_path k}. dget (files q) p \<noteq> None)"
    using unlink_each_eq [of "[log_path k, offset_path k, dead_path k]" False "files q"] v by auto
  show ?thesis
  proof (cases "pending (files q) k = []")
    case True
    then have "(r, files q') = (Inr b, fold AList.delete [log_path k, offset_path k, dead_path k] (files q))"
      using o b(1) pending_in_ok [OF assms(1)] by (simp add: session_outcome_def)
    with True b(2) show ?thesis by simp
  next
    case False
    with o pending_in_ok [OF assms(1)] show ?thesis by (simp add: session_outcome_def)
  qed
qed

lemma delete_session_refuses_pending_witness:
  "fst (delete_session ''s'' (start_qm sample_dir)) = Inl RuntimeError"
  using delete_session_refuses_pending [of "start_qm sample_dir" "''s''"
      "fst (delete_session ''s'' (start_qm sample_dir))" "snd (delete_session ''s'' (start_qm sample_dir))"]
  by (simp add: start_qm_def sample_key_ok sample_pending)

end
