(* ===== verification/QueueBoot.thy ===== *)
theory QueueBoot
  imports QueueSpec
begin

text \<open>
  The directory-wide passes of \<^verbatim>\<open>queue_manager.py\<close>: enumeration of keys, the recovery scan,
  reclaiming, over-long key migration, the counter seed, the dead-letter reconciliation and the
  statistics snapshots.

  Parameters: \<^verbatim>\<open>loads\<close> is \<^verbatim>\<open>json.loads\<close>, \<^verbatim>\<open>b64d\<close> is \<^verbatim>\<open>base64.b64decode\<close>,
  \<^verbatim>\<open>hex_of\<close> the fresh identifier a temporary offset file of a key gets, and \<^verbatim>\<open>old\<close> says
  whether a temporary file is past the orphan age.
\<close>

section \<open>Enumeration\<close>

text \<open>\<^verbatim>\<open>Path.stem\<close> of a name that matches \<^verbatim>\<open>*.log\<close>.\<close>

definition log_stem :: "str \<Rightarrow> str" where
  "log_stem name = (if name = ''.log'' then name else take (length name - 4) name)"

definition log_names :: "dir \<Rightarrow> str list" where
  "log_names d = filter (ends_with ''.log'') (map fst d)"

definition dead_names :: "dir \<Rightarrow> str list" where
  "dead_names d = filter (ends_with ''.dead.jsonl'') (map fst d)"

definition dead_stem :: "str \<Rightarrow> str" where
  "dead_stem name = take (length name - length ''.dead.jsonl'') name"

definition all_worker_keys :: "dir \<Rightarrow> str list" where
  "all_worker_keys d = sort (remdups (map log_stem (log_names d) @ map dead_stem (dead_names d)))"

definition pending_worker_keys :: "dir \<Rightarrow> str list" where
  "pending_worker_keys d =
    sort (remdups (concat (map (\<lambda>name.
      if ends_with ''.dead.jsonl'' name then [dead_stem name]
      else if ends_with ''.log'' name then [take (length name - 4) name]
      else []) (map fst d))))"

definition dead_letter_keys :: "qm \<Rightarrow> str list" where
  "dead_letter_keys q = sort (map dead_stem (dead_names (files q)))"

section \<open>Scans for undrained data\<close>

fun has_pending_loop :: "dir \<Rightarrow> str list \<Rightarrow> bool res" where
  "has_pending_loop d [] = Inr False"
| "has_pending_loop d (key # keys) =
    bind_res (read_committed_offset d key) (\<lambda>committed.
    bind_res (complete_data_end d key) (\<lambda>complete_end.
    if committed < 0 \<or> int complete_end < committed then Inr True
    else if committed < int complete_end then Inr True
    else has_pending_loop d keys))"

definition has_pending_records :: "qm \<Rightarrow> bool res" where
  "has_pending_records q =
    (case has_pending_loop (files q) (pending_worker_keys (files q)) of
       Inl e \<Rightarrow> if os_or_value e then Inr True else Inl e
     | Inr b \<Rightarrow> Inr b)"

fun active_loop :: "dir \<Rightarrow> str list \<Rightarrow> str list \<Rightarrow> str list res" where
  "active_loop d [] result = Inr result"
| "active_loop d (name # names) result =
    (let session_id = log_stem name in
     case bind_res (read_committed_offset d session_id) (\<lambda>committed.
          bind_res (fs_read d name) (\<lambda>f. Inr (committed < int (length f)))) of
       Inl e \<Rightarrow> if os_or_value e then active_loop d names result else Inl e
     | Inr b \<Rightarrow> active_loop d names (if b then result @ [session_id] else result))"

definition active_sessions :: "qm \<Rightarrow> str list res" where
  "active_sessions q = active_loop (files q) (sort (log_names (files q))) []"

fun recover_loop :: "dir \<Rightarrow> str list \<Rightarrow> str list \<Rightarrow> str list res" where
  "recover_loop d [] result = Inr result"
| "recover_loop d (name # names) result =
    (let session_id = log_stem name in
     case validate_session_id session_id of
       Inl _ \<Rightarrow> recover_loop d names result
     | Inr _ \<Rightarrow>
         (case bind_res (read_committed_offset d session_id) (\<lambda>committed.
               bind_res (complete_data_end d session_id) (\<lambda>e. Inr (committed < int e))) of
            Inl e \<Rightarrow> if os_or_value e then recover_loop d names result else Inl e
          | Inr b \<Rightarrow> recover_loop d names (if b then result @ [session_id] else result)))"

definition recover :: "qm \<Rightarrow> str list res" where
  "recover q = recover_loop (files q) (sort (log_names (files q))) []"

section \<open>Reclaiming\<close>

fun reclaim_loop :: "str list \<Rightarrow> nat \<times> nat \<Rightarrow> qm \<Rightarrow> (nat \<times> nat) res \<times> qm" where
  "reclaim_loop [] acc q = (Inr acc, q)"
| "reclaim_loop (key # keys) acc q =
    (case (case fs_read (files q) (log_path key) of
             Inr f \<Rightarrow> Inr (length f)
           | Inl (OSError e) \<Rightarrow> if e = ENOENT then Inr 0 else Inl (OSError e)
           | Inl e \<Rightarrow> Inl e) of
       Inl e \<Rightarrow> if os_or_value e then reclaim_loop keys acc q else (Inl e, q)
     | Inr n \<Rightarrow>
         (case delete_drained key q of
            (Inl e, q) \<Rightarrow> if os_or_value e then reclaim_loop keys acc q else (Inl e, q)
          | (Inr ok, q) \<Rightarrow>
              reclaim_loop keys (if ok \<and> n \<noteq> 0 then (fst acc + 1, snd acc + n) else acc) q))"

definition is_offset_tmp :: "str \<Rightarrow> bool" where
  "is_offset_tmp name = (ends_with ''.tmp'' name \<and> contains ''.offset.'' (take (length name - 4) name))"

definition sweep_tmps :: "(str \<Rightarrow> bool) \<Rightarrow> dir \<Rightarrow> dir" where
  "sweep_tmps old d = filter (\<lambda>(name, _). \<not> (is_offset_tmp name \<and> old name)) d"

definition reclaim_drained_orphans :: "(str \<Rightarrow> bool) \<Rightarrow> qm \<Rightarrow> (nat \<times> nat) res \<times> qm" where
  "reclaim_drained_orphans old q =
    (case reclaim_loop (all_worker_keys (files q)) (0, 0) q of
       (Inl e, q) \<Rightarrow> (Inl e, q)
     | (Inr r, q) \<Rightarrow> (Inr r, q\<lparr>files := sweep_tmps old (files q)\<rparr>))"

section \<open>Migration of over-long keys\<close>

definition exists_or_too_long_is_absent :: "dir \<Rightarrow> str \<Rightarrow> bool" where
  "exists_or_too_long_is_absent d path = (\<not> NAME_MAX < length path \<and> dget d path \<noteq> None)"

datatype migration = Migrated | Skipped | Noop

fun replace_each :: "(str \<times> str) list \<Rightarrow> dir \<Rightarrow> unit res \<times> dir" where
  "replace_each [] d = (Inr (), d)"
| "replace_each ((src, dst) # ps) d =
    (case fs_replace d src dst of Inl e \<Rightarrow> (Inl e, d) | Inr d \<Rightarrow> replace_each ps d)"

definition do_migrate :: "str \<Rightarrow> str \<Rightarrow> dir \<Rightarrow> migration res \<times> dir" where
  "do_migrate key folded d =
    (let triples = [(log_path key, log_path folded), (offset_path key, offset_path folded),
                    (dead_path key, dead_path folded)];
         existing = filter (\<lambda>(src, dst). exists_or_too_long_is_absent d src) triples
     in if existing = [] then (Inr Noop, d)
        else let collided = filter (\<lambda>(src, dst). exists_or_too_long_is_absent d dst) triples
             in if collided \<noteq> [] then (Inr Skipped, d)
                else case replace_each existing d of
                       (Inl e, d) \<Rightarrow> (Inl e, d)
                     | (Inr _, d) \<Rightarrow> (Inr Migrated, d))"

definition migrate_one_key :: "(str \<Rightarrow> str) \<Rightarrow> str \<Rightarrow> qm \<Rightarrow> migration res \<times> qm" where
  "migrate_one_key sha key q =
    (let folded = fold_worker_key sha key in
     if folded = key then (Inr Noop, q)
     else with_guard key (\<lambda>g q.
            with_guard folded (\<lambda>g' q.
              let (r, d) = do_migrate key folded (files q);
                  q = q\<lparr>files := d\<rparr>
              in (r, case r of
                       Inl _ \<Rightarrow> q
                     | Inr _ \<Rightarrow>
                         if waiters (gheap q g) = 1 \<and> dget (guards q) key = Some g
                         then q\<lparr>guards := AList.delete key (guards q)\<rparr> else q)) q) q)"

record migration_counts =
  mc_migrated :: nat
  mc_skipped :: nat
  mc_failed :: nat

fun migrate_loop :: "(str \<Rightarrow> str) \<Rightarrow> str list \<Rightarrow> migration_counts \<Rightarrow> qm \<Rightarrow> migration_counts res \<times> qm" where
  "migrate_loop sha [] n q = (Inr n, q)"
| "migrate_loop sha (key # keys) n q =
    (case migrate_one_key sha key q of
       (Inl e, q) \<Rightarrow>
         if os_or_value e then migrate_loop sha keys (n\<lparr>mc_failed := mc_failed n + 1\<rparr>) q else (Inl e, q)
     | (Inr Migrated, q) \<Rightarrow> migrate_loop sha keys (n\<lparr>mc_migrated := mc_migrated n + 1\<rparr>) q
     | (Inr Skipped, q) \<Rightarrow> migrate_loop sha keys (n\<lparr>mc_skipped := mc_skipped n + 1\<rparr>) q
     | (Inr Noop, q) \<Rightarrow> migrate_loop sha keys n q)"

definition overlong_keys :: "dir \<Rightarrow> str list" where
  "overlong_keys d = sort (filter (\<lambda>key. is_safe_session_component key \<and> MAX_KEY_BYTES < length key)
     (all_worker_keys d))"

definition migrate_overlong_keys :: "(str \<Rightarrow> str) \<Rightarrow> qm \<Rightarrow> migration_counts res \<times> qm" where
  "migrate_overlong_keys sha q =
    (case migrate_loop sha (overlong_keys (files q)) \<lparr>mc_migrated = 0, mc_skipped = 0, mc_failed = 0\<rparr> q of
       (Inl e, q) \<Rightarrow> (Inl e, q)
     | (Inr n, q) \<Rightarrow>
         (Inr n, if mc_migrated n \<noteq> 0 \<or> mc_skipped n \<noteq> 0 \<or> mc_failed n \<noteq> 0
                 then q\<lparr>stats_cache := None\<rparr> else q))"

section \<open>Statistics snapshots\<close>

definition stats_key :: "dir \<Rightarrow> str \<Rightarrow> (nat \<times> nat) res" where
  "stats_key d key =
    bind_res (read_committed_offset d key) (\<lambda>committed.
    bind_res (count_newlines d key committed None) (\<lambda>in_queue.
    bind_res (count_dead d key) (\<lambda>dead. Inr (in_queue, dead))))"

fun stats_loop :: "dir \<Rightarrow> str list \<Rightarrow> all_stats \<Rightarrow> all_stats res" where
  "stats_loop d [] acc = Inr acc"
| "stats_loop d (key # keys) acc =
    (case stats_key d key of
       Inl e \<Rightarrow> if os_or_value e then stats_loop d keys acc else Inl e
     | Inr (in_queue, dead) \<Rightarrow>
         stats_loop d keys
           \<lparr>per_key = per_key acc @ [\<lparr>ks_worker_key = key, ks_in_queue = in_queue, ks_dead = dead\<rparr>],
            in_queue_total = in_queue_total acc + in_queue,
            dead_total = dead_total acc + dead\<rparr>)"

definition no_stats :: all_stats where
  "no_stats = \<lparr>per_key = [], in_queue_total = 0, dead_total = 0\<rparr>"

definition refresh_all_stats :: "qm \<Rightarrow> all_stats res \<times> qm" where
  "refresh_all_stats q =
    (case stats_loop (files q) (all_worker_keys (files q)) no_stats of
       Inl e \<Rightarrow> (Inl e, q)
     | Inr s \<Rightarrow> (Inr s, q\<lparr>stats_cache := Some s\<rparr>))"

text \<open>The flag is \<^verbatim>\<open>stats_available\<close>.\<close>

definition derive_all_stats :: "qm \<Rightarrow> all_stats \<times> bool" where
  "derive_all_stats q = (case stats_cache q of None \<Rightarrow> (no_stats, False) | Some s \<Rightarrow> (s, True))"

fun spool_loop :: "dir \<Rightarrow> (str \<times> bytes) list \<Rightarrow> spool_figures \<Rightarrow> spool_figures res" where
  "spool_loop d [] s = Inr s"
| "spool_loop d ((name, f) # es) s =
    (let s = s\<lparr>spool_bytes_total := spool_bytes_total s + int (length f)\<rparr> in
     if ends_with ''.log'' name \<and> name \<noteq> ''.log'' then
       (case read_committed_offset d (log_stem name) of
          Inl ValueError \<Rightarrow> spool_loop d es (s\<lparr>corrupt_offsets := corrupt_offsets s + 1\<rparr>)
        | Inl (OSError _) \<Rightarrow> spool_loop d es s
        | Inl e \<Rightarrow> Inl e
        | Inr committed \<Rightarrow>
            spool_loop d es (if committed < int (length f)
                             then s\<lparr>pending_sessions := pending_sessions s + 1\<rparr> else s))
     else spool_loop d es s)"

definition spool_unavailable :: spool_figures where
  "spool_unavailable = \<lparr>pending_sessions = -1, spool_bytes_total = -1, corrupt_offsets = -1\<rparr>"

definition refresh_spool_stats :: "qm \<Rightarrow> spool_figures res \<times> qm" where
  "refresh_spool_stats q =
    (case spool_loop (files q) (files q)
            \<lparr>pending_sessions = 0, spool_bytes_total = 0, corrupt_offsets = 0\<rparr> of
       Inl e \<Rightarrow> if os_or_value e then (Inr spool_unavailable, q) else (Inl e, q)
     | Inr s \<Rightarrow> (Inr s, q\<lparr>spool_cache := Some s\<rparr>))"

definition spool_stats :: "qm \<Rightarrow> spool_figures" where
  "spool_stats q = (case spool_cache q of None \<Rightarrow> spool_unavailable | Some s \<Rightarrow> s)"

section \<open>Counter seed\<close>

definition seed_key :: "dir \<Rightarrow> str \<Rightarrow> (nat \<times> nat \<times> nat) res" where
  "seed_key d key =
    bind_res (read_committed_offset d key) (\<lambda>committed.
    bind_res (complete_data_end d key) (\<lambda>complete_end.
    bind_res (count_dead d key) (\<lambda>dead.
    bind_res (count_newlines d key 0 (Some committed)) (\<lambda>before.
    bind_res (count_newlines d key committed (Some (int complete_end))) (\<lambda>pend.
    Inr (before, pend, dead))))))"

fun seed_loop :: "dir \<Rightarrow> str list \<Rightarrow> int \<times> int \<Rightarrow> (int \<times> int) res" where
  "seed_loop d [] acc = Inr acc"
| "seed_loop d (key # keys) (accepted, written) =
    (if \<not> is_safe_session_component key then seed_loop d keys (accepted, written)
     else case seed_key d key of
            Inl e \<Rightarrow> if os_or_value e then seed_loop d keys (accepted, written) else Inl e
          | Inr (before, pend, dead) \<Rightarrow>
              let written_seed = max 0 (int before - int dead)
              in seed_loop d keys (accepted + written_seed + int pend + int dead,
                                   written + written_seed))"

definition recovery_seed_counts :: "qm \<Rightarrow> (int \<times> int) res" where
  "recovery_seed_counts q = seed_loop (files q) (all_worker_keys (files q)) (0, 0)"

section \<open>Dead-letter reconciliation\<close>

text \<open>The payload of one dead-letter line; a malformed record contributes nothing.\<close>

definition dead_payload_of :: "(str \<Rightarrow> bytes option) \<Rightarrow> pyval \<Rightarrow> bytes option" where
  "dead_payload_of b64d v =
    (case v of
       PDict r \<Rightarrow>
         (case dget r ''payload'' of
            Some p \<Rightarrow> (case p of PStr s \<Rightarrow> if utf8_valid s then Some s else None | _ \<Rightarrow> None)
          | None \<Rightarrow> (case dget r ''payload_b64'' of Some (PStr s) \<Rightarrow> b64d s | _ \<Rightarrow> None))
     | _ \<Rightarrow> None)"

fun dead_payload_loop ::
  "(str \<Rightarrow> pyval res) \<Rightarrow> (str \<Rightarrow> bytes option) \<Rightarrow> str list \<Rightarrow> bytes list \<Rightarrow> bytes list res" where
  "dead_payload_loop loads b64d [] acc = Inr acc"
| "dead_payload_loop loads b64d (ln # lns) acc =
    (if py_strip ln = [] then dead_payload_loop loads b64d lns acc
     else case loads ln of
            Inl e \<Rightarrow>
              if e \<in> {ValueError, TypeError, AttributeError} then dead_payload_loop loads b64d lns acc
              else Inl e
          | Inr v \<Rightarrow>
              dead_payload_loop loads b64d lns
                (case dead_payload_of b64d v of None \<Rightarrow> acc | Some p \<Rightarrow> acc @ [p]))"

definition dead_payload_set ::
  "(str \<Rightarrow> pyval res) \<Rightarrow> (str \<Rightarrow> bytes option) \<Rightarrow> dir \<Rightarrow> str \<Rightarrow> bytes list res" where
  "dead_payload_set loads b64d d worker_key =
    (case fs_read d (dead_path worker_key) of
       Inl (OSError e) \<Rightarrow> if e = ENOENT then Inr [] else Inl (OSError e)
     | Inl e \<Rightarrow> Inl e
     | Inr b \<Rightarrow> if \<not> utf8_valid b then Inl ValueError
                else dead_payload_loop loads b64d (splitlines b) [])"

function reconcile_scan :: "bytes list \<Rightarrow> int \<Rightarrow> int \<Rightarrow> bytes \<Rightarrow> nat \<Rightarrow> int \<times> nat" where
  "reconcile_scan payloads complete_end pos rest skipped =
    (if pos < complete_end then
       let raw = readline rest in
       if raw = [] \<or> last raw \<noteq> NL then (pos, skipped)
       else if butlast raw \<notin> set payloads then (pos, skipped)
       else reconcile_scan payloads complete_end (pos + int (length raw)) (drop (length raw) rest) (skipped + 1)
     else (pos, skipped))"
  by pat_completeness auto
termination
  by (relation "measure (\<lambda>(ps, e, p, r, s). length r)") (auto intro: readline_progress)

declare reconcile_scan.simps [simp del]

definition reconcile_key ::
  "(str \<Rightarrow> pyval res) \<Rightarrow> (str \<Rightarrow> bytes option) \<Rightarrow> (str \<Rightarrow> str) \<Rightarrow> str \<Rightarrow> dir \<Rightarrow> nat \<times> (unit res \<times> dir)" where
  "reconcile_key loads b64d hex_of key d =
    (case dead_payload_set loads b64d d key of
       Inl e \<Rightarrow> (0, Inl e, d)
     | Inr payloads \<Rightarrow>
         if payloads = [] then (0, Inr (), d)
         else case bind_res (read_committed_offset d key) (\<lambda>committed.
                   bind_res (complete_data_end d key) (\<lambda>complete_end.
                   bind_res (fs_read d (log_path key)) (\<lambda>f.
                   if committed < 0 then Inl (OSError EINVAL)
                   else Inr (committed, reconcile_scan payloads (int complete_end) committed
                                          (drop (nat committed) f) 0)))) of
                Inl e \<Rightarrow> (0, Inl e, d)
              | Inr (committed, pos, skipped) \<Rightarrow>
                  if committed < pos then
                    (let tmp = offset_tmp_path key (hex_of key) in
                     case fs_put d tmp (int_dec pos) of
                       Inl e \<Rightarrow> (skipped, Inl e, d)
                     | Inr d \<Rightarrow>
                         (case fs_replace d tmp (offset_path key) of
                            Inl e \<Rightarrow> (skipped, Inl e, cleanup_tmp d tmp)
                          | Inr d \<Rightarrow> (skipped, Inr (), d)))
                  else (skipped, Inr (), d))"

fun reconcile_loop ::
  "(str \<Rightarrow> pyval res) \<Rightarrow> (str \<Rightarrow> bytes option) \<Rightarrow> (str \<Rightarrow> str) \<Rightarrow> str list \<Rightarrow> nat \<Rightarrow> dir \<Rightarrow> nat res \<times> dir" where
  "reconcile_loop loads b64d hex_of [] total_skipped d = (Inr total_skipped, d)"
| "reconcile_loop loads b64d hex_of (key # keys) total_skipped d =
    (if \<not> is_safe_session_component key then reconcile_loop loads b64d hex_of keys total_skipped d
     else if NAME_MAX < length (log_path key) then (Inl (OSError ENAMETOOLONG), d)
     else if dget d (log_path key) = None then reconcile_loop loads b64d hex_of keys total_skipped d
     else case reconcile_key loads b64d hex_of key d of
            (n, Inl e, d) \<Rightarrow>
              if os_or_value e then reconcile_loop loads b64d hex_of keys (total_skipped + n) d else (Inl e, d)
          | (n, Inr _, d) \<Rightarrow> reconcile_loop loads b64d hex_of keys (total_skipped + n) d)"

definition recovery_reconcile_dead ::
  "(str \<Rightarrow> pyval res) \<Rightarrow> (str \<Rightarrow> bytes option) \<Rightarrow> (str \<Rightarrow> str) \<Rightarrow> qm \<Rightarrow> nat res \<times> qm" where
  "recovery_reconcile_dead loads b64d hex_of q =
    (case reconcile_loop loads b64d hex_of (all_worker_keys (files q)) 0 (files q) of
       (Inl e, d) \<Rightarrow> (Inl e, q\<lparr>files := d\<rparr>)
     | (Inr n, d) \<Rightarrow> (Inr n, q\<lparr>files := d, stats_cache := None\<rparr>))"

section \<open>The recovery scan\<close>

lemma read_offset_err: "read_committed_offset d k = Inl e \<Longrightarrow> os_or_value e"
  by (auto simp: read_committed_offset_def fs_read_def py_int_def Let_def split: if_splits option.splits)

lemma complete_end_err: "complete_data_end d k = Inl e \<Longrightarrow> os_or_value e"
  by (auto simp: complete_data_end_def last_complete_end_def fs_read_def split: if_splits option.splits)

definition recoverable :: "dir \<Rightarrow> str \<Rightarrow> bool" where
  "recoverable d k = (validate_session_id k = Inr () \<and>
     (\<exists>c. read_committed_offset d k = Inr c \<and> c < int (cend (log_of d k))))"

lemma recover_loop_eq:
  "recover_loop d names acc = Inr (acc @ filter (recoverable d) (map log_stem names))"
proof (induction names arbitrary: acc)
  case (Cons name names)
  let ?k = "log_stem name"
  show ?case
  proof (cases "validate_session_id ?k")
    case (Inl e)
    with Cons show ?thesis by (simp add: recoverable_def)
  next
    case (Inr u)
    then have v: "validate_session_id ?k = Inr ()" by simp
    show ?thesis
    proof (cases "read_committed_offset d ?k")
      case (Inl e)
      with v read_offset_err [OF Inl] Cons show ?thesis by (simp add: recoverable_def)
    next
      case (Inr c)
      with v complete_data_end_valid [OF v, of d] Cons show ?thesis by (simp add: recoverable_def)
    qed
  qed
qed simp

lemma recoverable_key_ok: "key_ok d k \<Longrightarrow> recoverable d k = (pending d k \<noteq> [])"
proof -
  assume ok: "key_ok d k"
  have "frame ls = [] \<longleftrightarrow> ls = []" for ls by (cases ls) auto
  with ok cend_key_ok [OF ok] show ?thesis by (auto simp: recoverable_def key_ok_def)
qed

lemma log_in_names: "dget d (log_path k) \<noteq> None \<Longrightarrow> k \<noteq> [] \<Longrightarrow> k \<in> set (map log_stem (sort (log_names d)))"
proof -
  assume "dget d (log_path k) \<noteq> None" "k \<noteq> []"
  then have "log_path k \<in> set (log_names d)"
    by (auto simp: log_names_def log_path_def map_of_eq_None_iff)
  moreover have "log_stem (log_path k) = k" using \<open>k \<noteq> []\<close> by (auto simp: log_stem_def log_path_def)
  ultimately show ?thesis by force
qed

section \<open>Seed and snapshot agree key by key\<close>

lemma nlcount_drop_tail:
  assumes "c \<le> cend f"
  shows "nlcount (take (cend f - c) (drop c f)) = nlcount (drop c f)"
proof -
  have "drop c f = drop c (frame (clines f)) @ ctail f"
    using assms frame_clines [of f] by (metis cend_def drop_append diff_is_0_eq' drop_0)
  then show ?thesis using assms by (simp add: cend_def nlcount_no_nl)
qed

lemma nlcount_after_end:
  assumes "cend f \<le> c"
  shows "nlcount (drop c f) = 0"
proof -
  have "drop c f = drop (c - cend f) (ctail f)"
    using assms frame_clines [of f] by (metis cend_def drop_append drop_all append_Nil)
  moreover have "no_nl (drop (c - cend f) (ctail f))"
    using no_nl_ctail [of f] by (auto simp: no_nl_def dest: in_set_dropD)
  ultimately show ?thesis by (simp add: nlcount_no_nl)
qed

lemma count_newlines_None:
  "count_newlines d k c None = (if NAME_MAX < length (log_path k) then Inl (OSError ENAMETOOLONG)
     else if c < 0 \<and> dget d (log_path k) \<noteq> None then Inl (OSError EINVAL)
     else Inr (nlcount (drop (nat c) (log_of d k))))"
  by (auto simp: count_newlines_def stream_newlines_def fs_read_def log_of_def file_of_def
      count_loop_correct SCAN_CHUNK_BYTES_def split: option.splits)

lemma count_newlines_Some:
  "\<not> NAME_MAX < length (log_path k) \<Longrightarrow> count_newlines d k c (Some e) =
     (if e \<le> c then Inr 0 else if c < 0 \<and> dget d (log_path k) \<noteq> None then Inl (OSError EINVAL)
     else Inr (nlcount (take (nat (e - c)) (drop (nat c) (log_of d k)))))"
  by (auto simp: count_newlines_def stream_newlines_def fs_read_def log_of_def file_of_def
      count_loop_correct SCAN_CHUNK_BYTES_def split: option.splits)

lemma complete_data_end_eq:
  "complete_data_end d k = (if NAME_MAX < length (log_path k) then Inl (OSError ENAMETOOLONG)
     else Inr (cend (log_of d k)))"
  by (auto simp: complete_data_end_def last_complete_end_def fs_read_def log_of_def file_of_def
      last_end_loop_correct SCAN_CHUNK_BYTES_def cend_def split: option.splits)

lemma count_dead_err: "count_dead d k = Inl e \<Longrightarrow> os_or_value e"
  by (auto simp: count_dead_def stream_newlines_def fs_read_def split: if_splits option.splits)

text \<open>The two per-key computations succeed together and agree on the pending and dead counts.\<close>

lemma seed_stats_agree:
  "(\<exists>b p n. seed_key d k = Inr (b, p, n) \<and> stats_key d k = Inr (p, n))
   \<or> (\<exists>e e'. seed_key d k = Inl e \<and> stats_key d k = Inl e' \<and> os_or_value e \<and> os_or_value e')"
proof (cases "read_committed_offset d k")
  case (Inl e)
  then show ?thesis using read_offset_err [OF Inl] by (simp add: seed_key_def stats_key_def)
next
  case (Inr c)
  note c = this
  show ?thesis
  proof (cases "NAME_MAX < length (log_path k)")
    case True
    then show ?thesis by (simp add: seed_key_def stats_key_def c complete_data_end_eq count_newlines_None)
  next
    case False
    let ?f = "log_of d k"
    show ?thesis
    proof (cases "count_dead d k")
      case (Inl e)
      then show ?thesis using count_dead_err [OF Inl] False
        by (simp add: seed_key_def stats_key_def c complete_data_end_eq count_newlines_None)
    next
      case (Inr n)
      show ?thesis
      proof (cases "c < 0")
        case True
        have "log_of d k = []" if "dget d (log_path k) = None"
          using that by (simp add: log_of_def file_of_def)
        with True False c Inr show ?thesis
          by (auto simp: seed_key_def stats_key_def complete_data_end_eq count_newlines_None count_newlines_Some)
      next
        case nn: False
        have "(if int (cend ?f) \<le> c then 0 else nlcount (take (nat (int (cend ?f) - c)) (drop (nat c) ?f)))
            = nlcount (drop (nat c) ?f)"
          using nn nlcount_drop_tail [of "nat c" ?f] nlcount_after_end [of ?f "nat c"]
          by (auto simp: nat_diff_distrib)
        with nn False c Inr show ?thesis
          by (auto simp: seed_key_def stats_key_def complete_data_end_eq count_newlines_None count_newlines_Some)
      qed
    qed
  qed
qed

lemma seed_stats_loop:
  assumes "list_all is_safe_session_component keys" and "a = w + int (in_queue_total s) + int (dead_total s)"
  shows "\<exists>a' w' s'. seed_loop d keys (a, w) = Inr (a', w') \<and> stats_loop d keys s = Inr s'
     \<and> a' = w' + int (in_queue_total s') + int (dead_total s')"
  using assms
proof (induction keys arbitrary: a w s)
  case (Cons k keys)
  from seed_stats_agree [of d k] show ?case
  proof (elim disjE exE conjE)
    fix b p n
    assume k: "seed_key d k = Inr (b, p, n)" "stats_key d k = Inr (p, n)"
    let ?ws = "max 0 (int b - int n)"
    let ?s = "\<lparr>per_key = per_key s @ [\<lparr>ks_worker_key = k, ks_in_queue = p, ks_dead = n\<rparr>],
      in_queue_total = in_queue_total s + p, dead_total = dead_total s + n\<rparr>"
    have "list_all is_safe_session_component keys" using Cons.prems by simp
    moreover have "a + ?ws + int p + int n = w + ?ws + int (in_queue_total ?s) + int (dead_total ?s)"
      using Cons.prems by simp
    ultimately obtain a' w' s' where "seed_loop d keys (a + ?ws + int p + int n, w + ?ws) = Inr (a', w')"
      "stats_loop d keys ?s = Inr s'" "a' = w' + int (in_queue_total s') + int (dead_total s')"
      using Cons.IH by blast
    with k Cons.prems show ?thesis by (simp add: Let_def)
  next
    fix e e'
    assume "seed_key d k = Inl e" "stats_key d k = Inl e'" "os_or_value e" "os_or_value e'"
    with Cons show ?thesis by simp
  qed
qed simp

section \<open>Reconciliation\<close>

lemma reconcile_scan_frame:
  "list_all no_nl ls \<Longrightarrow> no_nl t \<Longrightarrow>
   reconcile_scan ps (pos + int (length (frame ls))) pos (frame ls @ t) s
     = (pos + int (length (frame (takeWhile (\<lambda>l. l \<in> set ps) ls))), s + length (takeWhile (\<lambda>l. l \<in> set ps) ls))"
proof (induction ls arbitrary: pos s)
  case Nil
  then show ?case by (simp add: reconcile_scan.simps)
next
  case (Cons l ls)
  then have l: "no_nl l" "list_all no_nl ls" by simp_all
  have rl: "readline (frame (l # ls) @ t) = l @ [NL]"
    using readline_line [OF l(1), of "frame ls @ t"] by simp
  have IH: "reconcile_scan ps (pos + int (length (frame (l # ls)))) (pos + int (length (l @ [NL]))) (frame ls @ t) (s + 1)
      = (pos + int (length (l @ [NL])) + int (length (frame (takeWhile (\<lambda>l. l \<in> set ps) ls))),
         s + 1 + length (takeWhile (\<lambda>l. l \<in> set ps) ls))"
    using Cons.IH [OF l(2) Cons.prems(2), of "pos + int (length (l @ [NL]))" "s + 1"]
    by (simp add: algebra_simps)
  have dr: "drop (length (l @ [NL])) (frame (l # ls) @ t) = frame ls @ t" by simp
  show ?case
    by (subst reconcile_scan.simps) (simp only: rl dr IH Let_def, simp)
qed

lemma reconcile_key_ok:
  assumes ok: "key_ok d k" and ps: "dead_payload_set loads b64d d k = Inr ps"
    and hex: "length (hex_of k) = 32" and log: "dget d (log_path k) \<noteq> None"
    and fits: "cend (log_of d k) < 10 ^ INT_MAX_STR_DIGITS"
  shows "\<exists>d'. reconcile_key loads b64d hex_of k d
      = (length (takeWhile (\<lambda>l. l \<in> set ps) (pending d k)), Inr (), d')
    \<and> key_ok d' k \<and> pending d' k = dropWhile (\<lambda>l. l \<in> set ps) (pending d k)
    \<and> (\<forall>p. p \<noteq> offset_path k \<longrightarrow> p \<noteq> offset_tmp_path k (hex_of k) \<longrightarrow> dget d' p = dget d p)"
proof (cases "ps = []")
  case True
  then show ?thesis using ps ok by (simp add: reconcile_key_def takeWhile_eq_Nil_iff)
next
  case False
  let ?P = "pending d k" and ?o = "int (offset_of d k)"
  let ?T = "takeWhile (\<lambda>l. l \<in> set ps) ?P"
  define pos where "pos = ?o + int (length (frame ?T))"
  have v: "validate_session_id k = Inr ()" and rd: "read_committed_offset d k = Inr ?o"
    using ok by (simp_all add: key_ok_def)
  have dr: "drop (offset_of d k) (log_of d k) = frame ?P @ ctail (log_of d k)" using ok by (rule key_okE)
  obtain f where f: "dget d (log_path k) = Some f" "f = log_of d k"
    using log by (auto simp: log_of_def file_of_def)
  have scan: "reconcile_scan ps (int (cend (log_of d k))) ?o (drop (offset_of d k) f) 0 = (pos, length ?T)"
    using reconcile_scan_frame [OF pending_no_nl no_nl_ctail, of ps ?o d k "log_of d k" 0]
    by (simp add: dr f(2) cend_key_ok [OF ok] pos_def)
  have T: "take (length ?T) ?P = ?T" "drop (length ?T) ?P = dropWhile (\<lambda>l. l \<in> set ps) ?P"
    by (metis append_eq_conv_conj takeWhile_dropWhile_id)+
  have nfits: "pos < 10 ^ INT_MAX_STR_DIGITS"
  proof -
    have "length (frame ?T) \<le> length (frame ?P)"
      by (metis frame_simps(3) le_add1 length_append takeWhile_dropWhile_id)
    then have "pos \<le> int (cend (log_of d k))" by (simp add: pos_def cend_key_ok [OF ok])
    also have "\<dots> < 10 ^ INT_MAX_STR_DIGITS" using fits by (metis of_nat_less_iff of_nat_numeral of_nat_power)
    finally show ?thesis .
  qed
  show ?thesis
  proof (cases "?T = []")
    case True
    then have "reconcile_key loads b64d hex_of k d = (0, Inr (), d)"
      using False by (simp add: reconcile_key_def ps rd complete_data_end_valid [OF v] fs_read_log [OF v] f scan [unfolded f] pos_def)
    with True ok T(2) show ?thesis by simp
  next
    case ne: False
    then have gt: "?o < pos" by (cases ?T) (auto simp: pos_def)
    define d' where "d' = dset (offset_path k) (int_dec pos) (AList.delete (offset_tmp_path k (hex_of k))
        (dset (offset_tmp_path k (hex_of k)) (int_dec pos) d))"
    have "reconcile_key loads b64d hex_of k d = (length ?T, Inr (), d')"
      using False gt v hex
      by (simp add: reconcile_key_def ps rd complete_data_end_valid fs_read_log f scan [unfolded f]
          fs_put_def fs_replace_def d'_def Let_def)
    moreover have "commit (hex_of k) CommitOk k pos (start_qm d) = (Inr (), (start_qm d)\<lparr>files := d'\<rparr>)"
      using v hex by (simp add: commit_def start_qm_def fs_put_def fs_replace_def d'_def Let_def)
    from commit_record [OF _ hex _ _ nfits this, of "length ?T"] ok
    have "key_ok d' k" "pending d' k = drop (length ?T) ?P"
      using length_takeWhile_le [of _ ?P] by (simp_all add: start_qm_def pos_def T(1))
    moreover have "\<forall>p. p \<noteq> offset_path k \<longrightarrow> p \<noteq> offset_tmp_path k (hex_of k) \<longrightarrow> dget d' p = dget d p"
      by (simp add: d'_def)
    ultimately show ?thesis by (simp add: T(2))
  qed
qed

section \<open>Migration\<close>





section \<open>The whole reconciliation pass\<close>

lemma dget_cleanup_tmp: "p \<noteq> tmp \<Longrightarrow> dget (cleanup_tmp d tmp) p = dget d p"
  by (auto simp: cleanup_tmp_def fs_unlink_def split: option.splits)

lemma reconcile_key_frame:
  assumes "reconcile_key loads b64d hex_of k d = (n, r, d')"
    and "p \<noteq> offset_path k" and "p \<noteq> offset_tmp_path k (hex_of k)"
  shows "dget d' p = dget d p"
  using assms
  by (auto simp: reconcile_key_def fs_put_def fs_replace_def dget_cleanup_tmp Let_def
      split: sum.splits if_splits prod.splits option.splits)

definition loads_ok :: "(str \<Rightarrow> pyval res) \<Rightarrow> bool" where
  "loads_ok loads = (\<forall>s e. loads s = Inl e \<longrightarrow> e = ValueError)"

lemma dead_payload_loop_total: "loads_ok loads \<Longrightarrow> \<exists>ps. dead_payload_loop loads b64d lns acc = Inr ps"
  by (induction lns arbitrary: acc) (auto simp: loads_ok_def split: sum.splits)

lemma reconcile_key_err:
  assumes "loads_ok loads" and "reconcile_key loads b64d hex_of k d = (n, Inl e, d')"
  shows "os_or_value e"
proof -
  have "os_or_value e" if "dead_payload_set loads b64d d k = Inl e" for e
    using that dead_payload_loop_total [OF assms(1)]
    by (auto simp: dead_payload_set_def fs_read_def split: if_splits option.splits)
      (metis Inl_Inr_False)
  with assms(2) show ?thesis
    by (auto simp: reconcile_key_def fs_put_def fs_replace_def fs_read_def Let_def bind_res_Inl_iff
        dest: read_offset_err complete_end_err
        split: sum.splits if_splits prod.splits option.splits)
qed

lemma reconcile_loop_frame:
  assumes "reconcile_loop loads b64d hex_of keys m d = (r, d')" and "k \<notin> set keys"
  shows "dget d' (log_path k) = dget d (log_path k)" and "dget d' (offset_path k) = dget d (offset_path k)"
    and "dget d' (dead_path k) = dget d (dead_path k)"
proof -
  have "dget d' (log_path k) = dget d (log_path k) \<and> dget d' (offset_path k) = dget d (offset_path k)
    \<and> dget d' (dead_path k) = dget d (dead_path k)"
    using assms
  proof (induction keys arbitrary: m d)
    case (Cons k' keys)
    obtain n r1 d1 where rk: "reconcile_key loads b64d hex_of k' d = (n, r1, d1)"
      by (cases "reconcile_key loads b64d hex_of k' d")
    have "dget d1 (log_path k) = dget d (log_path k)" "dget d1 (offset_path k) = dget d (offset_path k)"
      "dget d1 (dead_path k) = dget d (dead_path k)"
      using reconcile_key_frame [OF rk] Cons.prems(2) by auto
    with Cons rk show ?case by (auto split: if_splits sum.splits)
  qed simp
  then show "dget d' (log_path k) = dget d (log_path k)" and "dget d' (offset_path k) = dget d (offset_path k)"
    and "dget d' (dead_path k) = dget d (dead_path k)" by simp_all
qed

lemma reconcile_loop_ok:
  assumes "loads_ok loads" and "\<forall>k\<in>set keys. \<not> NAME_MAX < length (log_path k)"
  shows "\<exists>n d'. reconcile_loop loads b64d hex_of keys m d = (Inr n, d')"
  using assms(2)
proof (induction keys arbitrary: m d)
  case (Cons k keys)
  obtain n r d1 where rk: "reconcile_key loads b64d hex_of k d = (n, r, d1)"
    by (cases "reconcile_key loads b64d hex_of k d")
  with Cons reconcile_key_err [OF assms(1), of b64d hex_of k d n] show ?case
    by (cases r) auto
qed simp

lemma dead_payload_set_cong:
  "dget d' (dead_path k) = dget d (dead_path k) \<Longrightarrow> dead_payload_set loads b64d d' k = dead_payload_set loads b64d d k"
  by (simp add: dead_payload_set_def fs_read_def)

lemma reconcile_loop_key:
  assumes lo: "loads_ok loads" and "\<forall>k\<in>set keys. \<not> NAME_MAX < length (log_path k)"
    and "k \<in> set keys" and "distinct keys"
    and "key_ok d k" and "dead_payload_set loads b64d d k = Inr ps" and "length (hex_of k) = 32"
    and "dget d (log_path k) \<noteq> None" and "cend (log_of d k) < 10 ^ INT_MAX_STR_DIGITS"
    and "reconcile_loop loads b64d hex_of keys m d = (r, d')"
  shows "key_ok d' k \<and> pending d' k = dropWhile (\<lambda>l. l \<in> set ps) (pending d k) \<and> log_of d' k = log_of d k"
  using assms(2-)
proof (induction keys arbitrary: m d)
  case (Cons k0 keys)
  obtain n r1 d1 where rk: "reconcile_key loads b64d hex_of k0 d = (n, r1, d1)"
    by (cases "reconcile_key loads b64d hex_of k0 d")
  show ?case
  proof (cases "k0 = k")
    case True
    then have "k \<notin> set keys" using Cons.prems by simp
    from reconcile_key_ok [where hex_of = hex_of, OF Cons.prems(4-8)] rk True
    have d1: "r1 = Inr ()" "key_ok d1 k" "pending d1 k = dropWhile (\<lambda>l. l \<in> set ps) (pending d k)"
      "dget d1 (log_path k) = dget d (log_path k)" by auto
    have "is_safe_session_component k" using Cons.prems(4)
      by (auto simp: key_ok_def validate_session_id_def is_safe_session_id_def split: if_splits)
    then have "\<exists>m'. reconcile_loop loads b64d hex_of keys m' d1 = (r, d')"
      using Cons.prems(1,7,9) True rk d1(1) by auto
    then obtain m' where "reconcile_loop loads b64d hex_of keys m' d1 = (r, d')" by blast
    note fr = reconcile_loop_frame [OF this \<open>k \<notin> set keys\<close>]
    show ?thesis
      using key_ok_cong [OF fr(2,1)] pending_cong [OF fr(2,1)] log_of_cong [of d' k d] d1 fr(1) by simp
  next
    case False
    have same: "dget d1 (log_path k) = dget d (log_path k)" "dget d1 (offset_path k) = dget d (offset_path k)"
      "dget d1 (dead_path k) = dget d (dead_path k)"
      using reconcile_key_frame [OF rk] False by auto
    note c = key_ok_cong [OF same(2,1)] pending_cong [OF same(2,1)] log_of_cong [OF same(1)]
      dead_payload_set_cong [OF same(3), of loads b64d] same(1)
    have "\<exists>m' d2. (d2 = d \<or> d2 = d1) \<and> reconcile_loop loads b64d hex_of keys m' d2 = (r, d')"
      using Cons.prems(1,9) rk reconcile_key_err [OF lo, of b64d hex_of k0 d n _ d1]
      by (auto split: if_splits sum.splits)
    then obtain m' d2 where d2: "d2 = d \<or> d2 = d1" "reconcile_loop loads b64d hex_of keys m' d2 = (r, d')"
      by blast
    have "k \<in> set keys" using Cons.prems(2) False by simp
    with Cons.IH [OF _ this _ _ _ _ _ _ d2(2)] Cons.prems d2(1) c show ?thesis by auto
  qed
qed simp

section \<open>Properties\<close>

text \<open>C11 [pending_views_agree]: on a key in order, the pending count, the recovery scan and the
  reader agree on what is left to drain: the count is the number of pending records, the scan
  reports the key exactly when there is one, and a read of one record is empty exactly when there
  is none.  The scan itself never fails.\<close>

theorem pending_views_agree:
  assumes "key_ok (files q) k"
  shows "pending_count k q = Inr (length (pending (files q) k))
    \<and> (\<exists>ks. recover q = Inr ks \<and> (k \<in> set ks \<longleftrightarrow> pending (files q) k \<noteq> []))
    \<and> (\<exists>b. read_batch k 1 q = Inr b \<and> (b_records b = [] \<longleftrightarrow> pending (files q) k = []))"
proof -
  let ?d = "files q"
  have v: "validate_session_id k = Inr ()" using assms by (simp add: key_ok_def)
  then have ne: "k \<noteq> []" by (auto simp: validate_session_id_def is_safe_session_id_def
      is_safe_session_component_def split: if_splits)
  have "k \<in> set (map log_stem (sort (log_names ?d)))" if "pending ?d k \<noteq> []"
  proof (rule log_in_names [OF _ ne])
    show "dget ?d (log_path k) \<noteq> None"
      using that by (auto simp: pending_def log_of_def file_of_def split: option.splits)
  qed
  then have "\<exists>ks. recover q = Inr ks \<and> (k \<in> set ks \<longleftrightarrow> pending ?d k \<noteq> [])"
    using recoverable_key_ok [OF assms] by (auto simp: recover_def recover_loop_eq)
  moreover have "cursors p (take 1 ls) = [] \<longleftrightarrow> ls = []" for p ls by (cases ls) auto
  ultimately show ?thesis
    by (simp add: pending_count_def v pending_in_ok [OF assms] read_batch_ok [OF assms])
qed

lemma pending_views_agree_witness: "pending_count ''s'' (start_qm sample_dir) = Inr 1"
  using pending_views_agree [of "start_qm sample_dir" "''s''"]
  by (simp add: start_qm_def sample_key_ok sample_pending)

text \<open>C9 [seed_conserves]: the counters seeded at boot conserve events.  Whatever the offset and log
  files hold (corrupt, negative or too large offsets included), the accepted seed equals the
  written seed plus the records in the queue plus the dead letters that the statistics refresh
  reports, so the residual starts at zero.  It is enough that no key is an unsafe name.\<close>

theorem seed_conserves:
  assumes "list_all is_safe_session_component (all_worker_keys (files q))"
  shows "\<exists>accepted written s q'. recovery_seed_counts q = Inr (accepted, written)
    \<and> refresh_all_stats q = (Inr s, q')
    \<and> accepted = written + int (in_queue_total s) + int (dead_total s)"
  using seed_stats_loop [OF assms, of 0 0 no_stats "files q"]
  by (auto simp: recovery_seed_counts_def refresh_all_stats_def no_stats_def)

lemma seed_conserves_witness:
  "\<exists>accepted written s q'. recovery_seed_counts (start_qm sample_dir) = Inr (accepted, written)
    \<and> refresh_all_stats (start_qm sample_dir) = (Inr s, q')
    \<and> accepted = written + int (in_queue_total s) + int (dead_total s)"
proof -
  have "list_all is_safe_session_component (all_worker_keys sample_dir)" by code_simp
  then show ?thesis using seed_conserves [of "start_qm sample_dir"] by (simp add: start_qm_def)
qed

text \<open>C8 [reconcile_skips_only_dead]: the boot pass over all keys moves the offset of a key in order
  past exactly the leading pending records that are in its dead-letter file: it stops at the first
  record that is not, never skips one, and rewrites no log.  The decoder may raise
  \<^verbatim>\<open>ValueError\<close> on any line.\<close>

theorem reconcile_skips_only_dead:
  assumes "loads_ok loads" and "\<forall>k\<in>set (all_worker_keys (files q)). \<not> NAME_MAX < length (log_path k)"
    and "key_ok (files q) k" and "dead_payload_set loads b64d (files q) k = Inr ps"
    and "length (hex_of k) = 32" and "dget (files q) (log_path k) \<noteq> None"
    and "cend (log_of (files q) k) < 10 ^ INT_MAX_STR_DIGITS"
  shows "\<exists>n q'. recovery_reconcile_dead loads b64d hex_of q = (Inr n, q')
    \<and> key_ok (files q') k \<and> log_of (files q') k = log_of (files q) k
    \<and> pending (files q') k = dropWhile (\<lambda>l. l \<in> set ps) (pending (files q) k)"
proof -
  obtain n d' where l: "reconcile_loop loads b64d hex_of (all_worker_keys (files q)) 0 (files q) = (Inr n, d')"
    using reconcile_loop_ok [OF assms(1,2)] by blast
  have ne: "k \<noteq> []" using assms(3) by (auto simp: key_ok_def validate_session_id_def is_safe_session_id_def
      is_safe_session_component_def split: if_splits)
  have "k \<in> set (all_worker_keys (files q))"
    using log_in_names [OF assms(6) ne] by (auto simp: all_worker_keys_def)
  moreover have "distinct (all_worker_keys (files q))" by (simp add: all_worker_keys_def)
  ultimately show ?thesis
    using reconcile_loop_key [where hex_of = hex_of, OF assms(1,2) _ _ assms(3-7) l] l
    by (auto simp: recovery_reconcile_dead_def)
qed

lemma reconcile_skips_only_dead_witness:
  "\<exists>n q'. recovery_reconcile_dead (\<lambda>s. if s = ''x'' then Inr (PDict [(''payload'', PStr ''b'')]) else Inl ValueError)
      (\<lambda>s. None) (\<lambda>s. replicate 32 (CHR ''0'')) (start_qm sample_dir) = (Inr n, q')
    \<and> pending (files q') ''s'' = []"
proof -
  let ?loads = "\<lambda>s. if s = ''x'' then Inr (PDict [(''payload'', PStr ''b'')]) else Inl ValueError"
  have "loads_ok ?loads" by (auto simp: loads_ok_def split: if_splits)
  moreover have "all_worker_keys sample_dir = [''s'']" by code_simp
  moreover have "\<not> NAME_MAX < length (log_path ''s'')" by code_simp
  moreover have "dead_payload_set ?loads (\<lambda>s. None) sample_dir ''s'' = Inr [''b'']" by code_simp
  moreover have "dget sample_dir (log_path ''s'') \<noteq> None" by code_simp
  moreover have "cend (log_of sample_dir ''s'') = 4" by code_simp
  ultimately show ?thesis
    using reconcile_skips_only_dead [of ?loads "start_qm sample_dir" "''s''" "\<lambda>s. None" "[''b'']"
        "\<lambda>s. replicate 32 (CHR ''0'')"]
    by (auto simp: start_qm_def sample_key_ok sample_pending fits_small)
qed







end
