(* ===== verification/QueueGuards.thy ===== *)
theory QueueGuards
  imports QueueSpec
begin

text \<open>
  The per-key guards of \<^verbatim>\<open>queue_manager.py\<close> under interleaving.  A drainer that holds a guard
  through \<^verbatim>\<open>append_waiter\<close> shares the key with appenders, deleters and other holders; the step
  relation lists what they may do.  As long as the drainer holds the guard, the table keeps mapping
  the key to that very guard, so a later append notifies the object the drainer waits on.
\<close>

definition refs_ok :: "qm \<Rightarrow> bool" where
  "refs_ok q = ((\<forall>k g. dget (guards q) k = Some g \<longrightarrow> g < next_ref q)
     \<and> (\<forall>k k' g. dget (guards q) k = Some g \<longrightarrow> dget (guards q) k' = Some g \<longrightarrow> k = k'))"

definition holds :: "str \<Rightarrow> nat \<Rightarrow> qm \<Rightarrow> bool" where
  "holds k g q = (refs_ok q \<and> dget (guards q) k = Some g \<and> 1 \<le> waiters (gheap q g))"

text \<open>What the other coroutines of the process may do while one holds guard \<^verbatim>\<open>g\<close> of key \<^verbatim>\<open>k\<close>:
  run an operation on any key, enter a guard, clear a notification, or leave a guard they hold
  themselves.\<close>

inductive other_step :: "str \<Rightarrow> nat \<Rightarrow> qm \<Rightarrow> qm \<Rightarrow> bool" for k g where
  append: "other_step k g q (snd (append_queue sc k' raw q))"
| dead: "other_step k g q (snd (dead_letter dumps b64 ts sc k' raw err q))"
| drained: "other_step k g q (snd (delete_drained k' q))"
| session: "other_step k g q (snd (delete_session k' q))"
| purge: "other_step k g q (snd (purge_dead_letters k' q))"
| commit: "other_step k g q (snd (commit hex io k' new q))"
| enter: "other_step k g q (snd (guard_enter k' q))"
| clear: "other_step k g q (snd (clear_before_read g' q))"
| leave: "dget (guards q) k' = Some g' \<Longrightarrow> (k' = k \<longrightarrow> 2 \<le> waiters (gheap q g')) \<Longrightarrow>
    other_step k g q (guard_exit k' g' q)"

text \<open>What an operation's body may do to the guards: the table, the references and the holder counts
  are left alone and no generation goes back.\<close>

definition quiet :: "qm \<Rightarrow> qm \<Rightarrow> bool" where
  "quiet q q' = (guards q' = guards q \<and> next_ref q' = next_ref q
     \<and> (\<forall>h. waiters (gheap q' h) = waiters (gheap q h)
           \<and> append_generation (gheap q h) \<le> append_generation (gheap q' h)))"

lemma quiet_refl [simp]: "quiet q q"
  by (simp add: quiet_def)

lemma quiet_trans: "quiet q1 q2 \<Longrightarrow> quiet q2 q3 \<Longrightarrow> quiet q1 q3"
  by (auto simp: quiet_def intro: le_trans)

lemma quiet_files [simp]: "quiet q (q'\<lparr>files := d\<rparr>) = quiet q q'"
  by (simp add: quiet_def)

lemma quiet_upd_guard:
  assumes "\<And>x. waiters (f x) = waiters x" and "\<And>x. append_generation x \<le> append_generation (f x)"
    and q: "quiet q q'"
  shows "quiet q (upd_guard g f q')"
proof -
  have "append_generation (gheap q g) \<le> append_generation (gheap q' g)" using q by (simp add: quiet_def)
  also have "\<dots> \<le> append_generation (f (gheap q' g))" by (rule assms(2))
  finally show ?thesis using q by (simp add: quiet_def upd_guard_def assms(1))
qed

lemma guard_enter_cases:
  obtains (present) g where "dget (guards q) k = Some g"
      "guard_enter k q = (g, upd_guard g (\<lambda>kg. kg\<lparr>waiters := waiters kg + 1\<rparr>) q)"
  | (fresh) "dget (guards q) k = None"
      "guard_enter k q = (next_ref q, q\<lparr>next_ref := next_ref q + 1, guards := dset k (next_ref q) (guards q),
         gheap := (gheap q)(next_ref q := new_guard\<lparr>waiters := 1\<rparr>)\<rparr>)"
proof (cases "dget (guards q) k")
  case None
  then show ?thesis
    by (intro fresh) (auto simp: guard_enter_def upd_guard_def new_guard_def Let_def)
next
  case (Some g)
  then show ?thesis by (intro present) (auto simp: guard_enter_def)
qed

lemma enter_holds:
  assumes "holds k g q"
  shows "holds k g (snd (guard_enter k' q))"
    and "append_generation (gheap q g) \<le> append_generation (gheap (snd (guard_enter k' q)) g)"
    and "k' = k \<Longrightarrow> fst (guard_enter k' q) = g \<and> 2 \<le> waiters (gheap (snd (guard_enter k' q)) g)"
    and "k' \<noteq> k \<Longrightarrow> fst (guard_enter k' q) \<noteq> g"
    and "dget (guards (snd (guard_enter k' q))) k' = Some (fst (guard_enter k' q))"
proof -
  have *: "holds k g (snd (guard_enter k' q))
    \<and> append_generation (gheap q g) \<le> append_generation (gheap (snd (guard_enter k' q)) g)
    \<and> (k' = k \<longrightarrow> fst (guard_enter k' q) = g \<and> 2 \<le> waiters (gheap (snd (guard_enter k' q)) g))
    \<and> (k' \<noteq> k \<longrightarrow> fst (guard_enter k' q) \<noteq> g)
    \<and> dget (guards (snd (guard_enter k' q))) k' = Some (fst (guard_enter k' q))"
  proof (cases rule: guard_enter_cases [of q k'])
    case (present g')
    have "g' = g \<longleftrightarrow> k' = k"
      using assms present(1) by (auto simp: holds_def refs_ok_def)
    then show ?thesis
      using assms present(1) unfolding present(2) fst_conv snd_conv
      by (auto simp: holds_def refs_ok_def upd_guard_def)
  next
    case fresh
    have lt: "h < next_ref q" if "dget (guards q) j = Some h" for j h
      using assms that by (auto simp: holds_def refs_ok_def)
    have "k' \<noteq> k" using assms fresh by (auto simp: holds_def)
    moreover have "next_ref q \<noteq> g" "dget (guards q) j \<noteq> Some (next_ref q)" for j
      using assms lt [of k g] lt [of j "next_ref q"] by (auto simp: holds_def)
    ultimately show ?thesis
      using assms lt fresh(1) unfolding fresh(2) fst_conv snd_conv
      by (auto simp: holds_def refs_ok_def intro: less_SucI)
  qed
  then show "holds k g (snd (guard_enter k' q))"
    and "append_generation (gheap q g) \<le> append_generation (gheap (snd (guard_enter k' q)) g)"
    and "k' = k \<Longrightarrow> fst (guard_enter k' q) = g \<and> 2 \<le> waiters (gheap (snd (guard_enter k' q)) g)"
    and "k' \<noteq> k \<Longrightarrow> fst (guard_enter k' q) \<noteq> g"
    and "dget (guards (snd (guard_enter k' q))) k' = Some (fst (guard_enter k' q))"
    by blast+
qed

lemma exit_holds:
  assumes "holds k g q" and "dget (guards q) k' = Some g'" and "k' = k \<longrightarrow> 2 \<le> waiters (gheap q g')"
  shows "holds k g (guard_exit k' g' q)"
    and "append_generation (gheap (guard_exit k' g' q) g) = append_generation (gheap q g)"
proof -
  have ne: "g' \<noteq> g" if "k' \<noteq> k"
    using assms that by (auto simp: holds_def refs_ok_def)
  show "holds k g (guard_exit k' g' q)"
    using assms ne by (cases "k' = k") (auto simp: holds_def refs_ok_def guard_exit_def upd_guard_def Let_def)
  show "append_generation (gheap (guard_exit k' g' q) g) = append_generation (gheap q g)"
    by (auto simp: guard_exit_def upd_guard_def Let_def)
qed

lemma quiet_holds:
  "quiet q q' \<Longrightarrow> holds k g q \<Longrightarrow> holds k g q'"
  by (simp add: quiet_def holds_def refs_ok_def)

lemma with_guard_holds:
  assumes "holds k g q" and body: "\<And>h q. quiet q (snd (body h q))"
  shows "holds k g (snd (with_guard k' body q))"
    and "append_generation (gheap q g) \<le> append_generation (gheap (snd (with_guard k' body q)) g)"
    and "k' = k \<Longrightarrow> (\<And>q. append_generation (gheap q g) < append_generation (gheap (snd (body g q)) g)) \<Longrightarrow>
      append_generation (gheap q g) < append_generation (gheap (snd (with_guard k' body q)) g)"
proof -
  obtain h q1 where e: "guard_enter k' q = (h, q1)" by (cases "guard_enter k' q")
  obtain r q2 where b: "body h q1 = (r, q2)" by (cases "body h q1")
  have q': "snd (with_guard k' body q) = guard_exit k' h q2" by (simp add: with_guard_def e b)
  note en = enter_holds [OF assms(1), of k', unfolded e fst_conv snd_conv]
  have qt: "quiet q1 q2" using body [of q1 h] b by simp
  have h2: "holds k g q2" by (rule quiet_holds [OF qt en(1)])
  have tab: "dget (guards q2) k' = Some h" using en(5) qt by (simp add: quiet_def)
  have w: "k' = k \<longrightarrow> 2 \<le> waiters (gheap q2 h)"
    using en(3) qt by (metis quiet_def)
  note ex = exit_holds [OF h2 tab w]
  show "holds k g (snd (with_guard k' body q))" unfolding q' by (rule ex(1))
  have g12: "append_generation (gheap q1 g) \<le> append_generation (gheap q2 g)"
    using qt by (simp add: quiet_def)
  show "append_generation (gheap q g) \<le> append_generation (gheap (snd (with_guard k' body q)) g)"
    unfolding q' ex(2) using en(2) g12 by simp
  assume "k' = k" and inc: "\<And>q. append_generation (gheap q g) < append_generation (gheap (snd (body g q)) g)"
  then have "h = g" using en(3) by simp
  with inc [of q1] b have "append_generation (gheap q1 g) < append_generation (gheap q2 g)" by simp
  then show "append_generation (gheap q g) < append_generation (gheap (snd (with_guard k' body q)) g)"
    unfolding q' ex(2) using en(2) by simp
qed

lemma holds_append:
  assumes "holds k g q"
  shows "holds k g (snd (append_queue sc k' raw q))"
    and "append_generation (gheap q g) \<le> append_generation (gheap (snd (append_queue sc k' raw q)) g)"
    and "validate_session_id k' = Inr () \<Longrightarrow> k' = k \<Longrightarrow>
      append_generation (gheap q g) < append_generation (gheap (snd (append_queue sc k' raw q)) g)"
proof -
  let ?body = "\<lambda>g q. let q = upd_guard g (\<lambda>kg. kg\<lparr>deferred_removal := False\<rparr>) q;
             (r, d) = write_record sc (files q) (log_path k') (rec_line raw);
             q = q\<lparr>files := d\<rparr>
         in (r, upd_guard g (\<lambda>kg. kg\<lparr>append_generation := append_generation kg + 1, append_event := True\<rparr>) q)"
  have ap: "append_queue sc k' raw q = with_guard k' ?body q" if "validate_session_id k' = Inr ()"
    using that by (simp add: append_queue_def)
  have rej: "append_queue sc k' raw q = (Inl e, q)" if "validate_session_id k' = Inl e" for e
    using that by (simp add: append_queue_def)
  have qt: "quiet q (snd (?body h q))" for h q
    by (auto simp: Let_def split: prod.splits intro!: quiet_upd_guard)
  have inc: "append_generation (gheap q g) < append_generation (gheap (snd (?body g q)) g)" for q
    by (auto simp: Let_def upd_guard_def split: prod.splits)
  note wg = with_guard_holds [OF assms, of ?body k', OF qt]
  show "holds k g (snd (append_queue sc k' raw q))"
    by (cases "validate_session_id k'") (use assms rej ap wg(1) in auto)
  show "append_generation (gheap q g) \<le> append_generation (gheap (snd (append_queue sc k' raw q)) g)"
    by (cases "validate_session_id k'") (use rej ap wg(2) in auto)
  assume "validate_session_id k' = Inr ()" "k' = k"
  then show "append_generation (gheap q g) < append_generation (gheap (snd (append_queue sc k' raw q)) g)"
    using wg(3) inc ap by metis
qed

text \<open>The guarded operations that only rewrite files and the removal mark.\<close>

definition tame :: "(qm \<Rightarrow> 'a res \<times> qm) \<Rightarrow> bool" where
  "tame f = (\<forall>k g q. holds k g q \<longrightarrow> holds k g (snd (f q))
     \<and> append_generation (gheap q g) \<le> append_generation (gheap (snd (f q)) g))"

lemma tameD: "tame f \<Longrightarrow> holds k g q \<Longrightarrow> holds k g (snd (f q))
    \<and> append_generation (gheap q g) \<le> append_generation (gheap (snd (f q)) g)"
  by (simp add: tame_def)

lemma tame_with_guard: "(\<And>h q. quiet q (snd (body h q))) \<Longrightarrow> tame (with_guard k body)"
  using with_guard_holds(1,2) unfolding tame_def by metis

lemma tame_reject: "tame (\<lambda>q. (Inl e, q))"
  by (simp add: tame_def)

lemma tame_quiet: "(\<And>q. quiet q (snd (f q))) \<Longrightarrow> tame f"
  using quiet_holds unfolding tame_def quiet_def by metis

lemma tame_validated:
  assumes "\<And>q. f q = (case validate_session_id k of Inl e \<Rightarrow> (Inl e, q) | Inr _ \<Rightarrow> with_guard k body q)"
    and "\<And>h q. quiet q (snd (body h q))"
  shows "tame f"
proof (cases "validate_session_id k")
  case (Inl e)
  then have "f = (\<lambda>q. (Inl e, q))" using assms(1) by (intro ext) simp
  then show ?thesis by (simp add: tame_reject)
next
  case (Inr u)
  then have "f = with_guard k body" using assms(1) by (intro ext) simp
  then show ?thesis by (simp add: tame_with_guard assms(2))
qed

lemma tame_dead_letter: "tame (dead_letter dumps b64 ts sc k raw err)"
  by (rule tame_validated [OF dead_letter_def [unfolded Let_def]])
    (simp split: prod.splits)

lemma tame_delete_drained: "tame (delete_drained k)"
  by (rule tame_validated [OF delete_drained_def])
    (auto simp: Let_def split: prod.splits intro!: quiet_upd_guard)

lemma tame_delete_session: "tame (delete_session k)"
  by (rule tame_validated [OF delete_session_def])
    (auto simp: Let_def split: prod.splits sum.splits intro!: quiet_upd_guard)

lemma tame_purge: "tame (purge_dead_letters k)"
  by (rule tame_validated [OF purge_dead_letters_def])
    (auto split: sum.splits)

lemma tame_commit: "tame (commit hex io k new)"
  by (rule tame_quiet) (simp add: commit_def Let_def split: sum.splits commit_io.splits)

lemma other_step_holds:
  "other_step k g q q' \<Longrightarrow> holds k g q \<Longrightarrow>
     holds k g q' \<and> append_generation (gheap q g) \<le> append_generation (gheap q' g)"
proof (induction rule: other_step.induct)
  case (append q sc k' raw)
  then show ?case using holds_append by blast
next
  case (enter q k')
  then show ?case using enter_holds by blast
next
  case (clear q g')
  then show ?case
    using quiet_holds [of q "snd (clear_before_read g' q)"] quiet_upd_guard [of "\<lambda>kg. kg\<lparr>append_event := False\<rparr>" q q g']
    by (simp add: clear_before_read_def Let_def quiet_def)
next
  case (leave q k' g')
  then show ?case using exit_holds by (metis order_refl)
qed (erule tameD [OF tame_dead_letter] tameD [OF tame_delete_drained] tameD [OF tame_delete_session]
    tameD [OF tame_purge] tameD [OF tame_commit])+

lemma other_steps_holds:
  "(other_step k g)\<^sup>*\<^sup>* q q' \<Longrightarrow> holds k g q \<Longrightarrow>
     holds k g q' \<and> append_generation (gheap q g) \<le> append_generation (gheap q' g)"
proof (induction rule: rtranclp_induct)
  case (step y z)
  then show ?case using other_step_holds by (meson le_trans)
qed simp

section \<open>Properties\<close>

text \<open>C7 [no_lost_wakeup]: a drainer holds the guard of its key, clears the notification and takes the
  generation; then, whatever the other coroutines do before and after, once an append to that key
  has run (even one that raised), the drainer sees the generation changed on the guard it holds,
  and the table still maps the key to that guard, although drained keys are deleted and their
  guards dropped in between.\<close>

theorem no_lost_wakeup:
  assumes "holds k g q" and "validate_session_id k = Inr ()"
    and "clear_before_read g q = (generation, q1)"
    and "(other_step k g)\<^sup>*\<^sup>* q1 q2" and "append_queue sc k raw q2 = (r, q3)"
    and "(other_step k g)\<^sup>*\<^sup>* q3 q4"
  shows "changed_since g generation q4 \<and> dget (guards q4) k = Some g"
proof -
  have gen: "generation = append_generation (gheap q1 g)"
    using assms(3) by (auto simp: clear_before_read_def Let_def)
  have "other_step k g q q1" using assms(3) other_step.clear [of k g q g] by simp
  then have "holds k g q1" using other_step_holds assms(1) by blast
  with assms(4) have h2: "holds k g q2" "generation \<le> append_generation (gheap q2 g)"
    using other_steps_holds gen by blast+
  have h3: "holds k g q3" "append_generation (gheap q2 g) < append_generation (gheap q3 g)"
    using holds_append [OF h2(1), where sc = sc and k' = k and raw = raw] assms(2,5) by simp_all
  with assms(6) have "holds k g q4" "append_generation (gheap q3 g) \<le> append_generation (gheap q4 g)"
    using other_steps_holds by blast+
  with h2(2) h3(2) show ?thesis by (simp add: changed_since_def holds_def)
qed

lemma no_lost_wakeup_witness:
  "changed_since 0 0 (snd (append_queue [] ''s'' ''r''
     (snd (clear_before_read 0 (snd (guard_enter ''s'' (start_qm sample_dir)))))))"
proof -
  let ?q = "snd (guard_enter ''s'' (start_qm sample_dir))"
  let ?q1 = "snd (clear_before_read 0 ?q)"
  have h: "holds ''s'' 0 ?q"
    by (simp add: holds_def refs_ok_def guard_enter_def start_qm_def upd_guard_def Let_def new_guard_def)
  have c: "clear_before_read 0 ?q = (0, ?q1)"
    by (simp add: clear_before_read_def guard_enter_def start_qm_def upd_guard_def Let_def new_guard_def)
  show ?thesis
    using no_lost_wakeup [OF h sample_valid c rtranclp.rtrancl_refl, of "[]" "''r''"
        "fst (append_queue [] ''s'' ''r'' ?q1)" "snd (append_queue [] ''s'' ''r'' ?q1)",
        OF _ rtranclp.rtrancl_refl] by simp
qed

end
