(* ===== verification/Registry.thy ===== *)
theory Registry
  imports QueueSpec Pipeline
begin

text \<open>
  \<^verbatim>\<open>registry.py\<close>: the drainer of one session.  It reads batches after the committed offset, dispatches
  each record, flushes the graph and only then acknowledges; a batch that keeps failing is taken apart
  record by record, the ones that fail alone are dead-lettered; a failure of the infrastructure is retried
  and never dead-letters.

  The graph store, the handlers and the receipts behind it are a state of any type, with the operations the
  drainer calls as parameters: \<^verbatim>\<open>dispatch\<close> (the event pipeline), \<^verbatim>\<open>flush\<close>, \<^verbatim>\<open>discard_buffer\<close>, \<^verbatim>\<open>close\<close>
  and the hooks of the recovery registry, which do nothing on the live one.  \<^verbatim>\<open>loads\<close>, \<^verbatim>\<open>dumps\<close> and \<^verbatim>\<open>b64\<close> are the library's
  codecs.  What the devices do to successive commits and dead-letter writes, the temporary file names and
  the clock are functions of a call counter.  The locks and permits that keep two drainers from flushing
  at once, task cancellation, the time stamps and the ring buffer of recent events are left out.
\<close>

section \<open>Parameters and state\<close>

record 'g drain_env =
  de_loads :: "str \<Rightarrow> pyval res"
  de_dumps :: "pyval \<Rightarrow> str"
  de_b64 :: "bytes \<Rightarrow> str"
  de_dispatch :: "pyval \<Rightarrow> pyval \<Rightarrow> pyval \<Rightarrow> str option \<Rightarrow> 'g \<Rightarrow> unit res \<times> 'g"
  de_flush :: "'g \<Rightarrow> unit res \<times> 'g"
  de_discard :: "'g \<Rightarrow> 'g"
  de_close :: "'g \<Rightarrow> 'g"
  de_pre_flush :: "'g \<Rightarrow> unit res \<times> 'g"
  de_eligible :: "qrecord list \<Rightarrow> 'g \<Rightarrow> unit res \<times> 'g"
  de_flushed :: "qrecord list \<Rightarrow> 'g \<Rightarrow> unit res \<times> 'g"
  de_written :: "qrecord list \<Rightarrow> 'g \<Rightarrow> 'g"
  de_quarantined :: "qrecord \<Rightarrow> 'g \<Rightarrow> unit res \<times> 'g"
  de_commit_io :: "nat \<Rightarrow> str \<times> commit_io"
  de_dead_io :: "nat \<Rightarrow> wr list \<times> pyval"
  de_error_text :: "exc \<Rightarrow> str"
  de_max_attempts :: nat
  de_batch_size :: int
  de_recovery :: bool

record 'g drain =
  dr_key :: str
  dr_q :: qm
  dr_graph :: 'g
  dr_calls :: nat
  written_total :: nat
  write_retries_total :: nat
  last_event :: pyval
  events_processed :: nat
  error_count :: nat
  dr_completed :: nat
  store_closed :: bool
  registered :: bool
  attempts :: nat
  transient_attempts :: nat

type_synonym ('g, 'a) dop = "('g drain, 'a) op"

definition DRAIN_MAX_BATCH :: int where
  "DRAIN_MAX_BATCH = 100"

definition FINALIZE_DELETE_ATTEMPTS :: nat where
  "FINALIZE_DELETE_ATTEMPTS = 3"

fun is_transient_infra_error :: "exc \<Rightarrow> bool" where
  "is_transient_infra_error (OSError e) = True"
| "is_transient_infra_error TimeoutError = True"
| "is_transient_infra_error DriverTransient = True"
| "is_transient_infra_error SqliteOperationalError = True"
| "is_transient_infra_error _ = False"

text \<open>\<^verbatim>\<open>min(0.05 * (2 ** (n - 1)), 30.0)\<close> in milliseconds.  The product converts the power of two to a float,
  which raises from two to the 1024th on.\<close>

definition transient_backoff :: "nat \<Rightarrow> nat res" where
  "transient_backoff n =
    (if 1024 \<le> n - 1 then Inl OverflowError else Inr (min (50 * 2 ^ (n - 1)) 30000))"

section \<open>Queue lines\<close>

definition SPOOL_EVENT_IDENTITY :: str where
  "SPOOL_EVENT_IDENTITY = ''_ci_event_identity''"

record parsed_line =
  pl_event :: pyval
  pl_working_dir :: pyval
  pl_data :: pyval
  pl_identity :: "str option"

definition parse_line :: "(str \<Rightarrow> pyval res) \<Rightarrow> bytes \<Rightarrow> parsed_line res" where
  "parse_line loads raw =
    (if \<not> utf8_valid raw then Inl ValueError
     else bind_res (loads raw) (\<lambda>v.
       case v of
         PDict obj \<Rightarrow>
           (case dget obj ''event'' of
              None \<Rightarrow> Inl KeyError
            | Some event \<Rightarrow>
                let wd = any_field obj ''working_dir'' in
                Inr \<lparr>pl_event = event,
                     pl_working_dir = (if truthy wd then wd else PNone),
                     pl_data = (case dget obj ''data'' of None \<Rightarrow> PDict [] | Some d \<Rightarrow> d),
                     pl_identity = (case any_field obj SPOOL_EVENT_IDENTITY of PStr i \<Rightarrow> Some i | _ \<Rightarrow> None)\<rparr>)
       | _ \<Rightarrow> Inl AttributeError))"

text \<open>\<^verbatim>\<open>event in TERMINAL_EVENTS\<close>: an unhashable value raises.\<close>

fun is_terminal :: "pyval \<Rightarrow> bool res" where
  "is_terminal (PStr event) = Inr (event \<in> set TERMINAL_EVENTS)"
| "is_terminal (PList _) = Inl TypeError"
| "is_terminal (PDict _) = Inl TypeError"
| "is_terminal _ = Inr False"

section \<open>Dispatch, flush, acknowledge\<close>

definition on_store :: "('g \<Rightarrow> 'a res \<times> 'g) \<Rightarrow> ('g, 'a) dop" where
  "on_store f w = (let (r, g) = f (dr_graph w) in (r, w\<lparr>dr_graph := g\<rparr>))"

text \<open>The \<^verbatim>\<open>finally\<close> clause calls \<^verbatim>\<open>data.get\<close>, which raises when the payload is no dictionary.\<close>

definition is_dict :: "pyval \<Rightarrow> bool" where
  "is_dict v = (case v of PDict _ \<Rightarrow> True | _ \<Rightarrow> False)"

definition process_one :: "'g drain_env \<Rightarrow> parsed_line \<Rightarrow> ('g, unit) dop" where
  "process_one env pl w =
    (let (r, w) =
       (case on_store (de_dispatch env (pl_event pl) (pl_data pl) (pl_working_dir pl) (pl_identity pl)) w of
          (Inr _, w) \<Rightarrow> (Inr (), w\<lparr>last_event := pl_event pl, events_processed := events_processed w + 1\<rparr>)
        | (Inl e, w) \<Rightarrow> (Inl e, w\<lparr>error_count := error_count w + 1\<rparr>))
     in (if is_dict (pl_data pl) then r else Inl AttributeError, w))"

fun process_records :: "'g drain_env \<Rightarrow> qrecord list \<Rightarrow> nat \<Rightarrow> int option \<Rightarrow> ('g, nat \<times> int option) dop" where
  "process_records env [] safe_count terminal_at = ret (safe_count, terminal_at)"
| "process_records env (r # rs) safe_count terminal_at =
    bnd (lift_res (parse_line (de_loads env) (r_raw r))) (\<lambda>pl.
    bnd (process_one env pl) (\<lambda>_.
    if terminal_at \<noteq> None then process_records env rs safe_count terminal_at
    else bnd (lift_res (is_terminal (pl_event pl))) (\<lambda>t.
      if t then process_records env rs safe_count (Some (r_start r))
      else process_records env rs (safe_count + 1) None)))"

definition process_batch :: "'g drain_env \<Rightarrow> qrecord list \<Rightarrow> ('g, nat \<times> int option) dop" where
  "process_batch env records = process_records env records 0 None"

definition commit_op :: "'g drain_env \<Rightarrow> int \<Rightarrow> ('g, unit) dop" where
  "commit_op env offset w =
    (let (hex, io) = de_commit_io env (dr_calls w);
         (r, q) = commit hex io (dr_key w) offset (dr_q w)
     in (r, w\<lparr>dr_q := q, dr_calls := dr_calls w + 1\<rparr>))"

definition dead_letter_op :: "'g drain_env \<Rightarrow> bytes \<Rightarrow> str \<Rightarrow> ('g, unit) dop" where
  "dead_letter_op env raw err w =
    (let (sc, ts) = de_dead_io env (dr_calls w);
         (r, q) = dead_letter (de_dumps env) (de_b64 env) ts sc (dr_key w) raw err (dr_q w)
     in (r, w\<lparr>dr_q := q, dr_calls := dr_calls w + 1\<rparr>))"

definition discard_op :: "'g drain_env \<Rightarrow> ('g, unit) dop" where
  "discard_op env = modify (\<lambda>w. w\<lparr>dr_graph := de_discard env (dr_graph w)\<rparr>)"

text \<open>The outcome of \<^verbatim>\<open>_flush_and_commit\<close>: an exception before the acknowledgement, the marker of a failed
  acknowledgement with its cause, or success.\<close>

datatype ack_outcome = AckDone | AckFailed exc

definition before_commit :: "'g drain_env \<Rightarrow> qrecord list \<Rightarrow> ('g, unit) dop" where
  "before_commit env records = when_op (records \<noteq> []) (on_store (de_flushed env records))"

definition flush_and_commit ::
  "'g drain_env \<Rightarrow> qrecord list \<Rightarrow> int \<Rightarrow> qrecord list \<Rightarrow> ('g, ack_outcome) dop" where
  "flush_and_commit env records commit_to eligibility =
    bnd (on_store (de_pre_flush env)) (\<lambda>_.
    bnd (on_store (de_eligible env eligibility)) (\<lambda>_.
    bnd (on_store (de_flush env)) (\<lambda>_.
    bnd (before_commit env records) (\<lambda>_ w.
    case commit_op env commit_to w of
      (Inr _, w) \<Rightarrow> (Inr AckDone, w)
    | (Inl e, w) \<Rightarrow> (Inr (AckFailed e), w)))))"

text \<open>\<^verbatim>\<open>_post_commit\<close>: a failure of the notification is swallowed.\<close>

definition post_commit :: "'g drain_env \<Rightarrow> qrecord list \<Rightarrow> 'g drain \<Rightarrow> 'g drain" where
  "post_commit env records w =
    (if records = [] then w else w\<lparr>dr_graph := de_written env records (dr_graph w)\<rparr>)"

definition quarantine_and_commit :: "'g drain_env \<Rightarrow> qrecord \<Rightarrow> ('g, unit) dop" where
  "quarantine_and_commit env r =
    bnd (on_store (de_quarantined env r)) (\<lambda>_. commit_op env (r_end r))"

definition record_written :: "nat \<Rightarrow> 'g drain \<Rightarrow> 'g drain" where
  "record_written n w = w\<lparr>written_total := written_total w + n\<rparr>"

definition record_write_retry :: "('g, unit) dop" where
  "record_write_retry = modify (\<lambda>w. w\<lparr>write_retries_total := write_retries_total w + 1\<rparr>)"

section \<open>Isolation of a poison batch\<close>

datatype isolation = IsoDone | IsoTerminal | IsoTransient

definition dead_and_commit :: "'g drain_env \<Rightarrow> qrecord \<Rightarrow> exc \<Rightarrow> ('g, unit) dop" where
  "dead_and_commit env r e =
    bnd (dead_letter_op env (r_raw r) (de_error_text env e)) (\<lambda>_.
    bnd (discard_op env) (\<lambda>_. quarantine_and_commit env r))"

text \<open>\<^verbatim>\<open>try: _process_one; _flush_and_commit\<close>\<close>

definition deliver_one :: "'g drain_env \<Rightarrow> qrecord \<Rightarrow> parsed_line \<Rightarrow> ('g, ack_outcome) dop" where
  "deliver_one env r pl = bnd (process_one env pl) (\<lambda>_. flush_and_commit env [r] (r_end r) [r])"

fun isolate :: "'g drain_env \<Rightarrow> qrecord list \<Rightarrow> ('g, isolation) dop" where
  "isolate env [] w = (Inr IsoDone, w)"
| "isolate env (r # rs) w =
    (case parse_line (de_loads env) (r_raw r) of
       Inl e \<Rightarrow>
         (case dead_and_commit env r e w of
            (Inl e, w) \<Rightarrow> (Inl e, w)
          | (Inr _, w) \<Rightarrow> isolate env rs w)
     | Inr pl \<Rightarrow>
         (case is_terminal (pl_event pl) of
            Inl e \<Rightarrow> (Inl e, w)
          | Inr True \<Rightarrow> (Inr IsoTerminal, w)
          | Inr False \<Rightarrow>
              (case deliver_one env r pl w of
                 (Inr AckDone, w) \<Rightarrow> isolate env rs (post_commit env [r] (record_written 1 w))
               | (Inr (AckFailed e), w) \<Rightarrow> (Inl e, w)
               | (Inl e, w) \<Rightarrow>
                   if is_transient_infra_error e
                   then (Inr IsoTransient, w\<lparr>dr_graph := de_discard env (dr_graph w)\<rparr>)
                   else (case dead_and_commit env r e w of
                           (Inl e, w) \<Rightarrow> (Inl e, w)
                         | (Inr _, w) \<Rightarrow> isolate env rs w))))"

definition handle_exhausted_batch :: "'g drain_env \<Rightarrow> qrecord list \<Rightarrow> ('g, isolation) dop" where
  "handle_exhausted_batch env records = bnd (discard_op env) (\<lambda>_. isolate env records)"

section \<open>Finalization\<close>

text \<open>\<^verbatim>\<open>_drain_to_eof\<close>: the first argument bounds the rounds of its loop; the result is whether the queue was
  drained, nothing when the bound was reached.\<close>

fun drain_to_eof :: "nat \<Rightarrow> 'g drain_env \<Rightarrow> ('g, bool option) dop" where
  "drain_to_eof 0 env w = (Inr None, w)"
| "drain_to_eof (Suc n) env w =
    (case read_batch (dr_key w) (de_batch_size env) (dr_q w) of
       Inl e \<Rightarrow> (Inl e, w)
     | Inr tail \<Rightarrow>
         if b_records tail = [] then (Inr (Some True), w)
         else case bnd (process_batch env (b_records tail)) (\<lambda>_.
                     flush_and_commit env (b_records tail) (b_end tail) (b_records tail)) w of
           (Inl e, w) \<Rightarrow> (Inr (Some False), w)
         | (Inr (AckFailed e), w) \<Rightarrow> (Inl e, w)
         | (Inr AckDone, w) \<Rightarrow>
             drain_to_eof n env
               (post_commit env (b_records tail) (record_written (length (b_records tail)) w)))"

definition safe_close :: "'g drain_env \<Rightarrow> ('g, unit) dop" where
  "safe_close env = modify (\<lambda>w. w\<lparr>store_closed := True,
     dr_graph := de_close env (if de_recovery env then de_discard env (dr_graph w) else dr_graph w)\<rparr>)"

definition deregister :: "('g, unit) dop" where
  "deregister = modify (\<lambda>w. w\<lparr>registered := False\<rparr>)"

definition delete_drained_op :: "('g, bool) dop" where
  "delete_drained_op w =
    (let (r, q) = delete_drained (dr_key w) (dr_q w) in (r, w\<lparr>dr_q := q\<rparr>))"

text \<open>The bounded delete loop; the argument counts the attempts left.  True: the session is closed next;
  false: it stays registered.\<close>

fun finalize_delete :: "nat \<Rightarrow> nat \<Rightarrow> 'g drain_env \<Rightarrow> ('g, bool option) dop" where
  "finalize_delete fuel 0 env = ret (Some True)"
| "finalize_delete fuel (Suc k) env =
    bnd delete_drained_op (\<lambda>deleted.
    if deleted \<or> k = 0 then ret (Some True)
    else bnd (drain_to_eof fuel env) (\<lambda>r.
      case r of None \<Rightarrow> ret None
      | Some drained \<Rightarrow> if drained then finalize_delete fuel k env else ret (Some False)))"

definition finalize_session :: "nat \<Rightarrow> 'g drain_env \<Rightarrow> ('g, unit option) dop" where
  "finalize_session fuel env =
    bnd (drain_to_eof fuel env) (\<lambda>r.
    case r of
      None \<Rightarrow> ret None
    | Some False \<Rightarrow> ret (Some ())
    | Some True \<Rightarrow>
        bnd (modify (\<lambda>w. w\<lparr>dr_completed := dr_completed w + 1\<rparr>)) (\<lambda>_.
        bnd (finalize_delete fuel FINALIZE_DELETE_ATTEMPTS env) (\<lambda>r.
        case r of
          None \<Rightarrow> ret None
        | Some False \<Rightarrow> ret (Some ())
        | Some True \<Rightarrow> bnd (safe_close env) (\<lambda>_. bnd deregister (\<lambda>_. ret (Some ()))))))"

section \<open>The drain loop\<close>

text \<open>What one round of \<^verbatim>\<open>drain_worker\<close> does: go on, return, or (outside) raise.  The clock enters through
  two readings: whether the maintenance deadline has passed and whether the session is stale.\<close>

datatype round_end = Again | Finished | OutOfFuel

definition transient_retry :: "('g, round_end) dop" where
  "transient_retry =
    bnd (modify (\<lambda>w. w\<lparr>transient_attempts := transient_attempts w + 1\<rparr>)) (\<lambda>_.
    bnd (gets (\<lambda>w. transient_backoff (transient_attempts w))) (\<lambda>delay.
    bnd (lift_res delay) (\<lambda>_. ret Again)))"

definition finish :: "nat \<Rightarrow> 'g drain_env \<Rightarrow> ('g, round_end) dop" where
  "finish fuel env =
    bnd (finalize_session fuel env) (\<lambda>r. ret (case r of None \<Rightarrow> OutOfFuel | Some _ \<Rightarrow> Finished))"

definition idle_round :: "bool \<Rightarrow> bool \<Rightarrow> 'g drain_env \<Rightarrow> ('g, round_end) dop" where
  "idle_round due stale env =
    (if \<not> due then ret Again
     else if stale then bnd (safe_close env) (\<lambda>_. bnd deregister (\<lambda>_. ret Finished))
     else bnd delete_drained_op (\<lambda>_. ret Again))"

definition failed_round :: "nat \<Rightarrow> 'g drain_env \<Rightarrow> qrecord list \<Rightarrow> exc \<Rightarrow> ('g, round_end) dop" where
  "failed_round fuel env records e =
    (if is_transient_infra_error e
     then bnd record_write_retry (\<lambda>_. transient_retry)
     else
       bnd (modify (\<lambda>w. w\<lparr>transient_attempts := 0, attempts := attempts w + 1\<rparr>)) (\<lambda>_.
       bnd record_write_retry (\<lambda>_.
       bnd (gets attempts) (\<lambda>n.
       if n < de_max_attempts env then ret Again
       else bnd (handle_exhausted_batch env records) (\<lambda>r.
         case r of
           IsoTransient \<Rightarrow> bnd (modify (\<lambda>w. w\<lparr>attempts := 0\<rparr>)) (\<lambda>_. transient_retry)
         | IsoTerminal \<Rightarrow> finish fuel env
         | IsoDone \<Rightarrow> bnd (modify (\<lambda>w. w\<lparr>attempts := 0\<rparr>)) (\<lambda>_. ret Again))))))"

definition committed_records :: "batch \<Rightarrow> nat \<times> int option \<Rightarrow> qrecord list" where
  "committed_records b st =
    (case snd st of None \<Rightarrow> b_records b | Some _ \<Rightarrow> take (fst st) (b_records b))"

definition commit_to :: "batch \<Rightarrow> nat \<times> int option \<Rightarrow> int" where
  "commit_to b st = (case snd st of None \<Rightarrow> b_end b | Some t \<Rightarrow> t)"

definition counted :: "batch \<Rightarrow> nat \<times> int option \<Rightarrow> nat" where
  "counted b st = (case snd st of None \<Rightarrow> length (b_records b) | Some _ \<Rightarrow> fst st)"

definition deliver_batch :: "'g drain_env \<Rightarrow> batch \<Rightarrow> ('g, (nat \<times> int option) \<times> ack_outcome) dop" where
  "deliver_batch env b =
    bnd (process_batch env (b_records b)) (\<lambda>st.
    bnd (flush_and_commit env (committed_records b st) (commit_to b st) (b_records b)) (\<lambda>a.
    ret (st, a)))"

definition drain_round :: "nat \<Rightarrow> bool \<Rightarrow> bool \<Rightarrow> 'g drain_env \<Rightarrow> ('g, round_end) dop" where
  "drain_round fuel due stale env w =
    (case read_batch (dr_key w) (de_batch_size env) (dr_q w) of
       Inl e \<Rightarrow> (Inl e, w)
     | Inr b \<Rightarrow>
         if b_records b = [] then idle_round due stale env w
         else case deliver_batch env b w of
           (Inl e, w) \<Rightarrow> failed_round fuel env (b_records b) e w
         | (Inr (_, AckFailed e), w) \<Rightarrow> (Inl e, w)
         | (Inr (st, AckDone), w) \<Rightarrow>
             (let w = post_commit env (committed_records b st) (record_written (counted b st) (w\<lparr>attempts := 0\<rparr>))
              in case snd st of None \<Rightarrow> (Inr Again, w) | Some _ \<Rightarrow> finish fuel env w))"

text \<open>A run of the loop under a list of clock readings.  A raised exception ends the task: the supervisor
  deregisters the worker and closes its store.\<close>

definition on_drain_died :: "'g drain_env \<Rightarrow> ('g, unit) dop" where
  "on_drain_died env = bnd deregister (\<lambda>_. safe_close env)"

fun drain_rounds :: "nat \<Rightarrow> (bool \<times> bool) list \<Rightarrow> 'g drain_env \<Rightarrow> 'g drain \<Rightarrow> 'g drain" where
  "drain_rounds fuel [] env w = w"
| "drain_rounds fuel ((due, stale) # ticks) env w =
    (case drain_round fuel due stale env w of
       (Inl e, w) \<Rightarrow> snd (on_drain_died env w)
     | (Inr Again, w) \<Rightarrow> drain_rounds fuel ticks env w
     | (Inr _, w) \<Rightarrow> w)"

end
