(* ===== verification/DrainSpec.thy ===== *)
theory DrainSpec
  imports Registry
begin

text \<open>
  What the drainer promises.  The abstract state is a ledger: the records still pending, the lines of the
  dead-letter file, the count of written records and the store.  It moves in four ways only: the store
  changes without losing what it has delivered; the oldest records, all delivered, are acknowledged and
  counted; the oldest record is set aside with its dead letter, acknowledged or not; a failing dead-letter
  write leaves debris in the dead-letter file.  The locale \<^verbatim>\<open>graph_sink\<close> states what the drainer relies on
  from the store and the pipeline; inside it every round of the drain loop is shown to be a sequence of
  ledger steps.
\<close>

section \<open>The ledger\<close>

record 'g ledger =
  l_pend :: "bytes list"
  l_letters :: "bytes list"
  l_written :: nat
  l_store :: 'g

definition qdir :: "'g drain \<Rightarrow> dir" where
  "qdir w = files (dr_q w)"

definition qpend :: "'g drain \<Rightarrow> bytes list" where
  "qpend w = pending (qdir w) (dr_key w)"

definition qdead :: "'g drain \<Rightarrow> bytes" where
  "qdead w = file_of (qdir w) (dead_path (dr_key w))"

definition ledger_of :: "'g drain \<Rightarrow> 'g ledger" where
  "ledger_of w = \<lparr>l_pend = qpend w, l_letters = clines (qdead w),
     l_written = written_total w, l_store = dr_graph w\<rparr>"

text \<open>A line of the dead-letter file that carries a record.\<close>

definition letter_for :: "'g drain_env \<Rightarrow> bytes \<Rightarrow> bytes \<Rightarrow> bool" where
  "letter_for env raw l = (\<exists>ts err. l = de_dumps env (dead_record (de_b64 env) ts raw err))"

inductive settles ::
  "'g drain_env \<Rightarrow> ('g \<Rightarrow> bytes \<Rightarrow> bool) \<Rightarrow> 'g ledger \<Rightarrow> 'g ledger \<Rightarrow> bool" for env delivered where
  move: "(\<And>r. delivered (l_store a) r \<Longrightarrow> delivered g r) \<Longrightarrow> settles env delivered a (a\<lparr>l_store := g\<rparr>)"
| acknowledge: "l_pend a = ps @ p \<Longrightarrow> (\<And>r. r \<in> set ps \<Longrightarrow> delivered (l_store a) r) \<Longrightarrow>
    settles env delivered a (a\<lparr>l_pend := p, l_written := l_written a + length ps\<rparr>)"
| set_aside: "l_pend a = r # p \<Longrightarrow> letter_for env r l \<Longrightarrow>
    settles env delivered a (a\<lparr>l_pend := p, l_letters := l_letters a @ [l]\<rparr>)"
| bury: "l_pend a = r # p \<Longrightarrow> letter_for env r l \<Longrightarrow>
    settles env delivered a (a\<lparr>l_letters := l_letters a @ [l]\<rparr>)"
| debris: "settles env delivered a (a\<lparr>l_letters := l_letters a @ js\<rparr>)"

text \<open>What any sequence of ledger steps guarantees: the records leave in order, each delivered or with a
  letter; nothing delivered or set aside is lost; and the sum of the three counts never falls.\<close>

definition accounted :: "'g drain_env \<Rightarrow> ('g \<Rightarrow> bytes \<Rightarrow> bool) \<Rightarrow> 'g ledger \<Rightarrow> 'g ledger \<Rightarrow> bool" where
  "accounted env delivered a b =
    ((\<exists>ps. l_pend a = ps @ l_pend b \<and>
        (\<forall>r\<in>set ps. delivered (l_store b) r \<or> (\<exists>l\<in>set (l_letters b). letter_for env r l))) \<and>
     (\<forall>r. delivered (l_store a) r \<longrightarrow> delivered (l_store b) r) \<and>
     (\<exists>ls. l_letters b = l_letters a @ ls) \<and>
     l_written a \<le> l_written b \<and>
     l_written a + length (l_pend a) + length (l_letters a) \<le> l_written b + length (l_pend b) + length (l_letters b))"

lemma accounted_refl: "accounted env delivered a a"
  by (simp add: accounted_def)

lemma accounted_trans:
  assumes "accounted env delivered a b" and "accounted env delivered b c"
  shows "accounted env delivered a c"
proof -
  obtain ps qs where p: "l_pend a = ps @ l_pend b"
      "\<forall>r\<in>set ps. delivered (l_store b) r \<or> (\<exists>l\<in>set (l_letters b). letter_for env r l)"
    and q: "l_pend b = qs @ l_pend c"
      "\<forall>r\<in>set qs. delivered (l_store c) r \<or> (\<exists>l\<in>set (l_letters c). letter_for env r l)"
    using assms unfolding accounted_def by blast
  have keep: "\<forall>r. delivered (l_store b) r \<longrightarrow> delivered (l_store c) r"
    and ls: "set (l_letters b) \<subseteq> set (l_letters c)"
    using assms(2) unfolding accounted_def by auto
  have "l_pend a = (ps @ qs) @ l_pend c" by (simp add: p(1) q(1))
  moreover have "\<forall>r\<in>set (ps @ qs). delivered (l_store c) r \<or> (\<exists>l\<in>set (l_letters c). letter_for env r l)"
    using p(2) q(2) keep ls by (simp add: ball_Un) blast
  ultimately have "\<exists>ps. l_pend a = ps @ l_pend c \<and>
      (\<forall>r\<in>set ps. delivered (l_store c) r \<or> (\<exists>l\<in>set (l_letters c). letter_for env r l))" by blast
  moreover have "\<exists>ls. l_letters c = l_letters a @ ls" using assms unfolding accounted_def by auto
  ultimately show ?thesis using assms unfolding accounted_def by auto
qed

lemma settles_accounted: "settles env delivered a b \<Longrightarrow> accounted env delivered a b"
  by (induction rule: settles.induct) (auto simp: accounted_def)

lemma run_accounted: "(settles env delivered)\<^sup>*\<^sup>* a b \<Longrightarrow> accounted env delivered a b"
  by (induction rule: rtranclp_induct) (auto intro: accounted_refl accounted_trans settles_accounted)

section \<open>The spool under the drainer's operations\<close>

text \<open>The key's files are in order, its log is short enough for its offset to be parsed back, and the
  dead-letter file ends on a line boundary.\<close>

definition spool_ok :: "'g drain \<Rightarrow> bool" where
  "spool_ok w = (key_ok (qdir w) (dr_key w) \<and> length (log_of (qdir w) (dr_key w)) < 10 ^ INT_MAX_STR_DIGITS)"

definition whole :: "'g drain \<Rightarrow> bool" where
  "whole w = (ctail (qdead w) = [])"

text \<open>Two states whose key, files of the key and count agree.\<close>

definition same_spool :: "'g drain \<Rightarrow> 'g drain \<Rightarrow> bool" where
  "same_spool w w' = (dr_key w' = dr_key w \<and> written_total w' = written_total w \<and>
     dget (qdir w') (log_path (dr_key w)) = dget (qdir w) (log_path (dr_key w)) \<and>
     dget (qdir w') (offset_path (dr_key w)) = dget (qdir w) (offset_path (dr_key w)) \<and>
     dget (qdir w') (dead_path (dr_key w)) = dget (qdir w) (dead_path (dr_key w)))"

lemma same_spool_refl [simp]: "same_spool w w"
  by (simp add: same_spool_def)

lemma same_spool_trans: "same_spool w w' \<Longrightarrow> same_spool w' w'' \<Longrightarrow> same_spool w w''"
  by (simp add: same_spool_def)

lemma same_log:
  assumes "dr_key w' = dr_key w"
    and "dget (qdir w') (log_path (dr_key w)) = dget (qdir w) (log_path (dr_key w))"
    and "dget (qdir w') (offset_path (dr_key w)) = dget (qdir w) (offset_path (dr_key w))"
  shows "qpend w' = qpend w" and "spool_ok w' = spool_ok w"
    and "offset_of (qdir w') (dr_key w) = offset_of (qdir w) (dr_key w)"
  using pending_cong [OF assms(3,2)] key_ok_cong [OF assms(3,2)] log_of_cong [OF assms(2)]
    offset_of_cong [OF assms(3)]
  by (simp_all add: qpend_def spool_ok_def assms(1))

lemma same_spoolD:
  assumes "same_spool w w'"
  shows "dr_key w' = dr_key w" and "written_total w' = written_total w" and "qpend w' = qpend w"
    and "qdead w' = qdead w" and "spool_ok w' = spool_ok w" and "whole w' = whole w"
    and "offset_of (qdir w') (dr_key w) = offset_of (qdir w) (dr_key w)"
  using assms same_log [of w' w] unfolding same_spool_def
  by (simp_all add: qdead_def whole_def file_of_def)

lemma spool_attempts [simp]:
  "qdir (w\<lparr>attempts := n\<rparr>) = qdir w" "qpend (w\<lparr>attempts := n\<rparr>) = qpend w"
  "qdead (w\<lparr>attempts := n\<rparr>) = qdead w" "spool_ok (w\<lparr>attempts := n\<rparr>) = spool_ok w"
  by (simp_all add: qdir_def qpend_def qdead_def spool_ok_def)

lemma ledger_same_spool: "same_spool w w' \<Longrightarrow> ledger_of w' = (ledger_of w)\<lparr>l_store := dr_graph w'\<rparr>"
  by (simp add: ledger_of_def same_spoolD)

lemma spool_ok_offset:
  assumes "spool_ok w" and "i \<le> length (qpend w)"
  shows "int (offset_of (qdir w) (dr_key w)) + int (length (frame (take i (qpend w)))) < 10 ^ INT_MAX_STR_DIGITS"
proof -
  let ?d = "qdir w" and ?k = "dr_key w"
  have "key_ok ?d ?k" using assms(1) by (simp add: spool_ok_def)
  then obtain ls where off: "offset_of ?d ?k = length (frame ls)"
    and log: "log_of ?d ?k = frame ls @ frame (qpend w) @ ctail (log_of ?d ?k)"
    unfolding qpend_def by (rule key_okE)
  have "frame (qpend w) = frame (take i (qpend w)) @ frame (drop i (qpend w))"
    by (metis append_take_drop_id frame_simps(3))
  then have "offset_of ?d ?k + length (frame (take i (qpend w))) \<le> length (log_of ?d ?k)"
    by (subst log) (simp add: off)
  also have "\<dots> < 10 ^ INT_MAX_STR_DIGITS" using assms(1) by (simp add: spool_ok_def)
  finally show ?thesis by (metis of_nat_add of_nat_less_iff of_nat_numeral of_nat_power)
qed

lemma commit_op_ok:
  assumes ok: "spool_ok w" and "length (fst (de_commit_io env (dr_calls w))) = 32"
    and i: "i \<le> length (qpend w)"
    and new: "new = int (offset_of (qdir w) (dr_key w)) + int (length (frame (take i (qpend w))))"
    and c: "commit_op env new w = (Inr u, w')"
  shows "spool_ok w'" and "qpend w' = drop i (qpend w)" and "int (offset_of (qdir w') (dr_key w)) = new"
    and "dr_key w' = dr_key w" and "written_total w' = written_total w" and "dr_graph w' = dr_graph w"
    and "qdead w' = qdead w"
proof -
  let ?k = "dr_key w"
  obtain hex io where h: "de_commit_io env (dr_calls w) = (hex, io)" by (cases "de_commit_io env (dr_calls w)")
  with c obtain q' where q: "commit hex io ?k new (dr_q w) = (Inr (), q')"
    and w': "w' = w\<lparr>dr_q := q', dr_calls := dr_calls w + 1\<rparr>"
    by (auto simp: commit_op_def split: prod.splits)
  have kok: "key_ok (files (dr_q w)) ?k" and hl: "length hex = 32" and v: "validate_session_id ?k = Inr ()"
    using ok assms(2) h by (simp_all add: spool_ok_def qdir_def key_ok_def)
  have fits: "new < 10 ^ INT_MAX_STR_DIGITS" using spool_ok_offset [OF ok i] new by simp
  note r = commit_record [OF kok hl i [unfolded qpend_def qdir_def] new [unfolded qpend_def qdir_def] fits q]
  have other: "dget (files q') p = dget (files (dr_q w)) p" if "p \<noteq> offset_path ?k" "p \<noteq> offset_tmp_path ?k hex" for p
    by (cases rule: commit_cases [OF v hl q]) (simp_all add: that)
  have "log_of (files q') ?k = log_of (files (dr_q w)) ?k" by (rule log_of_cong) (simp add: other)
  with r ok show "spool_ok w'" and "qpend w' = drop i (qpend w)"
    and "int (offset_of (qdir w') (dr_key w)) = new"
    by (simp_all add: w' spool_ok_def qdir_def qpend_def)
  show "dr_key w' = dr_key w" "written_total w' = written_total w" "dr_graph w' = dr_graph w"
    by (simp_all add: w')
  show "qdead w' = qdead w" by (simp add: w' qdead_def qdir_def file_of_def other)
qed

lemma commit_op_failed:
  assumes "spool_ok w" and "length (fst (de_commit_io env (dr_calls w))) = 32"
    and c: "commit_op env new w = (Inl e, w')"
  shows "same_spool w w'" and "dr_graph w' = dr_graph w"
proof -
  obtain hex io where h: "de_commit_io env (dr_calls w) = (hex, io)" by (cases "de_commit_io env (dr_calls w)")
  with c obtain q' where q: "commit hex io (dr_key w) new (dr_q w) = (Inl e, q')"
    and w': "w' = w\<lparr>dr_q := q', dr_calls := dr_calls w + 1\<rparr>"
    by (auto simp: commit_op_def split: prod.splits)
  have "validate_session_id (dr_key w) = Inr ()" "length hex = 32"
    using assms(1,2) h by (simp_all add: spool_ok_def key_ok_def)
  from this q have "dget (files q') p = dget (files (dr_q w)) p" if "p \<noteq> offset_tmp_path (dr_key w) hex" for p
    by (cases rule: commit_cases) (simp_all add: that)
  then show "same_spool w w'" by (simp add: same_spool_def w' qdir_def)
  show "dr_graph w' = dr_graph w" by (simp add: w')
qed

lemma dead_letter_op_cases:
  assumes ok: "spool_ok w" and nl: "\<And>v. no_nl (de_dumps env v)"
    and d: "dead_letter_op env raw err w = (r, w')"
  obtains (stored) l where "r = Inr ()" "letter_for env raw l" "qdead w' = qdead w @ l @ [NL]"
      "dr_key w' = dr_key w" "written_total w' = written_total w" "dr_graph w' = dr_graph w"
      "\<And>p. p \<noteq> dead_path (dr_key w) \<Longrightarrow> dget (qdir w') p = dget (qdir w) p"
  | (torn) e x where "r = Inl (OSError e)" "qdead w' = qdead w @ x"
      "dr_key w' = dr_key w" "written_total w' = written_total w" "dr_graph w' = dr_graph w"
      "\<And>p. p \<noteq> dead_path (dr_key w) \<Longrightarrow> dget (qdir w') p = dget (qdir w) p"
proof -
  let ?k = "dr_key w"
  obtain sc ts where s: "de_dead_io env (dr_calls w) = (sc, ts)" by (cases "de_dead_io env (dr_calls w)")
  define l where "l = de_dumps env (dead_record (de_b64 env) ts raw err)"
  obtain q' where q: "dead_letter (de_dumps env) (de_b64 env) ts sc ?k raw err (dr_q w) = (r, q')"
    and w': "w' = w\<lparr>dr_q := q', dr_calls := dr_calls w + 1\<rparr>"
    using d s by (auto simp: dead_letter_op_def split: prod.splits)
  have v: "validate_session_id ?k = Inr ()" using ok by (simp add: spool_ok_def key_ok_def)
  have "outcome (dead_letter (de_dumps env) (de_b64 env) ts sc ?k raw err (dr_q w))
      = write_record sc (files (dr_q w)) (dead_path ?k) (l @ [NL])"
    unfolding dead_letter_def v sum.case Let_def l_def
    by (rule outcome_with_guard [where W = "\<lambda>d. write_record sc d (dead_path ?k) _"])
      (simp add: outcome_def split: prod.splits)
  then have wr: "write_record sc (files (dr_q w)) (dead_path ?k) (l @ [NL]) = (r, files q')"
    by (simp add: q outcome_def)
  have lt: "letter_for env raw l" unfolding letter_for_def l_def by blast
  from wr path_fits(3) [OF v] show ?thesis
  proof (cases rule: write_record_cases)
    case written
    with lt show ?thesis using stored [of l] by (simp add: w' qdead_def qdir_def)
  next
    case (torn e p s)
    then show ?thesis using that(2) [of e p] that(2) [of e "p @ [NL]"] by (auto simp: w' qdead_def qdir_def)
  qed
qed


lemma drained_spool:
  assumes "key_ok d k" and "drained_outcome k d = (r, d')"
  shows "d' = d \<or> (pending d k = [] \<and> pending d' k = [] \<and> key_ok d' k \<and> log_of d' k = [] \<and>
    (\<forall>p. p \<noteq> log_path k \<longrightarrow> p \<noteq> offset_path k \<longrightarrow> dget d' p = dget d p))"
proof (cases "d' = d")
  case False
  have v: "validate_session_id k = Inr ()"
    and rd: "read_committed_offset d k = Inr (int (offset_of d k))" using assms(1) by (simp_all add: key_ok_def)
  have gone: "dget d' (offset_path k) = None" "dget d' (log_path k) = None"
    and rest: "\<forall>p. p \<noteq> log_path k \<longrightarrow> p \<noteq> offset_path k \<longrightarrow> dget d' p = dget d p"
    and short: "length (log_of d k) \<le> offset_of d k"
    using assms(2) False rd
    by (auto simp: drained_outcome_def log_of_def file_of_def split: option.splits sum.splits if_splits)
  have off: "read_committed_offset d' k = Inr 0"
    using gone(1) v by (simp add: read_committed_offset_def fs_read_def)
  have "pending d k = []" using short by (simp add: pending_def)
  moreover have log: "log_of d' k = []" using gone(2) by (simp add: log_of_def file_of_def)
  moreover have "offset_of d' k = 0" using off by (simp add: offset_of_def)
  moreover from this have "key_ok d' k"
    using v off log by (auto simp: key_ok_def intro!: exI [of _ "[]"])
  ultimately show ?thesis using rest by (simp add: pending_def)
qed simp

lemma delete_drained_op_spool:
  assumes "spool_ok w" and "delete_drained_op w = (r, w')"
  shows "spool_ok w'" and "ledger_of w' = ledger_of w" and "qdead w' = qdead w" and "dr_key w' = dr_key w"
proof -
  obtain q' where q: "delete_drained (dr_key w) (dr_q w) = (r, q')" and w': "w' = w\<lparr>dr_q := q'\<rparr>"
    using assms(2) by (auto simp: delete_drained_op_def split: prod.splits)
  have v: "validate_session_id (dr_key w) = Inr ()" and k: "key_ok (files (dr_q w)) (dr_key w)"
    using assms(1) by (simp_all add: spool_ok_def key_ok_def qdir_def)
  have "drained_outcome (dr_key w) (files (dr_q w)) = (r, files q')"
    using delete_drained_outcome [OF v, of "dr_q w"] q by (simp add: outcome_def)
  from drained_spool [OF k this]
  have "spool_ok w' \<and> ledger_of w' = ledger_of w \<and> qdead w' = qdead w"
    using assms(1)
    by (elim disjE conjE) (simp_all add: w' spool_ok_def ledger_of_def qpend_def qdead_def qdir_def file_of_def)
  then show "spool_ok w'" and "ledger_of w' = ledger_of w" and "qdead w' = qdead w" by simp_all
  show "dr_key w' = dr_key w" by (simp add: w')
qed

text \<open>A batch as a read returns it, and the position where its \<^verbatim>\<open>i\<close>th record starts.\<close>

lemma cursors_nth_start:
  "i < length ls \<Longrightarrow> r_start (cursors pos ls ! i) = pos + int (length (frame (take i ls)))"
proof (induction ls arbitrary: pos i)
  case (Cons l ls)
  then show ?case by (cases i) auto
qed simp

lemma read_spool:
  assumes "spool_ok w"
  obtains b m where "read_batch (dr_key w) n (dr_q w) = Inr b" and "m = min (nat n) (length (qpend w))"
    and "b_records b = cursors (int (offset_of (qdir w) (dr_key w))) (take m (qpend w))"
    and "b_end b = int (offset_of (qdir w) (dr_key w)) + int (length (frame (take m (qpend w))))"
proof -
  have m: "take (nat n) (qpend w) = take (min (nat n) (length (qpend w))) (qpend w)"
    by (metis min.cobounded2 nle_le take_all_iff take_take min_def)
  have "key_ok (files (dr_q w)) (dr_key w)" using assms by (simp add: spool_ok_def qdir_def)
  from read_batch_ok [OF this, of n] show ?thesis
    using that [OF _ refl] m unfolding qpend_def qdir_def by auto
qed

text \<open>The poison path of a failed round: charge the attempt, then retry or isolate.\<close>

definition charge :: "'g drain \<Rightarrow> 'g drain" where
  "charge w = w\<lparr>transient_attempts := 0, attempts := attempts w + 1\<rparr>\<lparr>write_retries_total := write_retries_total w + 1\<rparr>"

definition after_isolation :: "nat \<Rightarrow> 'g drain_env \<Rightarrow> isolation \<Rightarrow> ('g, round_end) dop" where
  "after_isolation fuel env x = (case x of
     IsoTransient \<Rightarrow> bnd (modify (\<lambda>w. w\<lparr>attempts := 0\<rparr>)) (\<lambda>_. transient_retry)
   | IsoTerminal \<Rightarrow> finish fuel env
   | IsoDone \<Rightarrow> bnd (modify (\<lambda>w. w\<lparr>attempts := 0\<rparr>)) (\<lambda>_. ret Again))"

lemma failed_round_poison:
  assumes "\<not> is_transient_infra_error e"
  shows "failed_round fuel env recs e w =
    (if attempts (charge w) < de_max_attempts env then (Inr Again, charge w)
     else bnd (handle_exhausted_batch env recs) (after_isolation fuel env) (charge w))"
  using assms by (simp add: failed_round_def record_write_retry_def op_simps charge_def after_isolation_def [abs_def])
    (simp add: ret_def)

lemma same_spool_charge: "same_spool w (charge w)" and graph_charge [simp]: "dr_graph (charge w) = dr_graph w"
  by (simp_all add: charge_def same_spool_def qdir_def)

section \<open>The interface of the store\<close>

text \<open>What the drainer relies on.  \<^verbatim>\<open>buffered\<close> and \<^verbatim>\<open>delivered\<close> say of a queue line that the store has its
  event in memory and durably.  A dispatch that returns leaves its line buffered, a flush that returns
  delivers what was buffered, and no operation takes back a delivery.  Temporary names have the length of
  a hexadecimal uuid and the serialiser writes one line.\<close>

locale graph_sink =
  fixes env :: "'g drain_env" and delivered :: "'g \<Rightarrow> bytes \<Rightarrow> bool" and buffered :: "'g \<Rightarrow> bytes \<Rightarrow> bool"
  assumes hex: "length (fst (de_commit_io env n)) = 32"
    and one_line: "no_nl (de_dumps env v)"
    and dispatch_buffers: "parse_line (de_loads env) raw = Inr pl \<Longrightarrow>
      de_dispatch env (pl_event pl) (pl_data pl) (pl_working_dir pl) (pl_identity pl) g = (Inr u, g') \<Longrightarrow> buffered g' raw"
    and dispatch_keeps: "de_dispatch env ev d wd i g = (r, g') \<Longrightarrow>
      (delivered g x \<longrightarrow> delivered g' x) \<and> (buffered g x \<longrightarrow> buffered g' x)"
    and pre_flush_keeps: "de_pre_flush env g = (r, g') \<Longrightarrow>
      (delivered g x \<longrightarrow> delivered g' x) \<and> (buffered g x \<longrightarrow> buffered g' x)"
    and eligible_keeps: "de_eligible env rs g = (r, g') \<Longrightarrow>
      (delivered g x \<longrightarrow> delivered g' x) \<and> (buffered g x \<longrightarrow> buffered g' x)"
    and flush_delivers: "de_flush env g = (Inr u, g') \<Longrightarrow> buffered g x \<Longrightarrow> delivered g' x"
    and flush_keeps: "de_flush env g = (r, g') \<Longrightarrow> delivered g x \<Longrightarrow> delivered g' x"
    and flushed_keeps: "de_flushed env rs g = (r, g') \<Longrightarrow> delivered g x \<Longrightarrow> delivered g' x"
    and quarantined_keeps: "de_quarantined env q g = (r, g') \<Longrightarrow> delivered g x \<Longrightarrow> delivered g' x"
    and discard_keeps: "delivered g x \<Longrightarrow> delivered (de_discard env g) x"
    and close_keeps: "delivered g x \<Longrightarrow> delivered (de_close env g) x"
    and written_keeps: "delivered g x \<Longrightarrow> delivered (de_written env rs g) x"
begin

definition moves :: "'g drain \<Rightarrow> 'g drain \<Rightarrow> bool" where
  "moves w w' = (same_spool w w' \<and> (\<forall>x. delivered (dr_graph w) x \<longrightarrow> delivered (dr_graph w') x))"

definition settled :: "'g drain \<Rightarrow> 'g drain \<Rightarrow> bool" where
  "settled w w' = ((settles env delivered)\<^sup>*\<^sup>* (ledger_of w) (ledger_of w') \<and> dr_key w' = dr_key w \<and> spool_ok w')"

lemma moves_refl [simp]: "moves w w"
  by (simp add: moves_def)

lemma moves_trans: "moves w w' \<Longrightarrow> moves w' w'' \<Longrightarrow> moves w w''"
  by (auto simp: moves_def intro: same_spool_trans)

lemma settled_refl: "spool_ok w \<Longrightarrow> settled w w"
  by (simp add: settled_def)

lemma settled_trans: "settled w w' \<Longrightarrow> settled w' w'' \<Longrightarrow> settled w w''"
  by (auto simp: settled_def intro: rtranclp_trans)

lemma settledD: "settled w w' \<Longrightarrow> spool_ok w'" "settled w w' \<Longrightarrow> dr_key w' = dr_key w"
  by (simp_all add: settled_def)

lemma moves_settled:
  assumes "spool_ok w" and "moves w w'"
  shows "settled w w'" and "qdead w' = qdead w"
proof -
  have s: "same_spool w w'" and g: "\<And>x. delivered (dr_graph w) x \<Longrightarrow> delivered (dr_graph w') x"
    using assms(2) by (auto simp: moves_def)
  have "settles env delivered (ledger_of w) ((ledger_of w)\<lparr>l_store := dr_graph w'\<rparr>)"
    by (rule settles.move) (simp add: ledger_of_def g)
  then show "settled w w'"
    using s assms(1) by (auto simp: settled_def ledger_same_spool same_spoolD)
  show "qdead w' = qdead w" by (rule same_spoolD [OF s])
qed

text \<open>Updates that leave the spool alone.\<close>

lemma moves_updates [simp]:
  "moves w (w\<lparr>last_event := a, events_processed := b\<rparr>)" "moves w (w\<lparr>error_count := c\<rparr>)"
  "moves w (w\<lparr>attempts := c\<rparr>)" "moves w (w\<lparr>transient_attempts := c, attempts := d\<rparr>)"
  "moves w (w\<lparr>transient_attempts := c\<rparr>)" "moves w (w\<lparr>write_retries_total := c\<rparr>)"
  "moves w (w\<lparr>dr_completed := c\<rparr>)" "moves w (w\<lparr>registered := e\<rparr>)"
  by (simp_all add: moves_def same_spool_def qdir_def)

lemma moves_store: "(\<And>x. delivered (dr_graph w) x \<Longrightarrow> delivered g x) \<Longrightarrow> moves w (w\<lparr>dr_graph := g\<rparr>)"
  by (simp add: moves_def same_spool_def qdir_def)

lemma on_store_cases:
  assumes "on_store f w = (r, w')"
  obtains g where "f (dr_graph w) = (r, g)" and "w' = w\<lparr>dr_graph := g\<rparr>"
  using assms by (auto simp: on_store_def split: prod.splits)

subsection \<open>Dispatch\<close>

lemma process_one_step:
  assumes "process_one env pl w = (r, w')"
  shows "moves w w'" and "buffered (dr_graph w) x \<Longrightarrow> buffered (dr_graph w') x"
    and "r = Inr u \<Longrightarrow> parse_line (de_loads env) raw = Inr pl \<Longrightarrow> buffered (dr_graph w') raw"
proof -
  obtain r1 w1 where o: "on_store (de_dispatch env (pl_event pl) (pl_data pl) (pl_working_dir pl) (pl_identity pl)) w
      = (r1, w1)" by (meson surj_pair)
  then obtain g where d: "de_dispatch env (pl_event pl) (pl_data pl) (pl_working_dir pl) (pl_identity pl)
      (dr_graph w) = (r1, g)" and w1: "w1 = w\<lparr>dr_graph := g\<rparr>" by (rule on_store_cases)
  have m: "moves w w1" unfolding w1 by (rule moves_store) (use dispatch_keeps [OF d] in blast)
  have w': "moves w1 w'" "dr_graph w' = g" and r: "r = Inr u \<Longrightarrow> \<exists>u. r1 = Inr u"
    using assms o w1 by (auto simp: process_one_def Let_def split: sum.splits if_splits prod.splits)
  show "moves w w'" by (rule moves_trans [OF m w'(1)])
  show "buffered (dr_graph w) x \<Longrightarrow> buffered (dr_graph w') x"
    using dispatch_keeps [OF d] w'(2) by simp
  show "r = Inr u \<Longrightarrow> parse_line (de_loads env) raw = Inr pl \<Longrightarrow> buffered (dr_graph w') raw"
    using r dispatch_buffers d w'(2) by blast
qed

definition boundary :: "qrecord list \<Rightarrow> nat \<Rightarrow> int option \<Rightarrow> nat \<times> int option \<Rightarrow> bool" where
  "boundary rs k t st =
    (if t \<noteq> None then st = (k, t)
     else case snd st of
            None \<Rightarrow> fst st = k + length rs
          | Some s \<Rightarrow> \<exists>i<length rs. fst st = k + i \<and> s = r_start (rs ! i))"

lemma boundary_here: "boundary (q # rs) k None (k, Some (r_start q))"
  by (auto simp: boundary_def)

lemma boundary_later: "boundary rs (k + 1) None st \<Longrightarrow> boundary (q # rs) k None st"
  by (auto simp: boundary_def split: option.splits intro: exI [of _ "Suc _"])

lemma process_records_step:
  assumes "process_records env rs k t w = (r, w')"
  shows "moves w w' \<and> (\<forall>x. buffered (dr_graph w) x \<longrightarrow> buffered (dr_graph w') x) \<and>
    (\<forall>st. r = Inr st \<longrightarrow> (\<forall>q\<in>set rs. buffered (dr_graph w') (r_raw q)) \<and> boundary rs k t st)"
  using assms
proof (induction rs arbitrary: k t w)
  case Nil
  then show ?case by (auto simp: ret_def boundary_def)
next
  case (Cons q rs)
  show ?case
  proof (cases "parse_line (de_loads env) (r_raw q)")
    case (Inl e)
    with Cons.prems show ?thesis by (auto simp: op_simps raise_op_def)
  next
    case p: (Inr pl)
    obtain r1 w1 where o: "process_one env pl w = (r1, w1)" by (cases "process_one env pl w")
    note one = process_one_step [OF o]
    show ?thesis
    proof (cases r1)
      case (Inl e)
      with Cons.prems p o one show ?thesis by (auto simp: op_simps bnd_def)
    next
      case (Inr u)
      have b: "buffered (dr_graph w1) (r_raw q)" by (rule one(3) [OF Inr p])
      consider (stop) e where "r = Inl e" "w' = w1"
        | (later) "t \<noteq> None" "process_records env rs k t w1 = (r, w')"
        | (here) "t = None" "process_records env rs k (Some (r_start q)) w1 = (r, w')"
        | (safe) "t = None" "process_records env rs (k + 1) None w1 = (r, w')"
        using Cons.prems p o Inr
        by (cases "is_terminal (pl_event pl)") (auto simp: op_simps bnd_def raise_op_def lift_res_def split: if_splits)
      then show ?thesis
      proof cases
        case stop
        with one show ?thesis by auto
      next
        case later
        from Cons.IH [OF later(2)] one b later(1) show ?thesis
          by (auto intro: moves_trans simp: boundary_def)
      next
        case here
        from Cons.IH [OF here(2)] one b here(1) show ?thesis
          by (auto intro: moves_trans boundary_here simp: boundary_def [of rs])
      next
        case safe
        from Cons.IH [OF safe(2)] one b safe(1) show ?thesis
          by (auto intro: moves_trans boundary_later)
      qed
    qed
  qed
qed

subsection \<open>Flush and acknowledge\<close>

text \<open>The state after an acknowledgement of the first \<^verbatim>\<open>i\<close> records, all delivered.\<close>

definition acked :: "nat \<Rightarrow> 'g drain \<Rightarrow> 'g drain \<Rightarrow> bool" where
  "acked i w w' = (spool_ok w' \<and> qpend w' = drop i (qpend w) \<and>
     int (offset_of (qdir w') (dr_key w)) =
       int (offset_of (qdir w) (dr_key w)) + int (length (frame (take i (qpend w)))) \<and>
     dr_key w' = dr_key w \<and> written_total w' = written_total w \<and> qdead w' = qdead w \<and>
     (\<forall>x\<in>set (take i (qpend w)). delivered (dr_graph w') x) \<and>
     (\<forall>x. delivered (dr_graph w) x \<longrightarrow> delivered (dr_graph w') x))"

lemma keeps_step:
  assumes "\<And>g r g' x. f g = (r, g') \<Longrightarrow> (delivered g x \<longrightarrow> delivered g' x) \<and> (buffered g x \<longrightarrow> buffered g' x)"
    and "on_store f w = (r, w')"
  shows "moves w w' \<and> (\<forall>x. buffered (dr_graph w) x \<longrightarrow> buffered (dr_graph w') x)"
proof -
  obtain g where "f (dr_graph w) = (r, g)" "w' = w\<lparr>dr_graph := g\<rparr>" using assms(2) by (rule on_store_cases)
  then show ?thesis using assms(1) by (auto intro!: moves_store)
qed

lemma on_store_moves:
  assumes "\<And>g r g' x. f g = (r, g') \<Longrightarrow> delivered g x \<Longrightarrow> delivered g' x" and "on_store f w = (r, w')"
  shows "moves w w'"
proof -
  obtain g where "f (dr_graph w) = (r, g)" "w' = w\<lparr>dr_graph := g\<rparr>" using assms(2) by (rule on_store_cases)
  then show ?thesis using assms(1) by (auto intro!: moves_store)
qed

text \<open>Everything up to the acknowledgement.\<close>

definition flush_part :: "qrecord list \<Rightarrow> qrecord list \<Rightarrow> ('g, unit) dop" where
  "flush_part records elig =
    bnd (on_store (de_pre_flush env)) (\<lambda>_.
    bnd (on_store (de_eligible env elig)) (\<lambda>_.
    bnd (on_store (de_flush env)) (\<lambda>_. before_commit env records)))"

lemma flush_and_commit_split:
  "flush_and_commit env records off elig =
    bnd (flush_part records elig) (\<lambda>_ w. case commit_op env off w of
      (Inr _, w) \<Rightarrow> (Inr AckDone, w) | (Inl e, w) \<Rightarrow> (Inr (AckFailed e), w))"
  by (simp add: flush_and_commit_def flush_part_def op_simps)

lemma before_commit_moves: "before_commit env records w = (r, w') \<Longrightarrow> moves w w'"
  unfolding before_commit_def when_op_def
  by (auto split: if_splits simp: ret_def intro: on_store_moves flushed_keeps)

lemma flush_part_step:
  assumes "flush_part records elig w = (r, w')"
  shows "moves w w'" and "r = Inr u \<Longrightarrow> buffered (dr_graph w) x \<Longrightarrow> delivered (dr_graph w') x"
proof -
  obtain r1 w1 where 1: "on_store (de_pre_flush env) w = (r1, w1)" by (meson surj_pair)
  obtain r2 w2 where 2: "on_store (de_eligible env elig) w1 = (r2, w2)" by (meson surj_pair)
  obtain r3 w3 where 3: "on_store (de_flush env) w2 = (r3, w3)" by (meson surj_pair)
  obtain r4 w4 where 4: "before_commit env records w3 = (r4, w4)" by (meson surj_pair)
  have k1: "moves w w1 \<and> (\<forall>x. buffered (dr_graph w) x \<longrightarrow> buffered (dr_graph w1) x)"
    by (rule keeps_step [OF _ 1]) (rule pre_flush_keeps)
  have k2: "moves w1 w2 \<and> (\<forall>x. buffered (dr_graph w1) x \<longrightarrow> buffered (dr_graph w2) x)"
    by (rule keeps_step [OF _ 2]) (rule eligible_keeps)
  have m3: "moves w2 w3" by (rule on_store_moves [OF _ 3]) (rule flush_keeps)
  have m4: "moves w3 w4" by (rule before_commit_moves [OF 4])
  have w2: "moves w w2" using k1 k2 by (blast intro: moves_trans [of w w1 w2])
  have w3: "moves w w3" by (rule moves_trans [OF w2 m3])
  have "moves w w4" by (rule moves_trans [OF w3 m4])
  with w2 w3 show "moves w w'"
    using assms 1 2 3 4 k1 by (auto simp: flush_part_def bnd_def split: sum.splits)
  assume "r = Inr u" and b: "buffered (dr_graph w) x"
  then have w': "w' = w4" and r: "r3 = Inr ()"
    using assms 1 2 3 4 by (auto simp: flush_part_def bnd_def split: sum.splits)
  have "buffered (dr_graph w2) x" using b k1 k2 by blast
  moreover obtain g where "de_flush env (dr_graph w2) = (r3, g)" "w3 = w2\<lparr>dr_graph := g\<rparr>"
    using 3 by (rule on_store_cases)
  ultimately have "delivered (dr_graph w3) x" using flush_delivers r by simp
  then show "delivered (dr_graph w') x" using m4 w' by (simp add: moves_def)
qed

lemma flush_and_commit_step:
  assumes ok: "spool_ok w" and i: "i \<le> length (qpend w)"
    and off: "off = int (offset_of (qdir w) (dr_key w)) + int (length (frame (take i (qpend w))))"
    and buf: "\<And>x. x \<in> set (take i (qpend w)) \<Longrightarrow> buffered (dr_graph w) x"
    and f: "flush_and_commit env records off elig w = (r, w')"
  shows "if r = Inr AckDone then acked i w w' else moves w w'"
proof -
  obtain r1 w1 where 1: "flush_part records elig w = (r1, w1)" by (meson surj_pair)
  note p = flush_part_step [OF 1]
  have s: "same_spool w w1" using p(1) by (simp add: moves_def)
  note sd = same_spoolD [OF s]
  show ?thesis
  proof (cases r1)
    case (Inl e)
    with f 1 p(1) show ?thesis by (auto simp: flush_and_commit_split bnd_def)
  next
    case (Inr u)
    obtain c w2 where c: "commit_op env off w1 = (c, w2)" by (meson surj_pair)
    have del: "\<forall>x\<in>set (take i (qpend w)). delivered (dr_graph w1) x" using p(2) [OF Inr] buf by blast
    show ?thesis
    proof (cases c)
      case (Inl e)
      have "same_spool w1 w2" "dr_graph w2 = dr_graph w1"
        using commit_op_failed [of w1 env off e w2] ok sd c Inl hex by simp_all
      then have "moves w1 w2" by (simp add: moves_def)
      with f 1 c Inl Inr p(1) show ?thesis by (auto simp: flush_and_commit_split bnd_def intro: moves_trans)
    next
      case d: (Inr u')
      have r: "r = Inr AckDone" "w' = w2" using f 1 c d Inr by (simp_all add: flush_and_commit_split bnd_def)
      have "spool_ok w1" "i \<le> length (qpend w1)"
        "off = int (offset_of (qdir w1) (dr_key w1)) + int (length (frame (take i (qpend w1))))"
        using ok i off sd by simp_all
      note co = commit_op_ok [OF this(1) hex this(2,3) c [unfolded d]]
      show ?thesis using co del p(1) sd off r by (simp add: acked_def moves_def)
    qed
  qed
qed

lemma acked_settled:
  assumes a: "acked i w w'" and i: "i \<le> length (qpend w)"
    and w'': "w'' = post_commit env records (record_written i w')"
  shows "settled w w''" and "qdead w'' = qdead w" and "qpend w'' = drop i (qpend w)"
    and "int (offset_of (qdir w'') (dr_key w)) =
      int (offset_of (qdir w) (dr_key w)) + int (length (frame (take i (qpend w))))"
proof -
  have s: "qdir w'' = qdir w'" "dr_key w'' = dr_key w'" "written_total w'' = written_total w' + i"
    "qpend w'' = qpend w'" "qdead w'' = qdead w'" "spool_ok w'' = spool_ok w'"
    by (simp_all add: w'' post_commit_def record_written_def qdir_def qpend_def qdead_def spool_ok_def)
  have g: "delivered (dr_graph w') x \<Longrightarrow> delivered (dr_graph w'') x" for x
    using written_keeps by (simp add: w'' post_commit_def record_written_def)
  let ?a = "ledger_of w" and ?b = "(ledger_of w)\<lparr>l_store := dr_graph w''\<rparr>"
  have "settles env delivered ?a ?b"
    by (rule settles.move) (use a g in \<open>simp add: ledger_of_def acked_def\<close>)
  moreover have "settles env delivered ?b (?b\<lparr>l_pend := drop i (qpend w),
      l_written := l_written ?b + length (take i (qpend w))\<rparr>)"
    by (rule settles.acknowledge) (use a g in \<open>simp_all add: ledger_of_def acked_def\<close>)
  moreover have "?b\<lparr>l_pend := drop i (qpend w), l_written := l_written ?b + length (take i (qpend w))\<rparr> = ledger_of w''"
    using a i s by (simp add: ledger_of_def acked_def min_absorb2)
  ultimately have "(settles env delivered)\<^sup>*\<^sup>* ?a (ledger_of w'')" by (metis r_into_rtranclp rtranclp.rtrancl_into_rtrancl)
  then show "settled w w''" using a s by (simp add: settled_def acked_def)
  show "qdead w'' = qdead w" "qpend w'' = drop i (qpend w)"
    "int (offset_of (qdir w'') (dr_key w)) = int (offset_of (qdir w) (dr_key w)) + int (length (frame (take i (qpend w))))"
    using a s by (simp_all add: acked_def)
qed

subsection \<open>Isolation\<close>

text \<open>The oldest pending record, as a read returned it.\<close>

definition oldest :: "'g drain \<Rightarrow> qrecord \<Rightarrow> bytes list \<Rightarrow> bool" where
  "oldest w q p = (qpend w = r_raw q # p \<and>
     r_end q = int (offset_of (qdir w) (dr_key w)) + int (length (frame (take 1 (qpend w)))))"

lemma discard_op_moves: "discard_op env w = (r, w') \<Longrightarrow> r = Inr () \<and> moves w w'"
  using discard_keeps by (auto simp: discard_op_def modify_def intro: moves_store)

lemma quarantine_and_commit_step:
  assumes ok: "spool_ok w" and "oldest w q p" and "quarantine_and_commit env q w = (r, w')"
  shows "(case r of
     Inr _ \<Rightarrow> spool_ok w' \<and> qpend w' = p \<and> int (offset_of (qdir w') (dr_key w)) = r_end q \<and> dr_key w' = dr_key w \<and>
       written_total w' = written_total w \<and> qdead w' = qdead w \<and>
       (\<forall>x. delivered (dr_graph w) x \<longrightarrow> delivered (dr_graph w') x)
   | Inl _ \<Rightarrow> moves w w')"
proof -
  obtain r1 w1 where 1: "on_store (de_quarantined env q) w = (r1, w1)" by (meson surj_pair)
  have m: "moves w w1" by (rule on_store_moves [OF _ 1]) (rule quarantined_keeps)
  then have "same_spool w w1" by (simp add: moves_def)
  note sd = same_spoolD [OF this]
  show ?thesis
  proof (cases r1)
    case (Inl e)
    with 1 m assms(3) show ?thesis by (auto simp: quarantine_and_commit_def bnd_def)
  next
    case (Inr u)
    have c: "commit_op env (r_end q) w1 = (r, w')" using 1 Inr assms(3) by (simp add: quarantine_and_commit_def bnd_def)
    have w1: "spool_ok w1" "1 \<le> length (qpend w1)"
      "r_end q = int (offset_of (qdir w1) (dr_key w1)) + int (length (frame (take 1 (qpend w1))))"
      using ok assms(2) sd by (simp_all add: oldest_def)
    show ?thesis
    proof (cases r)
      case (Inl e)
      from commit_op_failed [OF w1(1) hex c [unfolded Inl]] have "moves w1 w'" by (simp add: moves_def)
      with m Inl show ?thesis by (auto intro: moves_trans)
    next
      case d: (Inr u')
      from commit_op_ok [OF w1(1) hex w1(2,3) c [unfolded d]] assms(2) sd m d show ?thesis
        by (simp add: oldest_def moves_def)
    qed
  qed
qed

lemma letter_lines:
  assumes "whole w" and "no_nl l" and "qdead w' = qdead w @ l @ [NL]"
  shows "clines (qdead w') = clines (qdead w) @ [l]" and "whole w'"
  using assms clines_close [of "qdead w @ l"] ctail_close [of "qdead w @ l"] clines_append [of "qdead w" l]
    ctail_append [of "qdead w" l] by (simp_all add: whole_def)

lemma dead_and_commit_step:
  assumes ok: "spool_ok w" and wh: "whole w" and od: "oldest w q p" and d: "dead_and_commit env q e w = (r, w')"
  shows "settled w w'"
    and "r = Inr u \<Longrightarrow> whole w' \<and> qpend w' = p \<and> int (offset_of (qdir w') (dr_key w)) = r_end q"
proof -
  obtain r1 w1 where 1: "dead_letter_op env (r_raw q) (de_error_text env e) w = (r1, w1)" by (meson surj_pair)
  have "settled w w' \<and> (\<forall>u. r = Inr u \<longrightarrow> whole w' \<and> qpend w' = p \<and> int (offset_of (qdir w') (dr_key w)) = r_end q)"
    using ok one_line 1
  proof (cases rule: dead_letter_op_cases)
    case (torn e' x)
    have r: "r = Inl (OSError e')" "w' = w1" using d 1 torn(1) by (simp_all add: dead_and_commit_def bnd_def)
    have sp: "qpend w1 = qpend w" "spool_ok w1"
      using same_log [OF torn(3) torn(6) torn(6)] ok by (simp_all only: paths_distinct not_False_eq_True)
    have "clines (qdead w1) = clines (qdead w) @ clines (ctail (qdead w) @ x)"
      unfolding torn(2) by (rule clines_append)
    then have "ledger_of w1 = (ledger_of w)\<lparr>l_letters := l_letters (ledger_of w) @ clines (ctail (qdead w) @ x)\<rparr>"
      using torn sp by (simp add: ledger_of_def)
    then show ?thesis using r sp torn(3) settles.debris [of env delivered "ledger_of w"] by (auto simp: settled_def)
  next
    case (stored l)
    have od1: "oldest w1 q p" and ok1: "spool_ok w1" and p1: "qpend w1 = qpend w"
      using same_log [OF stored(4) stored(7) stored(7)] stored(4) ok od
      by (simp_all only: oldest_def paths_distinct not_False_eq_True)
    have "no_nl l" using stored(2) one_line by (auto simp: letter_for_def)
    note ll = letter_lines [OF wh this stored(3)]
    have a1: "ledger_of w1 = (ledger_of w)\<lparr>l_letters := l_letters (ledger_of w) @ [l]\<rparr>"
      using ll(1) stored p1 by (simp add: ledger_of_def)
    obtain r2 w2 where 2: "discard_op env w1 = (r2, w2)" by (meson surj_pair)
    note m2 = discard_op_moves [OF 2]
    then have "same_spool w1 w2" by (simp add: moves_def)
    note s2 = same_spoolD [OF this]
    have 3: "quarantine_and_commit env q w2 = (r, w')"
      using d 1 2 m2 stored(1) by (simp add: dead_and_commit_def bnd_def)
    have od2: "oldest w2 q p" using od1 s2 by (simp add: oldest_def)
    note q3 = quarantine_and_commit_step [OF _ od2 3]
    have bury: "settles env delivered (ledger_of w) (ledger_of w1)"
      unfolding a1 using settles.bury [of "ledger_of w" "r_raw q" p env l delivered] od stored(2)
      by (simp add: ledger_of_def oldest_def)
    show ?thesis
    proof (cases r)
      case (Inl e')
      have m: "moves w1 w'" using q3 s2 ok1 m2 Inl by (auto intro: moves_trans)
      have "settled w1 w'" by (rule moves_settled [OF ok1 m])
      with bury stored(4) show ?thesis using Inl
        by (auto simp: settled_def intro: converse_rtranclp_into_rtranclp)
    next
      case (Inr u')
      have w': "spool_ok w'" "qpend w' = p" "int (offset_of (qdir w') (dr_key w)) = r_end q" "dr_key w' = dr_key w"
        "written_total w' = written_total w" "qdead w' = qdead w1" "\<And>x. delivered (dr_graph w) x \<Longrightarrow> delivered (dr_graph w') x"
        using q3 s2 ok1 m2 Inr stored(4,5,6) by (auto simp: moves_def)
      let ?b = "(ledger_of w)\<lparr>l_store := dr_graph w'\<rparr>"
      have "settles env delivered (ledger_of w) ?b" by (rule settles.move) (simp add: ledger_of_def w'(7))
      moreover have "settles env delivered ?b (?b\<lparr>l_pend := p, l_letters := l_letters ?b @ [l]\<rparr>)"
        by (rule settles.set_aside [OF _ stored(2)]) (use od in \<open>simp add: ledger_of_def oldest_def\<close>)
      moreover have "?b\<lparr>l_pend := p, l_letters := l_letters ?b @ [l]\<rparr> = ledger_of w'"
        using w' ll(1) by (simp add: ledger_of_def)
      ultimately have "(settles env delivered)\<^sup>*\<^sup>* (ledger_of w) (ledger_of w')"
        by (metis r_into_rtranclp rtranclp.rtrancl_into_rtrancl)
      moreover have "whole w'" using ll(2) w'(6) by (simp add: whole_def)
      ultimately show ?thesis using w' by (simp add: settled_def)
    qed
  qed
  then show "settled w w'" and "r = Inr u \<Longrightarrow> whole w' \<and> qpend w' = p \<and> int (offset_of (qdir w') (dr_key w)) = r_end q"
    by simp_all
qed

lemma deliver_one_step:
  assumes ok: "spool_ok w" and od: "oldest w q p" and pl: "parse_line (de_loads env) (r_raw q) = Inr pl"
    and d: "deliver_one env q pl w = (r, w')"
  shows "if r = Inr AckDone then acked 1 w w' else moves w w'"
proof -
  obtain r1 w1 where 1: "process_one env pl w = (r1, w1)" by (meson surj_pair)
  note one = process_one_step [OF 1]
  then have "same_spool w w1" by (simp add: moves_def)
  note s1 = same_spoolD [OF this]
  show ?thesis
  proof (cases r1)
    case (Inl e)
    with 1 d one show ?thesis by (auto simp: deliver_one_def bnd_def)
  next
    case (Inr u)
    have f: "flush_and_commit env [q] (r_end q) [q] w1 = (r, w')" using 1 Inr d by (simp add: deliver_one_def bnd_def)
    have "if r = Inr AckDone then acked 1 w1 w' else moves w1 w'"
      by (rule flush_and_commit_step [OF _ _ _ _ f])
        (use ok od s1 one(3) [OF Inr pl] in \<open>simp_all add: oldest_def\<close>)
    then show ?thesis using s1 one(1) by (auto simp: acked_def moves_def intro: same_spool_trans)
  qed
qed

lemma isolate_step:
  assumes "spool_ok w" and "whole w" and "qpend w = map r_raw rs @ rest"
    and "rs = cursors (int (offset_of (qdir w) (dr_key w))) (map r_raw rs)"
    and "isolate env rs w = (r, w')"
  shows "settled w w' \<and> (\<forall>x. r = Inr x \<longrightarrow> whole w')"
  using assms
proof (induction rs arbitrary: w)
  case Nil
  then show ?case by (auto intro: settled_refl)
next
  case (Cons q rs)
  let ?off = "int (offset_of (qdir w) (dr_key w))"
  have q: "r_end q = ?off + int (length (r_raw q)) + 1" and rs: "rs = cursors (r_end q) (map r_raw rs)"
    using Cons.prems(4) by (cases q, simp)+
  have od: "oldest w q (map r_raw rs @ rest)" using q Cons.prems(3) by (simp add: oldest_def)
  have next_one: "settled w1 w' \<and> (\<forall>x. r = Inr x \<longrightarrow> whole w')"
    if "settled w w1" "whole w1" "qpend w1 = map r_raw rs @ rest" "int (offset_of (qdir w1) (dr_key w)) = r_end q"
      "isolate env rs w1 = (r, w')" for w1
    using Cons.IH [of w1] that rs settledD [OF that(1)] by simp
  have dead: "settled w w' \<and> (\<forall>x. r = Inr x \<longrightarrow> whole w')"
    if c: "dead_and_commit env q e w1 = (rd, w2)" and m: "moves w w1"
      and g: "case rd of Inl e \<Rightarrow> r = Inl e \<and> w' = w2 | Inr _ \<Rightarrow> isolate env rs w2 = (r, w')" for e rd w1 w2
  proof -
    have "same_spool w w1" using m by (simp add: moves_def)
    note s1 = same_spoolD [OF this]
    have pre: "spool_ok w1" "whole w1" "oldest w1 q (map r_raw rs @ rest)"
      using Cons.prems(1,2) od s1 by (simp_all add: oldest_def)
    note dc = dead_and_commit_step [OF pre c]
    have "settled w w2" by (rule settled_trans [OF moves_settled(1) [OF Cons.prems(1) m] dc(1)])
    with next_one [of w2] dc(2) g s1 show ?thesis by (cases rd) (auto intro: settled_trans)
  qed
  show ?case
  proof (cases "parse_line (de_loads env) (r_raw q)")
    case (Inl e)
    obtain rd w2 where "dead_and_commit env q e w = (rd, w2)" by (meson surj_pair)
    with Inl Cons.prems(5) show ?thesis by (intro dead [of e w rd w2]) (auto split: sum.splits)
  next
    case pl: (Inr pl)
    consider (raised) e where "is_terminal (pl_event pl) = Inl e" | (terminal) "is_terminal (pl_event pl) = Inr True"
      | (plain) "is_terminal (pl_event pl) = Inr False" by (cases "is_terminal (pl_event pl)") auto
    then show ?thesis
    proof cases
      case raised
      with pl Cons.prems show ?thesis by (auto intro: settled_refl)
    next
      case terminal
      with pl Cons.prems show ?thesis by (auto intro: settled_refl)
    next
      case plain
      obtain r1 w1 where 1: "deliver_one env q pl w = (r1, w1)" by (meson surj_pair)
      note d1 = deliver_one_step [OF Cons.prems(1) od pl 1]
      consider (acks) "r1 = Inr AckDone" | (failed) e where "r1 = Inr (AckFailed e)" | (exc) e where "r1 = Inl e"
        by (metis ack_outcome.exhaust sum.exhaust)
      then show ?thesis
      proof cases
        case acks
        let ?w = "post_commit env [q] (record_written 1 w1)"
        have a: "acked 1 w w1" and l: "1 \<le> length (qpend w)" using d1 acks od by (simp_all add: oldest_def)
        note as = acked_settled [OF a l refl, of "[q]"]
        have "isolate env rs ?w = (r, w')" using Cons.prems(5) pl plain 1 acks by simp
        with next_one [of ?w] as od Cons.prems(2) show ?thesis
          by (auto simp: oldest_def whole_def intro: settled_trans)
      next
        case failed
        with Cons.prems pl plain 1 d1 show ?thesis by (auto dest: moves_settled(1))
      next
        case (exc e)
        have m: "moves w w1" using d1 exc by simp
        show ?thesis
        proof (cases "is_transient_infra_error e")
          case True
          then have w': "w' = w1\<lparr>dr_graph := de_discard env (dr_graph w1)\<rparr>"
            using Cons.prems(5) pl plain 1 exc by simp
          have "moves w w'" unfolding w' by (rule moves_trans [OF m moves_store]) (rule discard_keeps)
          from moves_settled [OF Cons.prems(1) this] Cons.prems(2) show ?thesis by (simp add: whole_def)
        next
          case False
          obtain rd w2 where "dead_and_commit env q e w1 = (rd, w2)" by (meson surj_pair)
          with Cons.prems(5) pl plain 1 exc False m show ?thesis
            by (intro dead [of e w1 rd w2]) (auto split: sum.splits)
        qed
      qed
    qed
  qed
qed

subsection \<open>Batches\<close>

lemma dispatch_then_flush:
  assumes ok: "spool_ok w" and recs: "recs = cursors (int (offset_of (qdir w) (dr_key w))) (take m (qpend w))"
    and p: "process_batch env recs w = (Inr st, w1)" and i: "i \<le> m" "m \<le> length (qpend w)"
    and off: "off = int (offset_of (qdir w) (dr_key w)) + int (length (frame (take i (qpend w))))"
    and f: "flush_and_commit env rs off recs w1 = (r, w')"
  shows "if r = Inr AckDone then acked i w w' else moves w w'"
proof -
  have pr: "moves w w1" "\<forall>q\<in>set recs. buffered (dr_graph w1) (r_raw q)"
    using process_records_step [OF p [unfolded process_batch_def]] by simp_all
  then have "same_spool w w1" by (simp add: moves_def)
  note s1 = same_spoolD [OF this]
  have raws: "set (take m (qpend w)) = r_raw ` set recs"
    using map_raw_cursors [of "int (offset_of (qdir w) (dr_key w))" "take m (qpend w)"] unfolding recs
    by (metis list.set_map)
  have sub: "set (take i (qpend w)) \<subseteq> set (take m (qpend w))" using i by (simp add: set_take_subset_set_take)
  have buf: "buffered (dr_graph w1) x" if "x \<in> set (take i (qpend w1))" for x
  proof -
    have "x \<in> r_raw ` set recs" using that sub raws unfolding s1(3) by blast
    then show ?thesis using pr(2) by blast
  qed
  have "if r = Inr AckDone then acked i w1 w' else moves w1 w'"
    by (rule flush_and_commit_step [OF _ _ _ buf f]) (use ok s1 off i in simp_all)
  then show ?thesis using s1 pr(1) by (auto simp: acked_def moves_def intro: same_spool_trans)
qed

lemma deliver_batch_step:
  assumes ok: "spool_ok w" and b: "m \<le> length (qpend w)"
      "b_records b = cursors (int (offset_of (qdir w) (dr_key w))) (take m (qpend w))"
      "b_end b = int (offset_of (qdir w) (dr_key w)) + int (length (frame (take m (qpend w))))"
    and d: "deliver_batch env b w = (r, w')"
  shows "case r of Inr (st, AckDone) \<Rightarrow> acked (counted b st) w w' \<and> counted b st \<le> length (qpend w) | _ \<Rightarrow> moves w w'"
proof -
  obtain r1 w1 where 1: "process_batch env (b_records b) w = (r1, w1)" by (meson surj_pair)
  show ?thesis
  proof (cases r1)
    case (Inl e)
    with 1 d process_records_step [OF 1 [unfolded process_batch_def]] show ?thesis
      by (auto simp: deliver_batch_def bnd_def)
  next
    case (Inr st)
    obtain r2 w2 where 2: "flush_and_commit env (committed_records b st) (commit_to b st) (b_records b) w1 = (r2, w2)"
      by (meson surj_pair)
    have bd: "boundary (b_records b) 0 None st"
      using process_records_step [OF 1 [unfolded process_batch_def]] Inr by simp
    have len: "length (b_records b) = m" using b by simp
    have i: "counted b st \<le> m"
      using bd len by (auto simp: boundary_def counted_def split: option.splits)
    have off: "commit_to b st = int (offset_of (qdir w) (dr_key w)) + int (length (frame (take (counted b st) (qpend w))))"
    proof (cases "snd st")
      case None
      then show ?thesis using b len by (simp add: commit_to_def counted_def)
    next
      case (Some s)
      then obtain j where j: "j < m" "fst st = j" "s = r_start (b_records b ! j)"
        using bd len by (auto simp: boundary_def)
      then have "take j (take m (qpend w)) = take j (qpend w)" by (simp add: min_absorb1)
      with j Some b show ?thesis by (simp add: commit_to_def counted_def cursors_nth_start)
    qed
    have "if r2 = Inr AckDone then acked (counted b st) w w2 else moves w w2"
      by (rule dispatch_then_flush [OF ok b(2) 1 [unfolded Inr] i b(1) off 2])
    moreover have "w' = w2" "r = (case r2 of Inl e \<Rightarrow> Inl e | Inr a \<Rightarrow> Inr (st, a))"
      using d 1 Inr 2 by (auto simp: deliver_batch_def bnd_def ret_def split: sum.splits)
    ultimately show ?thesis using i b(1)
      by (cases r2; cases "projr r2") (auto split: ack_outcome.splits)
  qed
qed

subsection \<open>Finalization\<close>

lemma drain_to_eof_step:
  assumes "spool_ok w" and "drain_to_eof n env w = (r, w')"
  shows "settled w w' \<and> qdead w' = qdead w \<and> (r = Inr (Some True) \<longrightarrow> 0 < de_batch_size env \<longrightarrow> qpend w' = [])"
  using assms
proof (induction n arbitrary: w)
  case 0
  then show ?case by (auto intro: settled_refl)
next
  case (Suc n)
  obtain b m where rd: "read_batch (dr_key w) (de_batch_size env) (dr_q w) = Inr b"
    and m: "m = min (nat (de_batch_size env)) (length (qpend w))"
    and b: "b_records b = cursors (int (offset_of (qdir w) (dr_key w))) (take m (qpend w))"
      "b_end b = int (offset_of (qdir w) (dr_key w)) + int (length (frame (take m (qpend w))))"
    using Suc.prems(1) by (rule read_spool)
  have ml: "m \<le> length (qpend w)" and len: "length (b_records b) = m" using m b by simp_all
  obtain r1 w1 where 1: "process_batch env (b_records b) w = (r1, w1)" by (meson surj_pair)
  have m1: "moves w w1" using process_records_step [OF 1 [unfolded process_batch_def]] by simp
  show ?case
  proof (cases "b_records b = []")
    case True
    then have "m = 0" using len by simp
    then have "0 < de_batch_size env \<longrightarrow> qpend w = []" using m by (auto simp: min_def split: if_splits)
    with True Suc.prems rd show ?thesis by (auto intro: settled_refl)
  next
    case ne: False
    show ?thesis
    proof (cases r1)
      case (Inl e)
      then have "w' = w1" "r = Inr (Some False)" using Suc.prems(2) rd ne 1 by (simp_all add: bnd_def)
      then show ?thesis using moves_settled [OF Suc.prems(1) m1] by simp
    next
      case (Inr st)
      obtain r2 w2 where 2: "flush_and_commit env (b_records b) (b_end b) (b_records b) w1 = (r2, w2)" by (meson surj_pair)
      have step: "if r2 = Inr AckDone then acked m w w2 else moves w w2"
        by (rule dispatch_then_flush [OF Suc.prems(1) b(1) 1 [unfolded Inr] order.refl ml b(2) 2])
      show ?thesis
      proof (cases "r2 = Inr AckDone")
        case True
        let ?w = "post_commit env (b_records b) (record_written (length (b_records b)) w2)"
        have a: "acked m w w2" using step True by simp
        note as = acked_settled [OF a ml, of ?w "b_records b"]
        have "drain_to_eof n env ?w = (r, w')" using Suc.prems(2) rd ne 1 Inr 2 True by (simp add: bnd_def)
        from Suc.IH [OF _ this] as settledD show ?thesis unfolding len by (auto intro: settled_trans)
      next
        case False
        then have "moves w w2" "w' = w2" "r \<noteq> Inr (Some True)"
          using step Suc.prems(2) rd ne 1 Inr 2 by (auto simp: bnd_def split: sum.splits ack_outcome.splits)
        then show ?thesis using moves_settled [OF Suc.prems(1)] by blast
      qed
    qed
  qed
qed

text \<open>An operation that keeps the ledger in order and the dead-letter file whole.\<close>

definition orderly :: "('g, 'a) dop \<Rightarrow> bool" where
  "orderly m = (\<forall>w r w'. spool_ok w \<longrightarrow> whole w \<longrightarrow> m w = (r, w') \<longrightarrow>
     settled w w' \<and> (\<forall>x. r = Inr x \<longrightarrow> whole w'))"

lemma orderlyD:
  "orderly m \<Longrightarrow> spool_ok w \<Longrightarrow> whole w \<Longrightarrow> m w = (r, w') \<Longrightarrow> settled w w' \<and> (\<forall>x. r = Inr x \<longrightarrow> whole w')"
  unfolding orderly_def by blast

lemma orderly_ret: "orderly (ret x)"
  by (auto simp: orderly_def ret_def intro: settled_refl)

lemma orderly_bnd:
  assumes "orderly m" and "\<And>x. orderly (f x)"
  shows "orderly (bnd m f)"
  unfolding orderly_def
proof (intro allI impI)
  fix w r w' assume ok: "spool_ok w" "whole w" and b: "bnd m f w = (r, w')"
  obtain r1 w1 where 1: "m w = (r1, w1)" by (meson surj_pair)
  note o1 = orderlyD [OF assms(1) ok 1]
  show "settled w w' \<and> (\<forall>x. r = Inr x \<longrightarrow> whole w')"
  proof (cases r1)
    case (Inl e)
    with b 1 o1 show ?thesis by (auto simp: bnd_def)
  next
    case (Inr x)
    then have "f x w1 = (r, w')" "whole w1" "spool_ok w1" using b 1 o1 settledD by (auto simp: bnd_def)
    from orderlyD [OF assms(2) this(3,2,1)] o1 show ?thesis by (auto intro: settled_trans)
  qed
qed

lemma orderly_moves: "(\<And>w. moves w (f w)) \<Longrightarrow> orderly (modify f)"
  unfolding orderly_def modify_def whole_def using moves_settled by (metis Pair_inject)

lemma orderly_read: "orderly (gets f)" "orderly (lift_res s)"
  by (auto simp: orderly_def gets_def lift_res_def intro: settled_refl)

lemma orderly_option: "orderly m \<Longrightarrow> (\<And>x. orderly (f x)) \<Longrightarrow> orderly (case v of None \<Rightarrow> m | Some x \<Rightarrow> f x)"
  by (cases v) auto

lemma orderly_bool: "orderly m \<Longrightarrow> orderly n \<Longrightarrow> orderly (case v of True \<Rightarrow> m | False \<Rightarrow> n)"
  by (cases v) auto

lemma orderly_if: "orderly m \<Longrightarrow> orderly n \<Longrightarrow> orderly (if b then m else n)"
  by simp

lemma orderly_safe_close: "orderly (safe_close env)"
  unfolding safe_close_def
proof (rule orderly_moves)
  fix w :: "'g drain"
  let ?g = "de_close env (if de_recovery env then de_discard env (dr_graph w) else dr_graph w)"
  have "delivered (dr_graph w) x \<Longrightarrow> delivered ?g x" for x using close_keeps discard_keeps by simp
  then show "moves w (w\<lparr>store_closed := True, dr_graph := ?g\<rparr>)" by (simp add: moves_def same_spool_def qdir_def)
qed

lemma orderly_deregister: "orderly deregister"
  unfolding deregister_def by (rule orderly_moves) simp

lemma orderly_delete_drained: "orderly delete_drained_op"
  unfolding orderly_def settled_def whole_def using delete_drained_op_spool by (metis rtranclp.rtrancl_refl)

lemma orderly_eof: "orderly (drain_to_eof n env)"
  unfolding orderly_def whole_def using drain_to_eof_step by metis

lemmas orderly_rules = orderly_ret orderly_bnd orderly_read orderly_option orderly_bool orderly_if
  orderly_safe_close orderly_deregister orderly_delete_drained orderly_eof

lemma orderly_finalize_delete: "orderly (finalize_delete fuel k env)"
  by (induction k) (auto intro!: orderly_rules)

lemma orderly_finish: "orderly (finish fuel env)"
  unfolding finish_def finalize_session_def
  by (intro orderly_rules orderly_finalize_delete orderly_moves) simp_all

subsection \<open>Rounds\<close>

lemma orderly_retry: "orderly transient_retry"
  unfolding transient_retry_def by (intro orderly_rules orderly_moves) simp_all

lemma orderly_idle: "orderly (idle_round due stale env)"
  unfolding idle_round_def by (intro orderly_rules)

lemma handle_exhausted_step:
  assumes "spool_ok w" and "whole w" and "m \<le> length (qpend w)"
    and "recs = cursors (int (offset_of (qdir w) (dr_key w))) (take m (qpend w))"
    and "handle_exhausted_batch env recs w = (r, w')"
  shows "settled w w' \<and> (\<forall>x. r = Inr x \<longrightarrow> whole w')"
proof -
  obtain r1 w1 where 1: "discard_op env w = (r1, w1)" by (meson surj_pair)
  note m1 = discard_op_moves [OF 1]
  then have "same_spool w w1" by (simp add: moves_def)
  note s1 = same_spoolD [OF this]
  have i: "isolate env recs w1 = (r, w')" using assms(5) 1 m1 by (simp add: handle_exhausted_batch_def bnd_def)
  have "settled w1 w' \<and> (\<forall>x. r = Inr x \<longrightarrow> whole w')"
    by (rule isolate_step [OF _ _ _ _ i, of "drop m (qpend w)"]) (use assms s1 in simp_all)
  with moves_settled [OF assms(1), of w1] m1 show ?thesis by (blast intro: settled_trans)
qed

lemma orderly_after_isolation: "orderly (after_isolation fuel env x)"
proof -
  have "orderly (modify (\<lambda>w. w\<lparr>attempts := 0\<rparr>))" by (rule orderly_moves) simp
  then show ?thesis
    unfolding after_isolation_def by (cases x) (auto intro!: orderly_rules orderly_retry orderly_finish)
qed

lemma failed_round_step:
  assumes "spool_ok w" and "whole w" and "m \<le> length (qpend w)"
    and recs: "recs = cursors (int (offset_of (qdir w) (dr_key w))) (take m (qpend w))"
    and f: "failed_round fuel env recs e w = (r, w')"
  shows "settled w w' \<and> (\<forall>x. r = Inr x \<longrightarrow> whole w')"
proof (cases "is_transient_infra_error e")
  case True
  have "orderly (bnd record_write_retry (\<lambda>_. transient_retry))"
    unfolding record_write_retry_def by (intro orderly_rules orderly_retry orderly_moves) simp
  from orderlyD [OF this assms(1,2)] f True show ?thesis by (simp add: failed_round_def)
next
  case False
  let ?w = "charge w"
  have m1: "moves w ?w" by (simp add: moves_def same_spool_charge)
  note s1 = same_spoolD [OF same_spool_charge [of w]] and st = moves_settled [OF assms(1) m1]
  note run = failed_round_poison [OF False, of fuel env recs w]
  show ?thesis
  proof (cases "attempts ?w < de_max_attempts env")
    case True
    with run f st assms(2) show ?thesis by (auto simp: whole_def)
  next
    case exhausted: False
    obtain r2 w2 where 2: "handle_exhausted_batch env recs ?w = (r2, w2)" by (meson surj_pair)
    have h: "settled ?w w2 \<and> (\<forall>x. r2 = Inr x \<longrightarrow> whole w2)"
      by (rule handle_exhausted_step [OF _ _ _ _ 2, of m]) (use assms s1 in simp_all)
    have w2: "settled w w2" using st(1) h by (blast intro: settled_trans)
    show ?thesis
    proof (cases r2)
      case (Inl e')
      with run f 2 exhausted w2 show ?thesis by (auto simp: bnd_def)
    next
      case (Inr x)
      have ok2: "spool_ok w2" "whole w2" using h Inr settledD by blast+
      have "after_isolation fuel env x w2 = (r, w')" using run f 2 exhausted Inr by (simp add: bnd_def)
      from orderlyD [OF orderly_after_isolation ok2 this] w2 show ?thesis by (blast intro: settled_trans)
    qed
  qed
qed

lemma orderly_round: "orderly (drain_round fuel due stale env)"
  unfolding orderly_def
proof (intro allI impI)
  fix w r w' assume ok: "spool_ok w" "whole w" and d: "drain_round fuel due stale env w = (r, w')"
  obtain b m where rd: "read_batch (dr_key w) (de_batch_size env) (dr_q w) = Inr b"
    and m: "m = min (nat (de_batch_size env)) (length (qpend w))"
    and b: "b_records b = cursors (int (offset_of (qdir w) (dr_key w))) (take m (qpend w))"
      "b_end b = int (offset_of (qdir w) (dr_key w)) + int (length (frame (take m (qpend w))))"
    using ok(1) by (rule read_spool)
  have ml: "m \<le> length (qpend w)" using m by simp
  obtain r1 w1 where 1: "deliver_batch env b w = (r1, w1)" by (meson surj_pair)
  note step = deliver_batch_step [OF ok(1) ml b 1]
  consider (idle) "b_records b = []" | (exc) e where "b_records b \<noteq> []" "r1 = Inl e"
    | (failed) st e where "b_records b \<noteq> []" "r1 = Inr (st, AckFailed e)"
    | (acks) st where "b_records b \<noteq> []" "r1 = Inr (st, AckDone)"
    by (metis ack_outcome.exhaust sum.exhaust surj_pair)
  then show "settled w w' \<and> (\<forall>x. r = Inr x \<longrightarrow> whole w')"
  proof cases
    case idle
    then have "idle_round due stale env w = (r, w')" using d rd by (simp add: drain_round_def)
    then show ?thesis by (rule orderlyD [OF orderly_idle ok])
  next
    case exc
    have m1: "moves w w1" using step exc by simp
    then have "same_spool w w1" by (simp add: moves_def)
    note s1 = same_spoolD [OF this]
    have "failed_round fuel env (b_records b) e w1 = (r, w')" using d rd 1 exc by (simp add: drain_round_def)
    then have "settled w1 w' \<and> (\<forall>x. r = Inr x \<longrightarrow> whole w')"
      by (rule failed_round_step [where m = m, rotated -1]) (use ok ml b(1) s1 in simp_all)
    with moves_settled(1) [OF ok(1) m1] show ?thesis by (blast intro: settled_trans)
  next
    case failed
    then have "moves w w1" "w' = w1" "r = Inl e" using step d rd 1 by (simp_all add: drain_round_def)
    with moves_settled(1) [OF ok(1)] show ?thesis by blast
  next
    case acks
    define w2 where "w2 = post_commit env (committed_records b st) (record_written (counted b st) (w1\<lparr>attempts := 0\<rparr>))"
    have a: "acked (counted b st) w (w1\<lparr>attempts := 0\<rparr>)" "counted b st \<le> length (qpend w)"
      using step acks by (simp_all add: acked_def)
    note as = acked_settled [OF a w2_def]
    have wh: "whole w2" using as(2) ok(2) by (simp add: whole_def)
    have "spool_ok w2" using as(1) settledD by blast
    note fin = orderlyD [OF orderly_finish this wh]
    have "(case snd st of None \<Rightarrow> (Inr Again, w2) | Some _ \<Rightarrow> finish fuel env w2) = (r, w')"
      unfolding w2_def using d rd 1 acks by (simp add: drain_round_def Let_def)
    then show ?thesis using as(1) wh fin by (auto split: option.splits intro: settled_trans)
  qed
qed

lemma drain_rounds_settled:
  "spool_ok w \<Longrightarrow> whole w \<Longrightarrow> settled w (drain_rounds fuel ticks env w)"
proof (induction ticks arbitrary: w)
  case (Cons t ticks)
  obtain due stale where t: "t = (due, stale)" by (cases t)
  obtain r1 w1 where 1: "drain_round fuel due stale env w = (r1, w1)" by (meson surj_pair)
  note o1 = orderlyD [OF orderly_round Cons.prems 1]
  show ?case
  proof (cases r1)
    case (Inl e)
    have "moves w1 (snd (on_drain_died env w1))"
      using close_keeps discard_keeps
      by (simp add: on_drain_died_def deregister_def safe_close_def op_simps)
        (simp add: modify_def moves_def same_spool_def qdir_def)
    then have "settled w1 (snd (on_drain_died env w1))" using o1 settledD moves_settled(1) by blast
    with Inl t 1 o1 show ?thesis by (auto intro: settled_trans)
  next
    case (Inr x)
    then have "spool_ok w1" "whole w1" using o1 settledD by blast+
    from Cons.IH [OF this] Inr t 1 o1 show ?thesis by (cases x) (auto intro: settled_trans)
  qed
qed (simp add: settled_refl)

end

end
