(* ===== verification/DrainEnds.thy ===== *)
theory DrainEnds
  imports DrainSpec
begin

text \<open>
  Two further promises of the drainer.  Its inner loops end: with a bound above the number of pending
  records a round never runs out of it, and a larger bound changes nothing.  And an outage of the
  infrastructure buries nothing: while every failure is of the transient kind and every pending line is
  well formed, no round touches the dead-letter file.
\<close>

section \<open>The bound does not matter\<close>

lemma drain_to_eof_more:
  "drain_to_eof n env w = (r, w') \<Longrightarrow> r \<noteq> Inr None \<Longrightarrow> drain_to_eof (n + k) env w = (r, w')"
proof (induction n arbitrary: w)
  case (Suc n)
  then show ?case
    by (auto split: sum.splits prod.splits ack_outcome.splits if_splits)
qed simp

section \<open>Well-formed lines\<close>

definition good_line :: "'g drain_env \<Rightarrow> bytes \<Rightarrow> bool" where
  "good_line env raw =
    (case parse_line (de_loads env) raw of
       Inl _ \<Rightarrow> False
     | Inr pl \<Rightarrow> is_dict (pl_data pl) \<and> (case is_terminal (pl_event pl) of Inl _ \<Rightarrow> False | Inr _ \<Rightarrow> True))"

text \<open>Every failure of the pipeline, the store and the hooks is of the kind a retry can fix.\<close>

definition only_transient :: "'g drain_env \<Rightarrow> bool" where
  "only_transient env =
    ((\<forall>ev d wd i g e g'. de_dispatch env ev d wd i g = (Inl e, g') \<longrightarrow> is_transient_infra_error e) \<and>
     (\<forall>g e g'. de_pre_flush env g = (Inl e, g') \<longrightarrow> is_transient_infra_error e) \<and>
     (\<forall>rs g e g'. de_eligible env rs g = (Inl e, g') \<longrightarrow> is_transient_infra_error e) \<and>
     (\<forall>g e g'. de_flush env g = (Inl e, g') \<longrightarrow> is_transient_infra_error e) \<and>
     (\<forall>rs g e g'. de_flushed env rs g = (Inl e, g') \<longrightarrow> is_transient_infra_error e))"

lemma only_transientD:
  assumes "only_transient env"
  shows "de_dispatch env ev d wd i g = (Inl e, g') \<Longrightarrow> is_transient_infra_error e"
    and "de_pre_flush env g = (Inl e, g') \<Longrightarrow> is_transient_infra_error e"
    and "de_eligible env rs g = (Inl e, g') \<Longrightarrow> is_transient_infra_error e"
    and "de_flush env g = (Inl e, g') \<Longrightarrow> is_transient_infra_error e"
    and "de_flushed env rs g = (Inl e, g') \<Longrightarrow> is_transient_infra_error e"
  using assms unfolding only_transient_def by metis+

lemma on_store_error: "on_store f w = (Inl e, w') \<Longrightarrow> \<exists>g g'. f g = (Inl e, g')"
  by (auto simp: on_store_def split: prod.splits)

lemma process_records_error:
  assumes "only_transient env" and "list_all (\<lambda>q. good_line env (r_raw q)) rs"
    and "process_records env rs k t w = (Inl e, w')"
  shows "is_transient_infra_error e"
  using assms(2,3)
proof (induction rs arbitrary: k t w)
  case (Cons q rs)
  obtain pl b where pl: "parse_line (de_loads env) (r_raw q) = Inr pl" "is_dict (pl_data pl)"
    "is_terminal (pl_event pl) = Inr b"
    using Cons.prems(1) by (auto simp: good_line_def split: sum.splits)
  obtain r1 w1 where 1: "process_one env pl w = (r1, w1)" by (meson surj_pair)
  show ?case
  proof (cases r1)
    case (Inl e')
    then have "e' = e" using Cons.prems(2) pl 1 by (simp add: op_simps bnd_def)
    then have "\<exists>w2. on_store (de_dispatch env (pl_event pl) (pl_data pl) (pl_working_dir pl) (pl_identity pl)) w = (Inl e, w2)"
      using 1 Inl pl(2) by (auto simp: process_one_def split: prod.splits sum.splits if_splits)
    then obtain g g' where "de_dispatch env (pl_event pl) (pl_data pl) (pl_working_dir pl) (pl_identity pl) g = (Inl e, g')"
      by (blast dest: on_store_error)
    then show ?thesis by (rule only_transientD(1) [OF assms(1)])
  next
    case (Inr u)
    then show ?thesis using Cons pl 1 by (auto simp: op_simps bnd_def split: if_splits)
  qed
qed (simp add: ret_def)

lemma flush_and_commit_error:
  assumes "only_transient env" and "flush_and_commit env rs off elig w = (Inl e, w')"
  shows "is_transient_infra_error e"
proof -
  have "(\<exists>g g'. de_pre_flush env g = (Inl e, g')) \<or> (\<exists>g g'. de_eligible env elig g = (Inl e, g')) \<or>
    (\<exists>g g'. de_flush env g = (Inl e, g')) \<or> (\<exists>g g'. de_flushed env rs g = (Inl e, g'))"
    using assms(2)
    by (auto simp: flush_and_commit_def before_commit_def when_op_def bnd_def ret_def
        split: prod.splits sum.splits if_splits dest: on_store_error)
  then show ?thesis using only_transientD(2-5) [OF assms(1)] by metis
qed

lemma deliver_batch_error:
  assumes "only_transient env" and "list_all (\<lambda>q. good_line env (r_raw q)) (b_records b)"
    and "deliver_batch env b w = (Inl e, w')"
  shows "is_transient_infra_error e"
proof -
  obtain r1 w1 where 1: "process_batch env (b_records b) w = (r1, w1)" by (meson surj_pair)
  show ?thesis
  proof (cases r1)
    case (Inl e')
    then have "process_records env (b_records b) 0 None w = (Inl e, w1)"
      using assms(3) 1 by (simp add: deliver_batch_def bnd_def process_batch_def)
    then show ?thesis by (rule process_records_error [OF assms(1,2)])
  next
    case (Inr st)
    then have "\<exists>w2. flush_and_commit env (committed_records b st) (commit_to b st) (b_records b) w1 = (Inl e, w2)"
      using assms(3) 1 by (auto simp: deliver_batch_def bnd_def ret_def split: prod.splits sum.splits)
    then show ?thesis using flush_and_commit_error [OF assms(1)] by blast
  qed
qed

section \<open>The promises\<close>

context graph_sink
begin

subsection \<open>Termination\<close>

lemma drain_to_eof_ends:
  assumes "0 < de_batch_size env"
  shows "spool_ok w \<Longrightarrow> length (qpend w) < n \<Longrightarrow> fst (drain_to_eof n env w) \<noteq> Inr None"
proof (induction n arbitrary: w)
  case (Suc n)
  obtain b m where rd: "read_batch (dr_key w) (de_batch_size env) (dr_q w) = Inr b"
    and m: "m = min (nat (de_batch_size env)) (length (qpend w))"
    and b: "b_records b = cursors (int (offset_of (qdir w) (dr_key w))) (take m (qpend w))"
      "b_end b = int (offset_of (qdir w) (dr_key w)) + int (length (frame (take m (qpend w))))"
    using Suc.prems(1) by (rule read_spool)
  have ml: "m \<le> length (qpend w)" and len: "length (b_records b) = m" using m b by simp_all
  obtain r1 w1 where 1: "process_batch env (b_records b) w = (r1, w1)" by (meson surj_pair)
  show ?case
  proof (cases "b_records b = []")
    case True
    with rd show ?thesis by simp
  next
    case ne: False
    show ?thesis
    proof (cases r1)
      case (Inl e)
      with rd ne 1 show ?thesis by (simp add: bnd_def)
    next
      case (Inr st)
      obtain r2 w2 where 2: "flush_and_commit env (b_records b) (b_end b) (b_records b) w1 = (r2, w2)" by (meson surj_pair)
      have step: "if r2 = Inr AckDone then acked m w w2 else moves w w2"
        by (rule dispatch_then_flush [OF Suc.prems(1) b(1) 1 [unfolded Inr] order.refl ml b(2) 2])
      show ?thesis
      proof (cases "r2 = Inr AckDone")
        case True
        let ?w = "post_commit env (b_records b) (record_written (length (b_records b)) w2)"
        have a: "acked m w w2" using step True by simp
        note as = acked_settled [OF a ml, of ?w "b_records b"]
        have "0 < m" using len ne by auto
        then have "length (qpend w) - m < n" using Suc.prems(2) ml by linarith
        then have "fst (drain_to_eof n env ?w) \<noteq> Inr None"
          using Suc.IH [of ?w] as len settledD(1) by simp
        then show ?thesis using rd ne 1 Inr 2 True by (simp add: bnd_def)
      next
        case False
        with rd ne 1 Inr 2 show ?thesis by (auto simp: bnd_def split: sum.splits ack_outcome.splits)
      qed
    qed
  qed
qed simp

lemma settled_suffix: "settled w w' \<Longrightarrow> \<exists>ps. qpend w = ps @ qpend w'"
  using run_accounted [of env delivered "ledger_of w" "ledger_of w'"]
  by (auto simp: settled_def accounted_def ledger_of_def)

lemma settled_shrinks: "settled w w' \<Longrightarrow> length (qpend w') \<le> length (qpend w)"
  using settled_suffix by fastforce

lemma finalize_delete_ends:
  assumes "0 < de_batch_size env"
  shows "spool_ok w \<Longrightarrow> length (qpend w) < fuel \<Longrightarrow> fst (finalize_delete fuel k env w) \<noteq> Inr None"
proof (induction k arbitrary: w)
  case (Suc k)
  obtain r1 w1 where 1: "delete_drained_op w = (r1, w1)" by (meson surj_pair)
  note d = delete_drained_op_spool [OF Suc.prems(1) 1]
  have l: "length (qpend w1) < fuel" using d(2) Suc.prems(2) by (simp add: ledger_of_def)
  obtain r2 w2 where 2: "drain_to_eof fuel env w1 = (r2, w2)" by (meson surj_pair)
  have ne: "r2 \<noteq> Inr None" using drain_to_eof_ends [OF assms d(1) l] 2 by simp
  have s: "settled w1 w2" using drain_to_eof_step [OF d(1) 2] by simp
  have "fst (finalize_delete fuel k env w2) \<noteq> Inr None"
    using Suc.IH [of w2] settledD(1) [OF s] settled_shrinks [OF s] l by simp
  with 1 2 ne show ?case
    by (cases r1) (auto simp: bnd_def ret_def split: sum.splits option.splits)
qed (simp add: ret_def)

lemma finish_ends:
  assumes "0 < de_batch_size env" and "spool_ok w" and "length (qpend w) < fuel"
  shows "fst (finish fuel env w) \<noteq> Inr OutOfFuel"
proof -
  obtain r1 w1 where 1: "drain_to_eof fuel env w = (r1, w1)" by (meson surj_pair)
  have ne: "r1 \<noteq> Inr None" using drain_to_eof_ends [OF assms] 1 by simp
  have s: "settled w w1" using drain_to_eof_step [OF assms(2) 1] by simp
  let ?w = "w1\<lparr>dr_completed := dr_completed w1 + 1\<rparr>"
  have "spool_ok ?w" "length (qpend ?w) < fuel"
    using settledD(1) [OF s] settled_shrinks [OF s] assms(3) by (simp_all add: spool_ok_def qdir_def qpend_def)
  from finalize_delete_ends [OF assms(1) this, of FINALIZE_DELETE_ATTEMPTS] 1 ne show ?thesis
    by (cases "finalize_delete fuel FINALIZE_DELETE_ATTEMPTS env ?w")
      (auto simp: finish_def finalize_session_def bnd_def modify_def ret_def safe_close_def deregister_def
        split: sum.splits option.splits bool.splits)
qed

lemma transient_retry_result: "fst (transient_retry w) \<noteq> Inr OutOfFuel"
  by (simp add: transient_retry_def op_simps) (simp add: bnd_def lift_res_def ret_def split: sum.splits)

lemma failed_round_ends:
  assumes "0 < de_batch_size env" and ok: "spool_ok w" "whole w" and m: "m \<le> length (qpend w)"
    and recs: "recs = cursors (int (offset_of (qdir w) (dr_key w))) (take m (qpend w))"
    and l: "length (qpend w) < fuel"
  shows "fst (failed_round fuel env recs e w) \<noteq> Inr OutOfFuel"
proof (cases "is_transient_infra_error e")
  case True
  then show ?thesis using transient_retry_result by (simp add: failed_round_def record_write_retry_def op_simps)
next
  case False
  let ?w = "charge w"
  note s1 = same_spoolD [OF same_spool_charge [of w]]
  obtain r2 w2 where 2: "handle_exhausted_batch env recs ?w = (r2, w2)" by (meson surj_pair)
  have h: "settled ?w w2"
    using handle_exhausted_step [OF _ _ _ _ 2, of m] ok m recs s1 by simp
  have "fst (finish fuel env w2) \<noteq> Inr OutOfFuel"
    by (rule finish_ends [OF assms(1) settledD(1) [OF h]]) (use settled_shrinks [OF h] s1 l in simp)
  then have "fst (after_isolation fuel env x w2) \<noteq> Inr OutOfFuel" for x
    using transient_retry_result by (cases x) (simp_all add: after_isolation_def op_simps ret_def)
  then show ?thesis
    unfolding failed_round_poison [OF False] using 2 by (auto simp: bnd_def split: sum.splits)
qed

lemma round_ends:
  assumes "0 < de_batch_size env" and ok: "spool_ok w" "whole w" and l: "length (qpend w) < fuel"
  shows "fst (drain_round fuel due stale env w) \<noteq> Inr OutOfFuel"
proof -
  obtain b m where rd: "read_batch (dr_key w) (de_batch_size env) (dr_q w) = Inr b"
    and m: "m = min (nat (de_batch_size env)) (length (qpend w))"
    and b: "b_records b = cursors (int (offset_of (qdir w) (dr_key w))) (take m (qpend w))"
      "b_end b = int (offset_of (qdir w) (dr_key w)) + int (length (frame (take m (qpend w))))"
    using ok(1) by (rule read_spool)
  have ml: "m \<le> length (qpend w)" using m by simp
  obtain r1 w1 where 1: "deliver_batch env b w = (r1, w1)" by (meson surj_pair)
  note step = deliver_batch_step [OF ok(1) ml b 1]
  consider (idle) "b_records b = []" | (exc) e where "b_records b \<noteq> []" "r1 = Inl e"
    | (failed) st e where "b_records b \<noteq> []" "r1 = Inr (st, AckFailed e)"
    | (acks) st where "b_records b \<noteq> []" "r1 = Inr (st, AckDone)"
    by (metis ack_outcome.exhaust sum.exhaust surj_pair)
  then show ?thesis
  proof cases
    case idle
    with rd show ?thesis
      by (auto simp: drain_round_def idle_round_def bnd_def ret_def split: prod.splits sum.splits)
  next
    case exc
    have "moves w w1" using step exc by simp
    then have "same_spool w w1" by (simp add: moves_def)
    note s1 = same_spoolD [OF this]
    have "fst (failed_round fuel env (b_records b) e w1) \<noteq> Inr OutOfFuel"
      by (rule failed_round_ends [OF assms(1), of _ m]) (use ok ml b(1) l s1 in simp_all)
    with rd 1 exc show ?thesis by (simp add: drain_round_def)
  next
    case failed
    with rd 1 show ?thesis by (simp add: drain_round_def)
  next
    case acks
    define w2 where "w2 = post_commit env (committed_records b st) (record_written (counted b st) (w1\<lparr>attempts := 0\<rparr>))"
    have a: "acked (counted b st) w (w1\<lparr>attempts := 0\<rparr>)" "counted b st \<le> length (qpend w)"
      using step acks by (simp_all add: acked_def)
    note as = acked_settled [OF a w2_def]
    have "fst (finish fuel env w2) \<noteq> Inr OutOfFuel"
      by (rule finish_ends [OF assms(1) settledD(1) [OF as(1)]]) (use as(3) l in simp)
    then show ?thesis unfolding w2_def using rd 1 acks by (simp add: drain_round_def Let_def split: option.splits)
  qed
qed

subsection \<open>An outage buries nothing\<close>

definition hushed :: "bytes \<Rightarrow> 'g drain \<Rightarrow> bool" where
  "hushed D w = (spool_ok w \<and> qdead w = D)"

lemma hushed_moves: "hushed D w \<Longrightarrow> moves w w' \<Longrightarrow> hushed D w'"
  unfolding hushed_def moves_def using same_spoolD(4,5) [of w w'] by simp

lemma hushed_modify: "(\<And>w. moves w (f w)) \<Longrightarrow> keeps (hushed D) (modify f)"
  by (rule keeps_modify) (rule hushed_moves)

lemma hushed_eof: "keeps (hushed D) (drain_to_eof n env)"
  unfolding keeps_def hushed_def using drain_to_eof_step settledD(1) by (metis prod.collapse)

lemma hushed_delete: "keeps (hushed D) delete_drained_op"
  unfolding keeps_def hushed_def using delete_drained_op_spool by (metis prod.collapse)

lemma hushed_close: "keeps (hushed D) (safe_close env)" "keeps (hushed D) deregister"
  by (auto simp: keeps_def hushed_def safe_close_def deregister_def modify_def spool_ok_def qdead_def qdir_def)

lemma hushed_finalize_delete: "keeps (hushed D) (finalize_delete fuel k env)"
  by (induction k) (auto intro!: keeps_rules hushed_delete hushed_eof split: option.splits)

lemma hushed_finish: "keeps (hushed D) (finish fuel env)"
  unfolding finish_def finalize_session_def
  by (intro keeps_rules hushed_eof hushed_modify)
    (auto intro!: keeps_rules hushed_finalize_delete hushed_close hushed_modify split: bool.splits option.splits)

lemma hushed_retry: "keeps (hushed D) transient_retry" "keeps (hushed D) record_write_retry"
  unfolding transient_retry_def record_write_retry_def by (intro keeps_rules hushed_modify, simp)+

lemma hushed_idle: "keeps (hushed D) (idle_round due stale env)"
  unfolding idle_round_def by (intro keeps_rules hushed_close hushed_delete)

lemma hushed_round:
  assumes ok: "spool_ok w" and out: "only_transient env" and good: "list_all (good_line env) (qpend w)"
  shows "qdead (snd (drain_round fuel due stale env w)) = qdead w"
proof -
  obtain b m where rd: "read_batch (dr_key w) (de_batch_size env) (dr_q w) = Inr b"
    and m: "m = min (nat (de_batch_size env)) (length (qpend w))"
    and b: "b_records b = cursors (int (offset_of (qdir w) (dr_key w))) (take m (qpend w))"
      "b_end b = int (offset_of (qdir w) (dr_key w)) + int (length (frame (take m (qpend w))))"
    using ok by (rule read_spool)
  have ml: "m \<le> length (qpend w)" using m by simp
  have "list_all (good_line env) (map r_raw (b_records b))"
    using good b(1) by (auto simp: list_all_iff dest: in_set_takeD)
  then have g: "list_all (\<lambda>q. good_line env (r_raw q)) (b_records b)" by (simp add: list_all_iff)
  obtain r1 w1 where 1: "deliver_batch env b w = (r1, w1)" by (meson surj_pair)
  note step = deliver_batch_step [OF ok ml b 1]
  consider (idle) "b_records b = []" | (exc) e where "b_records b \<noteq> []" "r1 = Inl e"
    | (failed) st e where "b_records b \<noteq> []" "r1 = Inr (st, AckFailed e)"
    | (acks) st where "b_records b \<noteq> []" "r1 = Inr (st, AckDone)"
    by (metis ack_outcome.exhaust sum.exhaust surj_pair)
  then show ?thesis
  proof cases
    case idle
    with rd ok hushed_idle [of "qdead w" due stale] show ?thesis by (simp add: drain_round_def keeps_def hushed_def)
  next
    case exc
    have t: "is_transient_infra_error e" using deliver_batch_error [OF out g] 1 exc by blast
    have m1: "moves w w1" using step exc by simp
    have "hushed (qdead w) w" using ok by (simp add: hushed_def)
    then have "hushed (qdead w) w1" using m1 by (rule hushed_moves)
    moreover have "keeps (hushed (qdead w)) (bnd record_write_retry (\<lambda>_. transient_retry))"
      by (intro keeps_rules hushed_retry)
    ultimately show ?thesis using rd 1 exc t by (simp add: drain_round_def failed_round_def keeps_def hushed_def)
  next
    case failed
    then have "moves w w1" using step by simp
    with failed rd 1 moves_settled(2) [OF ok, of w1] show ?thesis by (simp add: drain_round_def)
  next
    case acks
    define w2 where "w2 = post_commit env (committed_records b st) (record_written (counted b st) (w1\<lparr>attempts := 0\<rparr>))"
    have a: "acked (counted b st) w (w1\<lparr>attempts := 0\<rparr>)" "counted b st \<le> length (qpend w)"
      using step acks by (simp_all add: acked_def)
    note as = acked_settled [OF a w2_def]
    have "hushed (qdead w) w2" using as(2) settledD(1) [OF as(1)] by (simp add: hushed_def)
    then have "qdead (snd (finish fuel env w2)) = qdead w"
      using hushed_finish [of "qdead w" fuel] by (simp add: keeps_def hushed_def)
    with as(2) show ?thesis unfolding w2_def using rd 1 acks
      by (simp add: drain_round_def Let_def split: option.splits)
  qed
qed

lemma hushed_rounds:
  assumes out: "only_transient env"
  shows "spool_ok w \<Longrightarrow> whole w \<Longrightarrow> list_all (good_line env) (qpend w) \<Longrightarrow>
    qdead (drain_rounds fuel ticks env w) = qdead w"
proof (induction ticks arbitrary: w)
  case (Cons t ticks)
  obtain due stale where t: "t = (due, stale)" by (cases t)
  obtain r1 w1 where 1: "drain_round fuel due stale env w = (r1, w1)" by (meson surj_pair)
  have h: "qdead w1 = qdead w" using hushed_round [OF Cons.prems(1) out Cons.prems(3)] 1 by (metis snd_conv)
  have s: "settled w w1" using orderlyD [OF orderly_round Cons.prems(1,2) 1] by simp
  then obtain ps where "qpend w = ps @ qpend w1" using settled_suffix by blast
  then have "list_all (good_line env) (qpend w1)" using Cons.prems(3) by simp
  then have again: "qdead (drain_rounds fuel ticks env w1) = qdead w"
    using Cons.IH [of w1] settledD(1) [OF s] Cons.prems(2) h by (simp add: whole_def)
  have "qdead (snd (on_drain_died env w1)) = qdead w1"
    by (simp add: on_drain_died_def deregister_def safe_close_def op_simps) (simp add: modify_def qdead_def qdir_def)
  with again h 1 t show ?case by (auto split: sum.splits round_end.splits)
qed simp

end

end
