(* ===== verification/Json.thy ===== *)
theory Json
  imports Files
begin

text \<open>
  Two renderings of the standard library the spool depends on: \<^verbatim>\<open>json.dumps\<close> with its default settings
  (ASCII output, everything else escaped, a comma or colon followed by a blank) and the 32 hexadecimal
  digits of a uuid.  What the spool relies on is that a rendered value is one line.
\<close>

section \<open>Hexadecimal\<close>

definition hex_char :: "nat \<Rightarrow> char" where
  "hex_char n = (if n < 10 then char_of (48 + n) else char_of (87 + n))"

definition hex_digits :: "nat \<Rightarrow> nat \<Rightarrow> str" where
  "hex_digits k n = map (\<lambda>i. hex_char (n div 16 ^ i mod 16)) (rev [0..<k])"

definition uuid_hex :: "nat \<Rightarrow> str" where
  "uuid_hex n = hex_digits 32 n"

lemma length_uuid_hex [simp]: "length (uuid_hex n) = 32"
  by (simp add: uuid_hex_def hex_digits_def)

section \<open>Strings\<close>

definition json_unit :: "nat \<Rightarrow> str" where
  "json_unit n = CHR 0x5C # CHR ''u'' # hex_digits 4 n"

text \<open>A code point: a character outside the basic plane is written as a surrogate pair.\<close>

definition json_point :: "nat \<Rightarrow> str" where
  "json_point n =
    (if n < 0x10000 then json_unit n
     else json_unit (0xD800 + (n - 0x10000) div 0x400) @ json_unit (0xDC00 + (n - 0x10000) mod 0x400))"

definition json_ascii :: "nat \<Rightarrow> str" where
  "json_ascii b =
    (if b = 0x22 then [CHR 0x5C, CHR 0x22] else if b = 0x5C then [CHR 0x5C, CHR 0x5C]
     else if b = 10 then [CHR 0x5C, CHR ''n''] else if b = 13 then [CHR 0x5C, CHR ''r'']
     else if b = 9 then [CHR 0x5C, CHR ''t''] else if b = 12 then [CHR 0x5C, CHR ''f'']
     else if b = 8 then [CHR 0x5C, CHR ''b'']
     else if 32 \<le> b \<and> b \<le> 126 then [char_of b] else json_point b)"

text \<open>The code point of a sequence from its first byte and its continuation bytes.\<close>

definition utf8_point :: "nat \<Rightarrow> nat list \<Rightarrow> nat" where
  "utf8_point b cs =
    foldl (\<lambda>n c. n * 64 + (c - 0x80))
      (if b < 0xE0 then b - 0xC0 else if b < 0xF0 then b - 0xE0 else b - 0xF0) cs"

function json_bytes :: "nat list \<Rightarrow> str" where
  "json_bytes [] = []"
| "json_bytes (b # bs) =
    (if b < 0x80 then json_ascii b @ json_bytes bs
     else json_point (utf8_point b (take (utf8_width b - 1) bs)) @ json_bytes (drop (utf8_width b - 1) bs))"
  by pat_completeness auto
termination by (relation "measure length") auto

definition json_str :: "str \<Rightarrow> str" where
  "json_str s = CHR 0x22 # json_bytes (map of_char s) @ [CHR 0x22]"

section \<open>Values\<close>

fun join :: "str \<Rightarrow> str list \<Rightarrow> str" where
  "join sep [] = []"
| "join sep [x] = x"
| "join sep (x # y # xs) = x @ sep @ join sep (y # xs)"

text \<open>The text of a float holds digits, signs, a point, an exponent or one of the special names.\<close>

definition float_text :: "str \<Rightarrow> str" where
  "float_text s = filter (\<lambda>c. c \<in> set ''0123456789+-.eInfityNa'') s"

fun json_dumps :: "pyval \<Rightarrow> str" where
  "json_dumps PNone = ''null''"
| "json_dumps (PBool b) = (if b then ''true'' else ''false'')"
| "json_dumps (PInt i) = int_dec i"
| "json_dumps (PFloat s) = float_text s"
| "json_dumps (PStr s) = json_str s"
| "json_dumps (PList vs) = ''['' @ join '', '' (map json_dumps vs) @ '']''"
| "json_dumps (PDict kvs) =
    CHR ''{'' # join '', '' (map (\<lambda>kv. json_str (fst kv) @ '': '' @ json_dumps (snd kv)) kvs) @ ''}''"

section \<open>A rendered value is one line\<close>

lemma hex_char_nl: "n < 16 \<Longrightarrow> hex_char n \<noteq> NL"
proof -
  assume "n < 16"
  then have "of_char (hex_char n) \<noteq> (10::nat)" by (simp add: hex_char_def)
  moreover have "of_char NL = (10::nat)" by (simp add: NL_def)
  ultimately show ?thesis by metis
qed

lemma no_nl_hex [simp]: "no_nl (hex_digits k n)"
proof -
  have "hex_char (n div 16 ^ i mod 16) \<noteq> NL" for i by (rule hex_char_nl) simp
  from this [symmetric] show ?thesis by (auto simp: no_nl_def hex_digits_def)
qed

lemma no_nl_point [simp]: "no_nl (json_point n)"
  by (simp add: json_point_def json_unit_def NL_def)

lemma no_nl_ascii [simp]: "no_nl (json_ascii b)"
proof -
  have "of_char NL = (10::nat)" by (simp add: NL_def)
  moreover have "b \<le> 126 \<Longrightarrow> of_char (char_of b) = b" by simp
  ultimately have "b \<noteq> 10 \<Longrightarrow> b \<le> 126 \<Longrightarrow> char_of b \<noteq> NL" by metis
  then show ?thesis by (simp add: json_ascii_def) (simp add: NL_def)
qed

lemma no_nl_bytes [simp]: "no_nl (json_bytes bs)"
  by (induction bs rule: json_bytes.induct) auto

lemma no_nl_str [simp]: "no_nl (json_str s)"
  by (simp add: json_str_def NL_def)

lemma no_nl_join: "no_nl sep \<Longrightarrow> (\<And>x. x \<in> set xs \<Longrightarrow> no_nl x) \<Longrightarrow> no_nl (join sep xs)"
  by (induction sep xs rule: join.induct) auto

lemma no_nl_int_dec [simp]: "no_nl (int_dec i)"
proof -
  have "no_nl (nat_dec n)" for n
    using nat_dec_digits [of n] by (auto simp: no_nl_def list_all_iff is_digit_def NL_def)
  then show ?thesis by (simp add: int_dec_def NL_def)
qed

lemma json_dumps_one_line: "no_nl (json_dumps v)"
proof (induction v rule: json_dumps.induct)
  case (4 s)
  show ?case by (auto simp: float_text_def no_nl_def NL_def)
next
  case (6 vs)
  then show ?case by (auto simp: NL_def intro!: no_nl_join)
next
  case (7 kvs)
  then show ?case by (auto simp: NL_def intro!: no_nl_join)
qed (simp_all add: NL_def)

end
