(* ===== verification/LiveDrain.thy ===== *)
theory LiveDrain
  imports DrainEnds EventRecord Json
begin

text \<open>
  The drainer over the event pipeline and the in-memory graph store: the queue, the drain loop, the
  handlers and the graph put together.  \<^verbatim>\<open>pipeline_env\<close> gives the drainer's parameters for a live session;
  the interface \<^verbatim>\<open>graph_sink\<close> is interpreted on it, a line counting as delivered when the graph holds its
  event node, and the promises of the drainer become statements about whole runs.
\<close>

section \<open>The live drainer\<close>

record live_cfg =
  lc_env :: env
  lc_loads :: "str \<Rightarrow> pyval res"
  lc_b64 :: "bytes \<Rightarrow> str"
  lc_uuid :: "nat \<Rightarrow> nat"
  lc_commit :: "nat \<Rightarrow> commit_io"
  lc_dead :: "nat \<Rightarrow> wr list \<times> pyval"
  lc_error_text :: "exc \<Rightarrow> str"
  lc_max_attempts :: nat

text \<open>\<^verbatim>\<open>process_event(worker, event, data, handlers, working_dir=..., event_identity=...)\<close> on what a queue line
  holds; a value of another type than the annotated one is not followed further.\<close>

definition pipeline_dispatch ::
  "env \<Rightarrow> pyval \<Rightarrow> pyval \<Rightarrow> pyval \<Rightarrow> str option \<Rightarrow> hook_state \<Rightarrow> unit res \<times> hook_state" where
  "pipeline_dispatch env event data wd identity s =
    (case event of
       PStr ev \<Rightarrow>
         (case data of
            PDict d \<Rightarrow>
              (case wd of
                 PNone \<Rightarrow> process_event (env\<lparr>event_identity := identity\<rparr>) ev d None s
               | PStr x \<Rightarrow> process_event (env\<lparr>event_identity := identity\<rparr>) ev d (Some x) s
               | _ \<Rightarrow> (Inl (IllTyped ''working_dir''), s))
          | _ \<Rightarrow> (Inl (IllTyped ''data''), s))
     | _ \<Rightarrow> (Inl (IllTyped ''event''), s))"

definition pipeline_env :: "live_cfg \<Rightarrow> hook_state drain_env" where
  "pipeline_env c =
    \<lparr>de_loads = lc_loads c, de_dumps = json_dumps, de_b64 = lc_b64 c,
     de_dispatch = pipeline_dispatch (lc_env c),
     de_flush = ret (), de_discard = (\<lambda>g. g), de_close = (\<lambda>g. g),
     de_pre_flush = ret (), de_eligible = (\<lambda>_. ret ()), de_flushed = (\<lambda>_. ret ()), de_written = (\<lambda>_ g. g),
     de_quarantined = (\<lambda>_. ret ()),
     de_commit_io = (\<lambda>n. (uuid_hex (lc_uuid c n), lc_commit c n)), de_dead_io = lc_dead c,
     de_error_text = lc_error_text c, de_max_attempts = lc_max_attempts c,
     de_batch_size = DRAIN_MAX_BATCH, de_recovery = False\<rparr>"

section \<open>The event node of a line\<close>












section \<open>Properties\<close>



lemma sink_trivial:
  assumes "\<forall>n. length (fst (de_commit_io env n)) = 32" and "\<forall>v. no_nl (de_dumps env v)"
  shows "graph_sink env (\<lambda>_ _. True) (\<lambda>_ _. True)"
  using assms by unfold_locales simp_all

text \<open>
  C3 [outage_buries_nothing]: an outage of the infrastructure never turns healthy events into dead letters.
  For every store and pipeline: while each failure of a dispatch, a flush or a hook is one a retry could fix
  and every pending line is a well-formed event, any number of rounds leaves the dead-letter file as it was,
  byte for byte, and drops no pending record out of order.
\<close>

theorem outage_buries_nothing:
  assumes "\<forall>n. length (fst (de_commit_io env n)) = 32" and "\<forall>v. no_nl (de_dumps env v)"
    and "spool_ok w" and "whole w" and "only_transient env" and "list_all (good_line env) (qpend w)"
  shows "qdead (drain_rounds fuel ticks env w) = qdead w \<and> (\<exists>ps. qpend w = ps @ qpend (drain_rounds fuel ticks env w))"
proof -
  note s = sink_trivial [OF assms(1,2)]
  from graph_sink.hushed_rounds [OF s assms(5,3,4,6)]
    graph_sink.settled_suffix [OF s graph_sink.drain_rounds_settled [OF s assms(3,4)]]
  show ?thesis by simp
qed


section \<open>Witnesses\<close>

definition sample_cfg :: live_cfg where
  "sample_cfg = \<lparr>lc_env = sample_env, lc_loads = (\<lambda>_. Inr (PDict [(''event'', PStr ''e'')])), lc_b64 = (\<lambda>b. b),
     lc_uuid = (\<lambda>_. 0), lc_commit = (\<lambda>_. CommitOk), lc_dead = (\<lambda>_. ([], PNone)), lc_error_text = (\<lambda>_. []),
     lc_max_attempts = 5\<rparr>"

definition sample_drain :: "hook_state drain" where
  "sample_drain = \<lparr>dr_key = ''s'', dr_q = start_qm sample_dir, dr_graph = HookStateService ''w'' None, dr_calls = 0,
     written_total = 0, write_retries_total = 0, last_event = PNone, events_processed = 0, error_count = 0,
     dr_completed = 0, store_closed = False, registered = True, attempts = 0, transient_attempts = 0\<rparr>"

lemma sample_spool: "spool_ok sample_drain" "whole sample_drain" "qpend sample_drain = [''b'']" "qdead sample_drain = ''x'' @ [NL]"
proof -
  have q: "qdir sample_drain = sample_dir" "dr_key sample_drain = ''s''"
    by (simp_all add: sample_drain_def qdir_def start_qm_def)
  have "length (log_of sample_dir ''s'') < 10"
    by (simp add: log_of_def file_of_def sample_dir_def path_defs)
  then show "spool_ok sample_drain" using fits_small by (simp add: spool_ok_def q sample_key_ok)
  show "qpend sample_drain = [''b'']" by (simp add: qpend_def q sample_pending)
  show d: "qdead sample_drain = ''x'' @ [NL]" by (simp add: qdead_def q file_of_def sample_dir_def path_defs)
  show "whole sample_drain" unfolding whole_def d by (rule ctail_close)
qed



definition outage_env :: "hook_state drain_env" where
  "outage_env = (pipeline_env sample_cfg)\<lparr>de_flush := raise_op DriverTransient, de_dispatch := (\<lambda>_ _ _ _. ret ())\<rparr>"

lemma outage_env_simps:
  "\<forall>n. length (fst (de_commit_io outage_env n)) = 32" "\<forall>v. no_nl (de_dumps outage_env v)"
  "only_transient outage_env" "good_line outage_env ''b''" "de_batch_size outage_env = 100"
  by (simp_all add: outage_env_def pipeline_env_def json_dumps_one_line only_transient_def ret_def raise_op_def
      good_line_def parse_line_def sample_cfg_def utf8_valid_def utf8_width_def utf8_tail_ok_def is_dict_def
      DRAIN_MAX_BATCH_def Let_def)

theorem outage_buries_nothing_witness: "qdead (drain_rounds 2 [(False, False)] outage_env sample_drain) = ''x'' @ [NL]"
  using outage_buries_nothing [OF outage_env_simps(1,2) sample_spool(1,2) outage_env_simps(3)]
  by (simp add: sample_spool outage_env_simps del: drain_rounds.simps)


section \<open>A long outage\<close>

text \<open>The flush fails and nothing else does.\<close>

lemma outage_round:
  assumes "\<And>g. de_flush env g = (Inl e, g)" and "is_transient_infra_error e"
    and pass: "\<And>g. de_pre_flush env g = (Inr (), g)" "\<And>rs g. de_eligible env rs g = (Inr (), g)"
    and read: "read_batch (dr_key w) (de_batch_size env) (dr_q w) = Inr b" "b_records b \<noteq> []"
    and proc: "process_batch env (b_records b) w = (Inr st, w1)"
  shows "drain_round fuel due stale env w =
    (if transient_attempts w1 < 1024 then Inr Again else Inl OverflowError,
     w1\<lparr>write_retries_total := write_retries_total w1 + 1, transient_attempts := transient_attempts w1 + 1\<rparr>)"
proof -
  have "deliver_batch env b w = (Inl e, w1)"
    by (simp add: deliver_batch_def bnd_def proc flush_and_commit_def on_store_def assms(1) pass)
  then show ?thesis
    using assms(2) read
    by (simp add: drain_round_def failed_round_def record_write_retry_def transient_retry_def op_simps transient_backoff_def)
      (simp add: bnd_def lift_res_def ret_def raise_op_def)
qed

lemma process_records_frame:
  "process_records env rs k t w = (r, w') \<Longrightarrow> transient_attempts w' = transient_attempts w \<and> dr_q w' = dr_q w \<and> dr_key w' = dr_key w"
proof (induction rs arbitrary: k t w)
  case (Cons q rs)
  show ?case
  proof (cases "parse_line (de_loads env) (r_raw q)")
    case (Inl e)
    with Cons.prems show ?thesis by (auto simp: op_simps raise_op_def)
  next
    case (Inr pl)
    obtain r1 w1 where 1: "process_one env pl w = (r1, w1)" by (meson surj_pair)
    have f: "transient_attempts w1 = transient_attempts w \<and> dr_q w1 = dr_q w \<and> dr_key w1 = dr_key w"
      using 1 by (auto simp: process_one_def on_store_def split: prod.splits sum.splits if_splits)
    with Cons Inr 1 show ?thesis
      by (cases r1; cases "is_terminal (pl_event pl)") (auto simp: op_simps bnd_def raise_op_def split: if_splits)
  qed
qed (simp add: ret_def)

text \<open>The exponential backoff is computed before it is capped: the 1025th consecutive transient failure raises
  in the retry itself, and the drainer the outage should only have slowed down is gone, with its events still
  in the queue.\<close>

theorem outage_kills_drainer:
  assumes flush: "\<And>g. de_flush env g = (Inl e, g)" "is_transient_infra_error e"
    and pass: "\<And>g. de_pre_flush env g = (Inr (), g)" "\<And>rs g. de_eligible env rs g = (Inr (), g)"
    and read: "read_batch (dr_key w) (de_batch_size env) (dr_q w) = Inr b" "b_records b \<noteq> []"
    and proc: "\<And>w. \<exists>st w1. process_batch env (b_records b) w = (Inr st, w1)"
    and "transient_attempts w \<le> 1024" and "1024 - transient_attempts w < length ticks"
  shows "\<not> registered (drain_rounds fuel ticks env w) \<and> dr_q (drain_rounds fuel ticks env w) = dr_q w"
  using assms(5,8,9)
proof (induction ticks arbitrary: w)
  case (Cons tick ticks)
  obtain due stale where t: "tick = (due, stale)" by (cases tick)
  obtain st w1 where p: "process_batch env (b_records b) w = (Inr st, w1)" using proc by blast
  have f: "transient_attempts w1 = transient_attempts w" "dr_q w1 = dr_q w" "dr_key w1 = dr_key w"
    using process_records_frame [OF p [unfolded process_batch_def]] by simp_all
  let ?w = "w1\<lparr>write_retries_total := write_retries_total w1 + 1, transient_attempts := transient_attempts w1 + 1\<rparr>"
  note rd = outage_round [OF flush(1,2) pass Cons.prems(1) read(2) p, of fuel due stale]
  show ?case
  proof (cases "transient_attempts w < 1024")
    case True
    have "\<not> registered (drain_rounds fuel ticks env ?w) \<and> dr_q (drain_rounds fuel ticks env ?w) = dr_q ?w"
      by (rule Cons.IH) (use Cons.prems f True in auto)
    with rd True f t show ?thesis by simp
  next
    case False
    have "\<not> registered (snd (on_drain_died env ?w)) \<and> dr_q (snd (on_drain_died env ?w)) = dr_q ?w"
      by (simp add: on_drain_died_def deregister_def safe_close_def op_simps) (simp add: modify_def)
    with rd False f t show ?thesis by simp
  qed
qed simp

end
