(* ===== verification/Leases.thy ===== *)
theory Leases
  imports Prelude "HOL-Library.Multiset"
begin

text \<open>
  The two admission schedulers.  \<^verbatim>\<open>Coordinator\<close> of \<^verbatim>\<open>blob_coordination.py\<close> hands out shared and exclusive
  leases on the blob files in arrival order; \<^verbatim>\<open>LiveFirstFlushGate\<close> of \<^verbatim>\<open>registry.py\<close> hands out flush permits
  and lets live writers go before recovery.  Each has the code's own counters as its state, one function per
  section the code runs under its condition variable, and a step relation in which any client may act at
  any time.
\<close>

section \<open>Coordinator\<close>

record coordinator =
  c_queue :: "(nat \<times> bool) list"
  c_readers :: nat
  c_writer :: bool

definition Coordinator :: coordinator where
  "Coordinator = \<lparr>c_queue = [], c_readers = 0, c_writer = False\<rparr>"

definition lease_enqueue :: "nat \<Rightarrow> bool \<Rightarrow> coordinator \<Rightarrow> coordinator" where
  "lease_enqueue token exclusive c = c\<lparr>c_queue := c_queue c @ [(token, exclusive)]\<rparr>"

text \<open>The loop over the queue up to the caller's own entry.\<close>

fun preceding_writer :: "nat \<Rightarrow> (nat \<times> bool) list \<Rightarrow> bool" where
  "preceding_writer token [] = False"
| "preceding_writer token ((queued, write) # q) =
    (if queued = token then False else write \<or> preceding_writer token q)"

definition admissible :: "nat \<Rightarrow> bool \<Rightarrow> coordinator \<Rightarrow> bool" where
  "admissible token exclusive c =
    (\<not> c_writer c \<and> \<not> preceding_writer token (c_queue c) \<and>
     (\<not> exclusive \<or> (c_queue c \<noteq> [] \<and> fst (hd (c_queue c)) = token \<and> c_readers c = 0)))"

definition lease_admit :: "nat \<Rightarrow> bool \<Rightarrow> coordinator \<Rightarrow> coordinator" where
  "lease_admit token exclusive c =
    (let c = c\<lparr>c_queue := remove1 (token, exclusive) (c_queue c)\<rparr>
     in if exclusive then c\<lparr>c_writer := True\<rparr> else c\<lparr>c_readers := c_readers c + 1\<rparr>)"

definition lease_withdraw :: "nat \<Rightarrow> bool \<Rightarrow> coordinator \<Rightarrow> coordinator" where
  "lease_withdraw token exclusive c = c\<lparr>c_queue := remove1 (token, exclusive) (c_queue c)\<rparr>"

definition lease_release :: "bool \<Rightarrow> coordinator \<Rightarrow> coordinator" where
  "lease_release exclusive c =
    (if exclusive then c\<lparr>c_writer := False\<rparr> else c\<lparr>c_readers := c_readers c - 1\<rparr>)"

text \<open>The coordinator with the leases that are out: a thread enters the queue, is admitted when it finds
  itself admissible, gives up while it waits, or leaves.\<close>

type_synonym lease_sys = "coordinator \<times> (nat \<times> bool) list"

inductive lease_step :: "lease_sys \<Rightarrow> lease_sys \<Rightarrow> bool" where
  arrive: "t \<notin> fst ` set (c_queue c @ held) \<Longrightarrow> lease_step (c, held) (lease_enqueue t x c, held)"
| admit: "(t, x) \<in> set (c_queue c) \<Longrightarrow> admissible t x c \<Longrightarrow>
    lease_step (c, held) (lease_admit t x c, (t, x) # held)"
| give_up: "(t, x) \<in> set (c_queue c) \<Longrightarrow> lease_step (c, held) (lease_withdraw t x c, held)"
| leave: "(t, x) \<in> set held \<Longrightarrow> lease_step (c, held) (lease_release x c, remove1 (t, x) held)"

inductive_cases lease_stepE: "lease_step (c, held) s"

definition lease_reachable :: "lease_sys \<Rightarrow> bool" where
  "lease_reachable s = lease_step\<^sup>*\<^sup>* (Coordinator, []) s"

text \<open>The counters agree with the leases that are out, no token is used twice, and a writer is alone.\<close>

definition lease_inv :: "lease_sys \<Rightarrow> bool" where
  "lease_inv s = (case s of (c, held) \<Rightarrow>
     distinct (map fst (c_queue c @ held)) \<and>
     c_readers c = length (filter (\<lambda>l. \<not> snd l) held) \<and>
     c_writer c = (\<exists>l\<in>set held. snd l) \<and>
     ((\<exists>l\<in>set held. snd l) \<longrightarrow> length held = 1))"

lemma length_filter_remove1:
  "x \<in> set xs \<Longrightarrow> length (filter P (remove1 x xs)) = length (filter P xs) - (if P x then 1 else 0)"
proof (induction xs)
  case (Cons a xs)
  then have "P x \<Longrightarrow> x \<in> set xs \<Longrightarrow> 0 < length (filter P xs)" by (auto simp: length_greater_0_conv filter_empty_conv)
  with Cons show ?case by (cases "a = x") auto
qed simp

lemma distinct_move:
  assumes "distinct (map fst (q @ held))" and "a \<in> set q"
  shows "distinct (map fst (remove1 a q @ a # held))"
proof -
  have "mset (map fst (remove1 a q @ a # held)) = mset (map fst (q @ held))"
    using assms(2) by (simp add: image_mset_Diff)
  with assms(1) show ?thesis using mset_eq_imp_distinct_iff by blast
qed

lemma fst_remove1: "fst ` set (remove1 a xs) \<subseteq> fst ` set xs"
  using set_remove1_subset [of a xs] by blast

lemma distinct_fst_remove1: "distinct (map fst xs) \<Longrightarrow> distinct (map fst (remove1 a xs))"
  using fst_remove1 [of a] by (induction xs) auto

lemma distinct_drop:
  assumes "distinct (map fst (q @ held))"
  shows "distinct (map fst (remove1 a q @ held))" and "distinct (map fst (q @ remove1 a held))"
proof -
  have "distinct (map fst q)" "distinct (map fst held)" "fst ` set q \<inter> fst ` set held = {}"
    using assms by simp_all
  with distinct_fst_remove1 fst_remove1 [of a q] fst_remove1 [of a held]
  have "distinct (map fst (remove1 a q))" "distinct (map fst (remove1 a held))"
    "fst ` set (remove1 a q) \<inter> fst ` set held = {}" "fst ` set q \<inter> fst ` set (remove1 a held) = {}"
    by blast+
  with assms show "distinct (map fst (remove1 a q @ held))" and "distinct (map fst (q @ remove1 a held))" by simp_all
qed

lemma writer_alone:
  assumes "lease_inv (c, held)" and "(t, True) \<in> set held"
  shows "held = [(t, True)]"
proof -
  have "\<exists>l\<in>set held. snd l" using assms(2) by (rule rev_bexI) simp
  then have "length held = 1" using assms(1) by (simp add: lease_inv_def)
  then obtain a where "held = [a]" by (auto simp: length_Suc_conv)
  with assms(2) show ?thesis by simp
qed

lemma reader_no_writer: "lease_inv (c, held) \<Longrightarrow> (t, False) \<in> set held \<Longrightarrow> \<not> (\<exists>l\<in>set held. snd l)"
  using writer_alone by fastforce

lemma lease_inv_step:
  assumes "lease_step s s'" and "lease_inv s"
  shows "lease_inv s'"
  using assms
proof (induction rule: lease_step.induct)
  case (arrive t c held x)
  then show ?case by (auto simp: lease_inv_def lease_enqueue_def image_iff)
next
  case (admit t x c held)
  have nw: "\<not> (\<exists>l\<in>set held. snd l)" using admit by (simp add: lease_inv_def admissible_def)
  have d: "distinct (map fst (remove1 (t, x) (c_queue c) @ (t, x) # held))"
    using admit by (intro distinct_move) (simp_all add: lease_inv_def)
  have "held = []" if x
    using admit that nw by (cases held) (auto simp: lease_inv_def admissible_def)
  with d nw admit(3) show ?case by (cases x) (simp_all add: lease_inv_def lease_admit_def Let_def)
next
  case (give_up t x c held)
  then show ?case using distinct_drop(1) [of "c_queue c" held "(t, x)"] by (simp add: lease_inv_def lease_withdraw_def)
next
  case (leave t x held c)
  have d: "distinct (map fst (c_queue c @ remove1 (t, x) held))"
    using leave distinct_drop(2) [of "c_queue c" held "(t, x)"] by (simp add: lease_inv_def)
  show ?case
  proof (cases x)
    case True
    then have "held = [(t, x)]" using leave writer_alone by simp
    with d leave True show ?thesis by (simp add: lease_inv_def lease_release_def)
  next
    case False
    then have "\<not> (\<exists>l\<in>set held. snd l)" using leave reader_no_writer by simp
    moreover from this have "\<not> (\<exists>l\<in>set (remove1 (t, x) held). snd l)" by (auto dest: set_remove1_subset [THEN subsetD])
    ultimately show ?thesis
      using d leave False length_filter_remove1 [OF leave(1), of "\<lambda>l. \<not> snd l"] by (simp add: lease_inv_def lease_release_def)
  qed
qed

lemma reachable_lease_inv: "lease_reachable s \<Longrightarrow> lease_inv s"
  unfolding lease_reachable_def
proof (induction rule: rtranclp_induct)
  case base
  show ?case by (simp add: lease_inv_def Coordinator_def)
qed (rule lease_inv_step)

subsection \<open>Order and progress\<close>


text \<open>Admissions and releases only: nobody new arrives and nobody gives up.\<close>

inductive lease_work :: "lease_sys \<Rightarrow> lease_sys \<Rightarrow> bool" where
  work_admit: "(t, x) \<in> set (c_queue c) \<Longrightarrow> admissible t x c \<Longrightarrow>
    lease_work (c, held) (lease_admit t x c, (t, x) # held)"
| work_leave: "(t, x) \<in> set held \<Longrightarrow> lease_work (c, held) (lease_release x c, remove1 (t, x) held)"

definition lease_measure :: "lease_sys \<Rightarrow> nat" where
  "lease_measure s = 2 * length (c_queue (fst s)) + length (snd s)"

lemma lease_work_step: "lease_work s s' \<Longrightarrow> lease_step s s'"
  by (induction rule: lease_work.induct) (auto intro: lease_step.intros)

lemma lease_work_measure: "lease_work s s' \<Longrightarrow> lease_measure s' < lease_measure s"
proof (induction rule: lease_work.induct)
  case (work_admit t x c held)
  have "0 < length (c_queue c)" using work_admit(1) by (rule length_pos_if_in_set)
  moreover have "length (c_queue (lease_admit t x c)) = length (c_queue c) - 1"
    using work_admit(1) by (cases x) (simp_all add: lease_admit_def length_remove1)
  ultimately show ?case unfolding lease_measure_def fst_conv snd_conv list.size by linarith
next
  case (work_leave t x held c)
  then have "0 < length held" by (rule length_pos_if_in_set)
  with work_leave show ?case by (cases x) (simp_all add: lease_measure_def lease_release_def length_remove1)
qed

lemma head_admissible: "lease_inv (c, []) \<Longrightarrow> c_queue c = (t, x) # q \<Longrightarrow> admissible t x c"
  by (simp add: lease_inv_def admissible_def)

lemma lease_stuck:
  assumes "lease_inv (c, held)" and "\<nexists>s'. lease_work (c, held) s'"
  shows "c_queue c = [] \<and> held = []"
proof -
  have h: "held = []"
  proof (rule ccontr)
    assume "held \<noteq> []"
    then obtain t x where "(t, x) \<in> set held" by (cases held) auto
    with assms(2) show False by (blast intro: work_leave)
  qed
  moreover have "c_queue c = []"
  proof (rule ccontr)
    assume "c_queue c \<noteq> []"
    then obtain t x q where q: "c_queue c = (t, x) # q" by (cases "c_queue c") auto
    have "lease_work (c, held) (lease_admit t x c, (t, x) # held)"
      by (rule work_admit) (use q head_admissible [of c t x q] assms(1) h in simp_all)
    with assms(2) show False by blast
  qed
  ultimately show ?thesis by simp
qed

lemma lease_work_run:
  "(lease_work ^^ n) s s' \<Longrightarrow> lease_inv s \<Longrightarrow> lease_inv s' \<and> n + lease_measure s' \<le> lease_measure s"
proof (induction n arbitrary: s')
  case (Suc n)
  then obtain s1 where "(lease_work ^^ n) s s1" "lease_work s1 s'" by auto
  with Suc.IH [of s1] Suc.prems(2) lease_inv_step [OF lease_work_step, of s1 s'] lease_work_measure [of s1 s']
  show ?case by auto
qed simp

section \<open>The live-first flush gate\<close>

record flush_gate =
  fg_capacity :: nat
  fg_active :: nat
  fg_live_waiters :: nat

definition LiveFirstFlushGate :: "nat \<Rightarrow> flush_gate" where
  "LiveFirstFlushGate capacity = \<lparr>fg_capacity = capacity, fg_active = 0, fg_live_waiters = 0\<rparr>"

definition gate_arrive :: "bool \<Rightarrow> flush_gate \<Rightarrow> flush_gate" where
  "gate_arrive recovery g = (if recovery then g else g\<lparr>fg_live_waiters := fg_live_waiters g + 1\<rparr>)"

definition gate_open :: "bool \<Rightarrow> flush_gate \<Rightarrow> bool" where
  "gate_open recovery g = (fg_active g < fg_capacity g \<and> (\<not> recovery \<or> fg_live_waiters g = 0))"

text \<open>The \<^verbatim>\<open>finally\<close> clause, run on admission and on cancellation of the wait.\<close>

definition gate_unwait :: "bool \<Rightarrow> flush_gate \<Rightarrow> flush_gate" where
  "gate_unwait recovery g = (if recovery then g else g\<lparr>fg_live_waiters := fg_live_waiters g - 1\<rparr>)"

definition gate_admit :: "bool \<Rightarrow> flush_gate \<Rightarrow> flush_gate" where
  "gate_admit recovery g = gate_unwait recovery (g\<lparr>fg_active := fg_active g + 1\<rparr>)"

definition gate_release :: "flush_gate \<Rightarrow> flush_gate" where
  "gate_release g = g\<lparr>fg_active := fg_active g - 1\<rparr>"

text \<open>The gate with the kinds of the waiting and of the admitted drainers.\<close>

record gate_sys =
  gs_gate :: flush_gate
  gs_waiting :: "bool multiset"
  gs_inside :: "bool multiset"

inductive gate_step :: "gate_sys \<Rightarrow> gate_sys \<Rightarrow> bool" where
  gate_enter: "gate_step s (s\<lparr>gs_gate := gate_arrive r (gs_gate s), gs_waiting := add_mset r (gs_waiting s)\<rparr>)"
| gate_pass: "r \<in># gs_waiting s \<Longrightarrow> gate_open r (gs_gate s) \<Longrightarrow>
    gate_step s (s\<lparr>gs_gate := gate_admit r (gs_gate s), gs_waiting := gs_waiting s - {#r#},
      gs_inside := add_mset r (gs_inside s)\<rparr>)"
| gate_cancel: "r \<in># gs_waiting s \<Longrightarrow>
    gate_step s (s\<lparr>gs_gate := gate_unwait r (gs_gate s), gs_waiting := gs_waiting s - {#r#}\<rparr>)"
| gate_leave: "r \<in># gs_inside s \<Longrightarrow>
    gate_step s (s\<lparr>gs_gate := gate_release (gs_gate s), gs_inside := gs_inside s - {#r#}\<rparr>)"

definition gate_start :: "nat \<Rightarrow> gate_sys" where
  "gate_start n = \<lparr>gs_gate = LiveFirstFlushGate n, gs_waiting = {#}, gs_inside = {#}\<rparr>"

definition gate_inv :: "nat \<Rightarrow> gate_sys \<Rightarrow> bool" where
  "gate_inv n s = (fg_capacity (gs_gate s) = n \<and> fg_active (gs_gate s) = size (gs_inside s) \<and>
     fg_live_waiters (gs_gate s) = count (gs_waiting s) False \<and> size (gs_inside s) \<le> n)"

lemmas gate_defs = gate_arrive_def gate_open_def gate_unwait_def gate_admit_def gate_release_def LiveFirstFlushGate_def

lemma gate_inv_step: "gate_step s s' \<Longrightarrow> gate_inv n s \<Longrightarrow> gate_inv n s'"
proof (induction rule: gate_step.induct)
  case (gate_pass r s)
  then show ?case by (cases r) (auto simp: gate_inv_def gate_defs)
next
  case (gate_leave r s)
  then show ?case by (auto simp: gate_inv_def gate_defs size_Diff_singleton)
qed (auto simp: gate_inv_def gate_defs)

lemma gate_reachable_inv: "gate_step\<^sup>*\<^sup>* (gate_start n) s \<Longrightarrow> gate_inv n s"
proof (induction rule: rtranclp_induct)
  case base
  show ?case by (simp add: gate_inv_def gate_start_def gate_defs)
qed (rule gate_inv_step)

section \<open>Properties\<close>


text \<open>
  C28 [lease_all_served]: no request waits for ever.  From any reachable state, once nobody arrives or gives up,
  admissions and releases go on for at most twice the queue plus the leases out, in any order, and they can only
  stop when the queue is empty and every lease has been returned.
\<close>

theorem lease_all_served:
  assumes "lease_reachable s" and "(lease_work ^^ n) s s'"
  shows "n \<le> 2 * length (c_queue (fst s)) + length (snd s) \<and>
    (c_queue (fst s') = [] \<and> snd s' = [] \<or> (\<exists>s''. lease_work s' s''))"
proof -
  have r: "lease_inv s' \<and> n + lease_measure s' \<le> lease_measure s"
    by (rule lease_work_run [OF assms(2) reachable_lease_inv [OF assms(1)]])
  then have "n \<le> 2 * length (c_queue (fst s)) + length (snd s)" by (simp add: lease_measure_def)
  moreover have "c_queue (fst s') = [] \<and> snd s' = [] \<or> (\<exists>s''. lease_work s' s'')"
    using lease_stuck [of "fst s'" "snd s'"] r by auto
  ultimately show ?thesis by simp
qed

text \<open>
  C29 [gate_live_first]: the flush gate never lets more drainers inside than its capacity, never admits a recovery
  drainer while a live one waits, and is never stuck: while there is room, a waiting drainer can be admitted, and
  a live one whenever one waits.
\<close>

theorem gate_live_first:
  assumes "gate_step\<^sup>*\<^sup>* (gate_start n) s"
  shows "size (gs_inside s) \<le> n \<and>
    (gate_open True (gs_gate s) \<longrightarrow> False \<notin># gs_waiting s) \<and>
    (size (gs_inside s) < n \<and> gs_waiting s \<noteq> {#} \<longrightarrow> (\<exists>r\<in>#gs_waiting s. gate_open r (gs_gate s))) \<and>
    (size (gs_inside s) < n \<longrightarrow> gate_open False (gs_gate s))"
proof -
  have inv: "gate_inv n s" using assms by (rule gate_reachable_inv)
  then have open_live: "size (gs_inside s) < n \<longrightarrow> gate_open False (gs_gate s)" by (simp add: gate_inv_def gate_open_def)
  have room: "\<exists>r\<in>#gs_waiting s. gate_open r (gs_gate s)" if w: "size (gs_inside s) < n" "gs_waiting s \<noteq> {#}"
  proof (cases "False \<in># gs_waiting s")
    case True
    with open_live w show ?thesis by blast
  next
    case False
    with w(2) have "True \<in># gs_waiting s" by (metis (full_types) multiset_nonemptyE)
    moreover have "gate_open True (gs_gate s)"
      using inv w False by (simp add: gate_inv_def gate_open_def not_in_iff)
    ultimately show ?thesis by blast
  qed
  moreover have "gate_open True (gs_gate s) \<longrightarrow> False \<notin># gs_waiting s"
    using inv by (simp add: gate_inv_def gate_open_def not_in_iff)
  ultimately show ?thesis using open_live inv by (auto simp: gate_inv_def)
qed

section \<open>Witnesses\<close>

text \<open>A writer and a reader queue up and the writer is admitted.\<close>

definition sample_lease :: lease_sys where
  "sample_lease = (lease_admit 1 True (lease_enqueue 2 False (lease_enqueue 1 True Coordinator)), [(1, True)])"

lemma sample_lease_reachable: "lease_reachable sample_lease"
proof -
  have "lease_step (Coordinator, []) (lease_enqueue 1 True Coordinator, [])"
    by (rule arrive) (simp add: Coordinator_def)
  moreover have "lease_step (lease_enqueue 1 True Coordinator, []) (lease_enqueue 2 False (lease_enqueue 1 True Coordinator), [])"
    by (rule arrive) (simp add: Coordinator_def lease_enqueue_def)
  moreover have "lease_step (lease_enqueue 2 False (lease_enqueue 1 True Coordinator), []) sample_lease"
    unfolding sample_lease_def
    by (rule admit) (simp_all add: Coordinator_def lease_enqueue_def admissible_def)
  ultimately show ?thesis unfolding lease_reachable_def by (meson converse_rtranclp_into_rtranclp rtranclp.rtrancl_refl)
qed


theorem lease_all_served_witness: "\<exists>s. lease_work sample_lease s"
  using lease_all_served [OF sample_lease_reachable, of 0 sample_lease] by (simp add: sample_lease_def)

theorem gate_live_first_witness: "gate_open False (gs_gate (gate_start 1))"
  using gate_live_first [of 1 "gate_start 1"] by (simp add: gate_start_def)

end
