(* ===== verification/BlobKeys.thy ===== *)
theory BlobKeys
  imports Utils Files
begin

text \<open>
  \<^verbatim>\<open>blob_keys.py\<close>: the map between the logical name of a blob, its address, its URI and its file name.
  Building an address validates it, so every construction may raise.  \<^verbatim>\<open>sha\<close> is the SHA-256 hex digest.
  The platform is POSIX: a backslash is an ordinary byte of a file name.
\<close>

definition BLOB_LOCK :: str where
  "BLOB_LOCK = ''.ci-blob-retention.lock''"

definition BLOB_METADATA :: str where
  "BLOB_METADATA = ''.ci-blob-retention''"

definition MAPPED_MARKER :: str where
  "MAPPED_MARKER = ''~ci-key-v1''"

definition BLOB_SCHEME :: str where
  "BLOB_SCHEME = ''ci-blob://''"

definition DIGEST_DOMAIN :: str where
  "DIGEST_DOMAIN = ''ci-blob-event-key:v1'' @ [CHR 0x00]"

definition MAX_SESSION_BYTES :: int where
  "MAX_SESSION_BYTES = 255"

definition MAX_BLOB_KEY_BYTES :: int where
  "MAX_BLOB_KEY_BYTES = 242"

definition MAX_PHYSICAL_KEY_BYTES :: nat where
  "MAX_PHYSICAL_KEY_BYTES = 250"

definition component :: "str \<Rightarrow> str res" where
  "component value =
    (if value = [] \<or> value \<in> {''.'', ''..'', BLOB_LOCK, BLOB_METADATA} \<or>
        CHR ''/'' \<in> set value \<or> CHR 0x5C \<in> set value \<or>
        list_ex (\<lambda>c. of_char c < (32::nat) \<or> of_char c = (127::nat)) value
     then Inl ValueError else Inr value)"

definition legacy_backslash_supported :: bool where
  "legacy_backslash_supported = True"

definition ordinary_stem :: "str \<Rightarrow> str res" where
  "ordinary_stem value =
    (if CHR 0x5C \<in> set value \<and> legacy_backslash_supported
     then bind_res (component (replace_char (CHR 0x5C) (CHR ''_'') value)) (\<lambda>_. Inr value)
     else component value)"

definition hex64 :: "str \<Rightarrow> bool" where
  "hex64 s = (length s = 64 \<and> list_all hex_digit s)"

section \<open>Addresses\<close>

record blob_address =
  ba_session :: str
  ba_name :: str
  ba_mapped :: bool

definition BlobAddress :: "str \<Rightarrow> str \<Rightarrow> bool \<Rightarrow> blob_address res" where
  "BlobAddress session name mapped =
    bind_res (component session) (\<lambda>_.
    bind_res (if mapped then (if hex64 name then Inr name else Inl ValueError) else ordinary_stem name) (\<lambda>_.
    Inr \<lparr>ba_session = session, ba_name = name, ba_mapped = mapped\<rparr>))"

definition blob_uri :: "blob_address \<Rightarrow> str" where
  "blob_uri a =
    (if ba_mapped a then BLOB_SCHEME @ ba_session a @ ''/'' @ MAPPED_MARKER @ ''/'' @ ba_name a
     else BLOB_SCHEME @ ba_session a @ ''/'' @ ba_name a)"

definition blob_stem :: "blob_address \<Rightarrow> str" where
  "blob_stem a = (if ba_mapped a then MAPPED_MARKER @ ''~'' @ ba_name a else ba_name a)"

definition blob_filename :: "blob_address \<Rightarrow> str" where
  "blob_filename a = (if ba_mapped a then blob_stem a @ ''.blob'' else blob_stem a @ ''.json'')"

definition mapped_address :: "(str \<Rightarrow> str) \<Rightarrow> str \<Rightarrow> str \<Rightarrow> blob_address res" where
  "mapped_address sha session logical_name = BlobAddress session (sha (DIGEST_DOMAIN @ logical_name)) True"

definition fold_blob_session :: "(str \<Rightarrow> str) \<Rightarrow> str \<Rightarrow> str res" where
  "fold_blob_session sha session_id =
    bind_res (component session_id) (\<lambda>s. Inr (fold_name sha s MAX_SESSION_BYTES))"

definition reserved_name :: "str \<Rightarrow> bool" where
  "reserved_name n = (n \<in> {[], ''.'', ''..'', BLOB_LOCK, BLOB_METADATA})"

definition write_address :: "(str \<Rightarrow> str) \<Rightarrow> str \<Rightarrow> str \<Rightarrow> blob_address res" where
  "write_address sha session_id logical_name =
    bind_res (fold_blob_session sha session_id) (\<lambda>session.
    if reserved_name logical_name then Inl ValueError
    else case component logical_name of
      Inl _ \<Rightarrow> mapped_address sha session logical_name
    | Inr _ \<Rightarrow> BlobAddress session (fold_name sha logical_name MAX_BLOB_KEY_BYTES) False)"

fun split_slash :: "str \<Rightarrow> str list" where
  "split_slash [] = [[]]"
| "split_slash (c # cs) =
    (if c = CHR ''/'' then [] # split_slash cs
     else case split_slash cs of [] \<Rightarrow> [[c]] | p # ps \<Rightarrow> (c # p) # ps)"

definition exact_address :: "str \<Rightarrow> blob_address res" where
  "exact_address uri =
    (if \<not> starts_with BLOB_SCHEME uri then Inl ValueError
     else case split_slash (drop (length BLOB_SCHEME) uri) of
       [s, n] \<Rightarrow> BlobAddress s n False
     | [s, m, n] \<Rightarrow> if m = MAPPED_MARKER then BlobAddress s n True else Inl ValueError
     | _ \<Rightarrow> Inl ValueError)"

definition parse_address :: "(str \<Rightarrow> str) \<Rightarrow> str \<Rightarrow> blob_address res" where
  "parse_address sha uri =
    bind_res (exact_address uri) (\<lambda>a.
    let session = fold_name sha (ba_session a) MAX_SESSION_BYTES in
    if ba_mapped a then BlobAddress session (ba_name a) True
    else BlobAddress session (fold_name sha (ba_name a) MAX_BLOB_KEY_BYTES) False)"

definition blob_handle :: "blob_address \<Rightarrow> str" where
  "blob_handle a = (if ba_mapped a then MAPPED_MARKER @ ''/'' @ ba_name a else ba_name a)"

definition parse_blob_uri :: "str \<Rightarrow> (str \<times> str) res" where
  "parse_blob_uri uri = bind_res (exact_address uri) (\<lambda>a. Inr (ba_session a, blob_handle a))"

definition address_from_filename :: "str \<Rightarrow> str \<Rightarrow> blob_address option res" where
  "address_from_filename session filename =
    (if ends_with ''.json'' filename
     then bind_res (BlobAddress session (take (length filename - 5) filename) False) (\<lambda>a. Inr (Some a))
     else let pre = MAPPED_MARKER @ ''~''; digest = take 64 (drop (length pre) filename) in
       if filename = pre @ digest @ ''.blob'' \<and> hex64 digest
       then bind_res (BlobAddress session digest True) (\<lambda>a. Inr (Some a))
       else Inr None)"

fun add_candidates :: "str \<Rightarrow> str list \<Rightarrow> blob_address list \<Rightarrow> blob_address list" where
  "add_candidates session [] acc = acc"
| "add_candidates session (stem # stems) acc =
    (case BlobAddress session stem False of
       Inl _ \<Rightarrow> add_candidates session stems acc
     | Inr a \<Rightarrow> add_candidates session stems (if a \<in> set acc then acc else acc @ [a]))"

definition legacy_addresses :: "(str \<Rightarrow> str) \<Rightarrow> str \<Rightarrow> str \<Rightarrow> blob_address list res" where
  "legacy_addresses sha session_id logical_name =
    bind_res (fold_blob_session sha session_id) (\<lambda>session.
    if reserved_name logical_name then Inr []
    else Inr (add_candidates session
      ((if length logical_name \<le> MAX_PHYSICAL_KEY_BYTES then [logical_name] else []) @
       [fold_name sha logical_name MAX_BLOB_KEY_BYTES]) []))"

definition legacy_address :: "(str \<Rightarrow> str) \<Rightarrow> str \<Rightarrow> str \<Rightarrow> blob_address option res" where
  "legacy_address sha session_id logical_name =
    bind_res (legacy_addresses sha session_id logical_name) (\<lambda>as.
    Inr (case as of [] \<Rightarrow> None | a # _ \<Rightarrow> Some a))"

text \<open>\<^verbatim>\<open>tuple(dict.fromkeys(...))\<close>\<close>

fun first_of_each :: "'a list \<Rightarrow> 'a list" where
  "first_of_each [] = []"
| "first_of_each (x # xs) = x # filter (\<lambda>y. y \<noteq> x) (first_of_each xs)"

definition read_candidates :: "(str \<Rightarrow> str) \<Rightarrow> str \<Rightarrow> blob_address list res" where
  "read_candidates sha uri =
    bind_res (exact_address uri) (\<lambda>a.
    if ba_mapped a then bind_res (parse_address sha uri) (\<lambda>p. Inr [p])
    else bind_res (write_address sha (ba_session a) (ba_name a)) (\<lambda>canonical.
      bind_res (legacy_addresses sha (ba_session a) (ba_name a)) (\<lambda>legacy.
      Inr (first_of_each (legacy @ [canonical])))))"

section \<open>Components and folding\<close>

lemma component_Inr: "component v = Inr w \<Longrightarrow> w = v"
  by (auto simp: component_def split: if_splits)

lemma component_no_slash: "component v = Inr w \<Longrightarrow> CHR ''/'' \<notin> set v \<and> CHR 0x5C \<notin> set v \<and> v \<noteq> []"
  by (auto simp: component_def split: if_splits)

lemma ordinary_no_slash: "ordinary_stem v = Inr w \<Longrightarrow> CHR ''/'' \<notin> set v \<and> v \<noteq> []"
  by (auto simp: ordinary_stem_def bind_res_Inr_iff component_def replace_char_def split: if_splits)

lemma hex_no_slash: "hex64 s \<Longrightarrow> CHR ''/'' \<notin> set s \<and> s \<noteq> []"
proof -
  assume h: "hex64 s"
  have "\<not> hex_digit (CHR ''/'')" by (simp add: hex_digit_def)
  with h show ?thesis by (auto simp: hex64_def list_all_iff)
qed

text \<open>A folded component is a component.\<close>

definition plain_char :: "char \<Rightarrow> bool" where
  "plain_char c = (c \<noteq> CHR ''/'' \<and> c \<noteq> CHR 0x5C \<and> \<not> (of_char c < (32::nat) \<or> of_char c = (127::nat)))"

lemma component_iff:
  "component v = Inr v \<longleftrightarrow> \<not> reserved_name v \<and> list_all plain_char v"
  by (auto simp: component_def reserved_name_def plain_char_def list_all_iff list_ex_iff)

lemma reserved_no_tilde: "CHR ''~'' \<in> set v \<Longrightarrow> \<not> reserved_name v"
  by (auto simp: reserved_name_def BLOB_LOCK_def BLOB_METADATA_def)

lemma plain_hex: "hex_digit c \<Longrightarrow> plain_char c"
  by (auto simp: hex_digit_def plain_char_def)

lemma plain_replace: "list_all plain_char v \<Longrightarrow> plain_char b \<Longrightarrow> list_all plain_char (replace_char a b v)"
  by (auto simp: list_all_iff replace_char_def)

lemma plain_scrub: "list_all plain_char v \<Longrightarrow> list_all plain_char (scrub v)"
  unfolding scrub_def by (intro plain_replace) (simp_all add: plain_char_def)

lemma component_fold:
  assumes "hexdigest_ok sha" and "component v = Inr v"
  shows "component (fold_name sha v n) = Inr (fold_name sha v n)"
proof (cases "int (length v) \<le> n")
  case True
  with assms(2) show ?thesis by (simp add: fold_name_short)
next
  case False
  have pv: "list_all plain_char v" using assms(2) by (simp add: component_iff)
  have "list_all plain_char (slice_to (n - 17) v)"
    using pv by (auto simp: slice_to_def list_all_iff dest: in_set_takeD)
  moreover obtain r where "slice_to (n - 17) v = decode_prefix (slice_to (n - 17) v) @ r"
    using decode_prefix_prefix by blast
  ultimately have "list_all plain_char (decode_prefix (slice_to (n - 17) v))" by (metis list_all_append)
  then have "list_all plain_char (scrub (decode_prefix (slice_to (n - 17) v)))" by (rule plain_scrub)
  moreover have "list_all plain_char (take 16 (sha v))"
    using digest_props(2) [OF assms(1), of v] plain_hex by (auto simp: list_all_iff)
  moreover have "plain_char (CHR ''~'')" by (simp add: plain_char_def)
  ultimately have "list_all plain_char (fold_name sha v n)" using False assms(1) by (simp add: fold_name_long)
  moreover have "CHR ''~'' \<in> set (fold_name sha v n)" using False assms(1) by (simp add: fold_name_long)
  ultimately show ?thesis by (simp add: component_iff reserved_no_tilde)
qed

lemma fold_name_again:
  assumes "hexdigest_ok sha" and "17 \<le> n"
  shows "fold_name sha (fold_name sha v n) n = fold_name sha v n"
  using length_fold_name [OF assms(2,1)] by (rule fold_name_short)


section \<open>Addresses, URIs and file names\<close>

lemma BlobAddress_Inr:
  assumes "BlobAddress s n m = Inr a"
  shows "a = \<lparr>ba_session = s, ba_name = n, ba_mapped = m\<rparr>" and "component s = Inr s"
    and "m \<Longrightarrow> hex64 n" and "\<not> m \<Longrightarrow> ordinary_stem n = Inr n"
proof -
  obtain s' n' where c: "component s = Inr s'" and n: "(if m then (if hex64 n then Inr n else Inl ValueError) else ordinary_stem n) = Inr n'"
    and a: "a = \<lparr>ba_session = s, ba_name = n, ba_mapped = m\<rparr>"
    using assms by (auto simp: BlobAddress_def bind_res_Inr_iff)
  show "a = \<lparr>ba_session = s, ba_name = n, ba_mapped = m\<rparr>" by (rule a)
  show "component s = Inr s" using c component_Inr by blast
  show "m \<Longrightarrow> hex64 n" using n by (auto split: if_splits)
  have "ordinary_stem n = Inr x \<Longrightarrow> x = n" for x
    using component_Inr by (auto simp: ordinary_stem_def bind_res_Inr_iff split: if_splits)
  then show "\<not> m \<Longrightarrow> ordinary_stem n = Inr n" using n by auto
qed

lemma BlobAddress_same: "BlobAddress s n m = Inr a \<Longrightarrow> BlobAddress (ba_session a) (ba_name a) (ba_mapped a) = Inr a"
  using BlobAddress_Inr(1) [of s n m a] by simp

lemma split_slash_ne: "split_slash s \<noteq> []"
  by (induction s) (auto split: list.splits)

lemma split_slash_part: "CHR ''/'' \<notin> set s \<Longrightarrow> split_slash (s @ CHR ''/'' # r) = s # split_slash r"
  by (induction s) auto

lemma split_slash_last: "CHR ''/'' \<notin> set s \<Longrightarrow> split_slash s = [s]"
  by (induction s) auto

lemma exact_address_uri:
  assumes "BlobAddress s n m = Inr a"
  shows "exact_address (blob_uri a) = Inr a"
proof -
  note b = BlobAddress_Inr [OF assms]
  have s: "CHR ''/'' \<notin> set s" using component_no_slash [OF b(2)] by simp
  show ?thesis
  proof (cases m)
    case True
    have n: "CHR ''/'' \<notin> set n" using hex_no_slash b(3) True by blast
    have mk: "CHR ''/'' \<notin> set MAPPED_MARKER" by (simp add: MAPPED_MARKER_def)
    have "split_slash (s @ CHR ''/'' # MAPPED_MARKER @ CHR ''/'' # n) = [s, MAPPED_MARKER, n]"
      by (simp add: split_slash_part s mk split_slash_last n)
    with True assms show ?thesis
      by (simp add: exact_address_def blob_uri_def b(1) starts_with_def)
  next
    case False
    have n: "CHR ''/'' \<notin> set n" using ordinary_no_slash b(4) False by blast
    have "split_slash (s @ CHR ''/'' # n) = [s, n]" by (simp add: split_slash_part s split_slash_last n)
    with False assms show ?thesis
      by (simp add: exact_address_def blob_uri_def b(1) starts_with_def)
  qed
qed

lemma address_from_filename_own:
  assumes "BlobAddress s n m = Inr a"
  shows "address_from_filename s (blob_filename a) = Inr (Some a)"
proof (cases m)
  case False
  with assms BlobAddress_Inr(1) [OF assms] show ?thesis
    by (simp add: address_from_filename_def blob_filename_def blob_stem_def ends_with_def res_simps)
next
  case True
  have h: "hex64 n" using BlobAddress_Inr(3) [OF assms True] .
  have a: "a = \<lparr>ba_session = s, ba_name = n, ba_mapped = True\<rparr>" using BlobAddress_Inr(1) [OF assms] True by simp
  have "\<not> ends_with ''.json'' (x @ ''.blob'')" for x :: str by (simp add: ends_with_def)
  moreover have "blob_filename a = (MAPPED_MARKER @ ''~'' @ n) @ ''.blob''"
    by (simp add: a blob_filename_def blob_stem_def)
  ultimately have e: "\<not> ends_with ''.json'' (blob_filename a)" by metis
  have d: "take 64 (drop (length (MAPPED_MARKER @ ''~'')) (blob_filename a)) = n"
    using h by (simp add: a blob_filename_def blob_stem_def hex64_def)
  show ?thesis
    using e d h assms True
    by (simp add: address_from_filename_def Let_def res_simps) (simp add: a blob_filename_def blob_stem_def)
qed

text \<open>Names the store itself writes: already folded, so folding them again changes nothing.\<close>

lemma write_address_stable:
  assumes sha: "hexdigest_ok sha" and w: "write_address sha sid key = Inr a"
  shows "BlobAddress (ba_session a) (ba_name a) (ba_mapped a) = Inr a"
    and "component (ba_session a) = Inr (ba_session a)"
    and "fold_name sha (ba_session a) MAX_SESSION_BYTES = ba_session a" and "length (ba_session a) \<le> 255"
    and "ba_mapped a \<Longrightarrow> hex64 (ba_name a)"
    and "\<not> ba_mapped a \<Longrightarrow> component (ba_name a) = Inr (ba_name a) \<and> length (ba_name a) \<le> 242 \<and>
      fold_name sha (ba_name a) MAX_BLOB_KEY_BYTES = ba_name a"
proof -
  have budget: "17 \<le> MAX_SESSION_BYTES" "17 \<le> MAX_BLOB_KEY_BYTES"
    by (simp_all add: MAX_SESSION_BYTES_def MAX_BLOB_KEY_BYTES_def)
  obtain session where f: "fold_blob_session sha sid = Inr session" and nr: "\<not> reserved_name key"
    and c: "(case component key of Inl _ \<Rightarrow> mapped_address sha session key
        | Inr _ \<Rightarrow> BlobAddress session (fold_name sha key MAX_BLOB_KEY_BYTES) False) = Inr a"
    using w by (auto simp: write_address_def bind_res_Inr_iff split: if_splits)
  have s: "component sid = Inr sid" "session = fold_name sha sid MAX_SESSION_BYTES"
    using f component_Inr by (auto simp: fold_blob_session_def bind_res_Inr_iff)
  obtain n m where b: "BlobAddress session n m = Inr a"
    and n: "\<not> m \<Longrightarrow> component key = Inr key \<and> n = fold_name sha key MAX_BLOB_KEY_BYTES"
    using c component_Inr by (auto simp: mapped_address_def split: sum.splits)
  note ba = BlobAddress_Inr [OF b]
  show "BlobAddress (ba_session a) (ba_name a) (ba_mapped a) = Inr a" by (rule BlobAddress_same [OF b])
  show "component (ba_session a) = Inr (ba_session a)" using ba(1,2) by simp
  show "fold_name sha (ba_session a) MAX_SESSION_BYTES = ba_session a"
    using fold_name_again [OF sha budget(1)] ba(1) s(2) by simp
  show "length (ba_session a) \<le> 255"
    using length_fold_name [OF budget(1) sha, of sid] ba(1) s(2) by (simp add: MAX_SESSION_BYTES_def)
  show "ba_mapped a \<Longrightarrow> hex64 (ba_name a)" using ba(1,3) by simp
  show "\<not> ba_mapped a \<Longrightarrow> component (ba_name a) = Inr (ba_name a) \<and> length (ba_name a) \<le> 242 \<and>
      fold_name sha (ba_name a) MAX_BLOB_KEY_BYTES = ba_name a"
    using n ba(1) component_fold [OF sha] fold_name_again [OF sha budget(2)] length_fold_name [OF budget(2) sha, of key]
    by (simp add: MAX_BLOB_KEY_BYTES_def)
qed

text \<open>A name the store wrote has exactly one candidate to read from: itself.\<close>

lemma read_candidates_own:
  assumes sha: "hexdigest_ok sha" and w: "write_address sha sid key = Inr a"
  shows "read_candidates sha (blob_uri a) = Inr [a]"
proof -
  note st = write_address_stable [OF sha w]
  have e: "exact_address (blob_uri a) = Inr a" by (rule exact_address_uri [OF st(1)])
  show ?thesis
  proof (cases "ba_mapped a")
    case True
    have "parse_address sha (blob_uri a) = Inr a"
      using e True st(1,3) by (simp add: parse_address_def res_simps Let_def)
    with e True show ?thesis by (simp add: read_candidates_def res_simps)
  next
    case False
    have c: "component (ba_name a) = Inr (ba_name a)" "length (ba_name a) \<le> 242"
      "fold_name sha (ba_name a) MAX_BLOB_KEY_BYTES = ba_name a" using st(6) [OF False] by simp_all
    have f: "fold_blob_session sha (ba_session a) = Inr (ba_session a)"
      using st(2,3) by (simp add: fold_blob_session_def res_simps)
    have nr: "\<not> reserved_name (ba_name a)" using c(1) by (simp add: component_iff)
    have b: "BlobAddress (ba_session a) (ba_name a) False = Inr a" using st(1) False by simp
    have "write_address sha (ba_session a) (ba_name a) = Inr a"
      using f nr c b by (simp add: write_address_def res_simps)
    moreover have "legacy_addresses sha (ba_session a) (ba_name a) = Inr [a]"
      using f nr c b by (simp add: legacy_addresses_def res_simps MAX_PHYSICAL_KEY_BYTES_def)
    ultimately show ?thesis using e False by (simp add: read_candidates_def res_simps)
  qed
qed

section \<open>Properties\<close>

text \<open>
  C30 [blob_uri_roundtrip]: an address is recovered from its URI and from its file name.  For every valid
  address, parsing its URI without folding gives it back, and so does recognising its file name in its session's
  directory; hence two addresses with the same URI, or two of one session with the same file name, are equal, and
  mapped names never meet ordinary ones.
\<close>

theorem blob_uri_roundtrip:
  assumes "BlobAddress s n m = Inr a" and "BlobAddress s' n' m' = Inr b"
  shows "exact_address (blob_uri a) = Inr a \<and> address_from_filename s (blob_filename a) = Inr (Some a) \<and>
    (blob_uri a = blob_uri b \<longrightarrow> a = b) \<and> (s = s' \<and> blob_filename a = blob_filename b \<longrightarrow> a = b)"
proof -
  note e = exact_address_uri [OF assms(1)] exact_address_uri [OF assms(2)]
    and f = address_from_filename_own [OF assms(1)] address_from_filename_own [OF assms(2)]
  have "a = b" if "blob_uri a = blob_uri b" using e unfolding that by simp
  moreover have "a = b" if "s = s'" "blob_filename a = blob_filename b" using f unfolding that by simp
  ultimately show ?thesis using e(1) f(1) by (intro conjI impI) (assumption | elim conjE)+
qed

theorem blob_uri_roundtrip_witness:
  "exact_address ''ci-blob://s/k'' = Inr \<lparr>ba_session = ''s'', ba_name = ''k'', ba_mapped = False\<rparr>"
proof -
  have b: "BlobAddress ''s'' ''k'' False = Inr \<lparr>ba_session = ''s'', ba_name = ''k'', ba_mapped = False\<rparr>"
    by (simp add: BlobAddress_def component_def ordinary_stem_def res_simps BLOB_LOCK_def BLOB_METADATA_def)
  from blob_uri_roundtrip [OF b b] show ?thesis by (simp add: blob_uri_def BLOB_SCHEME_def)
qed

text \<open>
  C31 [blob_name_bounds]: whatever the logical name, even one with separators, control characters or thousands of
  bytes, the directory, the file name and the temporary file name of the address a write uses fit the 255 byte
  limit of the file system, and neither contains a path separator.
\<close>

theorem blob_name_bounds:
  assumes "hexdigest_ok sha" and "write_address sha sid key = Inr a"
  shows "length (ba_session a) \<le> 255 \<and> length (blob_filename a) \<le> 255 \<and>
    (\<forall>tok. length tok = 8 \<longrightarrow> length (blob_stem a @ ''.'' @ tok @ ''.tmp'') \<le> 255) \<and>
    CHR ''/'' \<notin> set (ba_session a) \<and> CHR ''/'' \<notin> set (blob_filename a)"
proof (cases "ba_mapped a")
  case True
  note st = write_address_stable [OF assms]
  have "length (ba_name a) = 64" using st(5) [OF True] by (simp add: hex64_def)
  with True st(4) component_no_slash [OF st(2)] hex_no_slash [OF st(5) [OF True]] show ?thesis
    by (simp add: blob_filename_def blob_stem_def MAPPED_MARKER_def)
next
  case False
  note st = write_address_stable [OF assms]
  have c: "component (ba_name a) = Inr (ba_name a)" "length (ba_name a) \<le> 242" using st(6) [OF False] by simp_all
  with False st(4) component_no_slash [OF st(2)] component_no_slash [OF c(1)] show ?thesis
    by (simp add: blob_filename_def blob_stem_def)
qed

lemma sample_sha: "hexdigest_ok (\<lambda>_. replicate 64 (CHR ''0''))"
  by (simp add: hexdigest_ok_def list_all_iff hex_digit_def)

theorem blob_name_bounds_witness:
  "length (blob_filename \<lparr>ba_session = ''s'', ba_name = ''k'', ba_mapped = False\<rparr>) \<le> 255"
proof -
  have "write_address (\<lambda>_. replicate 64 (CHR ''0'')) ''s'' ''k'' = Inr \<lparr>ba_session = ''s'', ba_name = ''k'', ba_mapped = False\<rparr>"
    by (simp add: write_address_def fold_blob_session_def component_def fold_name_def MAX_SESSION_BYTES_def
        MAX_BLOB_KEY_BYTES_def reserved_name_def BlobAddress_def ordinary_stem_def res_simps BLOB_LOCK_def BLOB_METADATA_def)
  from blob_name_bounds [OF sample_sha this] show ?thesis by simp
qed

end
