(* ===== verification/Blobs.thy ===== *)
theory Blobs
  imports BlobKeys
begin

text \<open>
  The blob files and their retention: \<^verbatim>\<open>AsyncDiskBlobStore\<close> of \<^verbatim>\<open>blob_store.py\<close> and the age based pruning of
  \<^verbatim>\<open>blob_retention.py\<close>, over one state: the session directories under the blob root and the expiry ledger,
  which is the table \<^verbatim>\<open>expiry\<close> of the SQLite file.  Every operation below runs while its caller holds the root
  lock, so the identity checks of \<^verbatim>\<open>Root.check\<close>, which only raise when somebody else replaces a directory under
  the operation, pass.  JSON coding, digests, clock readings, the file attributes the system assigns and its
  failures are parameters.
\<close>

section \<open>The blob root\<close>

text \<open>\<^verbatim>\<open>fingerprint\<close>: device, inode, size, modification and change time.\<close>

type_synonym fprint = "int \<times> int \<times> int \<times> int \<times> int"

abbreviation fp_size :: "fprint \<Rightarrow> int" where
  "fp_size fp \<equiv> fst (snd (snd fp))"

abbreviation fp_mtime :: "fprint \<Rightarrow> int" where
  "fp_mtime fp \<equiv> fst (snd (snd (snd fp)))"

abbreviation fp_ctime :: "fprint \<Rightarrow> int" where
  "fp_ctime fp \<equiv> snd (snd (snd (snd fp)))"

text \<open>A directory entry: a regular file with one name, a regular file with further hard links, a symbolic
  link, a directory, or a pipe or device.\<close>

datatype file_kind = Regular | Linked | Symlink | Subdir | Special

record bfile =
  bf_kind :: file_kind
  bf_text :: str
  bf_fp :: fprint
  bf_blocks :: int

definition regular :: "bfile \<Rightarrow> bool" where
  "regular f = (bf_kind f = Regular)"

definition is_reg :: "bfile \<Rightarrow> bool" where
  "is_reg f = (bf_kind f = Regular \<or> bf_kind f = Linked)"

type_synonym bdir = "bfile dict"

text \<open>What stands under a name in the root: not a directory (with the error of opening it as one), a directory
  without \<^verbatim>\<open>blobs\<close>, one whose \<^verbatim>\<open>blobs\<close> is not a directory, or one with its files.\<close>

datatype sess = NotDir nat | NoBlobs | BlobsNotDir nat | BlobDir bdir

record tomb =
  t_fp :: fprint
  t_expired :: int
  t_pending :: bool

record blob_root =
  br_sessions :: "sess dict"
  br_ledger :: "tomb dict"

abbreviation ENOTDIR :: nat where
  "ENOTDIR \<equiv> 20"

abbreviation EISDIR :: nat where
  "EISDIR \<equiv> 21"

abbreviation EEXIST :: nat where
  "EEXIST \<equiv> 17"

abbreviation ELOOP :: nat where
  "ELOOP \<equiv> 40"

text \<open>\<^verbatim>\<open>Root.blobs\<close>, without and with \<^verbatim>\<open>create\<close>.\<close>

definition blobs :: "blob_root \<Rightarrow> str \<Rightarrow> bdir res" where
  "blobs root session =
    bind_res (component session) (\<lambda>_.
    case dget (br_sessions root) session of
      None \<Rightarrow> Inl (OSError ENOENT)
    | Some (NotDir e) \<Rightarrow> Inl (OSError e)
    | Some NoBlobs \<Rightarrow> Inl (OSError ENOENT)
    | Some (BlobsNotDir e) \<Rightarrow> Inl (OSError e)
    | Some (BlobDir d) \<Rightarrow> Inr d)"

definition put_blobs :: "str \<Rightarrow> bdir \<Rightarrow> blob_root \<Rightarrow> blob_root" where
  "put_blobs session d root = root\<lparr>br_sessions := dset session (BlobDir d) (br_sessions root)\<rparr>"

definition create_blobs :: "str \<Rightarrow> blob_root \<Rightarrow> blob_root" where
  "create_blobs session root =
    (case dget (br_sessions root) session of
       None \<Rightarrow> put_blobs session [] root
     | Some NoBlobs \<Rightarrow> put_blobs session [] root
     | Some _ \<Rightarrow> root)"

text \<open>\<^verbatim>\<open>Ledger.contains\<close> through \<^verbatim>\<open>expired\<close>.\<close>

definition expired :: "blob_root \<Rightarrow> str \<Rightarrow> bool res" where
  "expired root uri = bind_res (exact_address uri) (\<lambda>_. Inr (dget (br_ledger root) uri \<noteq> None))"

section \<open>The store\<close>

text \<open>\<^verbatim>\<open>BlobExpiredError\<close> is the one exception type of its own; every other is a common one.\<close>

datatype blob_exc = BlobExpiredError str | BlobExc exc

fun blob_res :: "'a res \<Rightarrow> blob_exc + 'a" where
  "blob_res (Inl e) = Inl (BlobExc e)"
| "blob_res (Inr x) = Inr x"

definition address :: "(str \<Rightarrow> str) \<Rightarrow> str \<Rightarrow> str \<Rightarrow> blob_address res" where
  "address sha session_id key =
    (if starts_with (MAPPED_MARKER @ ''/'') key
     then bind_res (fold_blob_session sha session_id) (\<lambda>s.
       case exact_address (BLOB_SCHEME @ s @ ''/'' @ key) of
         Inr a \<Rightarrow> Inr a
       | Inl _ \<Rightarrow> write_address sha session_id key)
     else write_address sha session_id key)"

fun first_expired :: "blob_root \<Rightarrow> blob_address list \<Rightarrow> str option res" where
  "first_expired root [] = Inr None"
| "first_expired root (a # as) =
    bind_res (expired root (blob_uri a)) (\<lambda>e. if e then Inr (Some (blob_uri a)) else first_expired root as)"

text \<open>What the system does to a write: the file comes into being with its attributes, or a call fails after the
  temporary file was opened.\<close>

datatype write_io = WriteOk fprint int | WriteFails nat

fun free_tmp :: "str \<Rightarrow> str list \<Rightarrow> bdir \<Rightarrow> str option" where
  "free_tmp stem [] d = None"
| "free_tmp stem (token # tokens) d =
    (let tmp = stem @ ''.'' @ token @ ''.tmp'' in
     if dget d tmp = None then Some tmp else free_tmp stem tokens d)"

definition write_payload :: "write_io \<Rightarrow> str list \<Rightarrow> blob_address \<Rightarrow> str \<Rightarrow> bdir \<Rightarrow> unit res \<times> bdir" where
  "write_payload io tokens canonical data d =
    (case free_tmp (blob_stem canonical) (take 100 tokens) d of
       None \<Rightarrow> (Inl (OSError EEXIST), d)
     | Some tmp \<Rightarrow>
         (case io of
            WriteFails e \<Rightarrow> (Inl (OSError e), d)
          | WriteOk fp blocks \<Rightarrow>
              let f = \<lparr>bf_kind = Regular, bf_text = data, bf_fp = fp, bf_blocks = blocks\<rparr>;
                  d' = dset tmp f d
              in (case dget d (blob_filename canonical) of
                    Some g \<Rightarrow>
                      if bf_kind g = Subdir then (Inl (OSError EISDIR), AList.delete tmp d')
                      else (Inr (), dset (blob_filename canonical) f (AList.delete tmp d'))
                  | None \<Rightarrow> (Inr (), dset (blob_filename canonical) f (AList.delete tmp d')))))"

definition write_blob ::
  "(str \<Rightarrow> str) \<Rightarrow> (pyval \<Rightarrow> str res) \<Rightarrow> write_io \<Rightarrow> str list \<Rightarrow> str \<Rightarrow> str \<Rightarrow> pyval \<Rightarrow> blob_root \<Rightarrow> str res \<times> blob_root" where
  "write_blob sha dumps io tokens session_id key value root =
    (case bind_res (write_address sha session_id key) (\<lambda>canonical.
          bind_res (legacy_addresses sha session_id key) (\<lambda>legacy.
          bind_res (first_expired root (first_of_each (canonical # legacy))) (\<lambda>e. Inr (canonical, e)))) of
       Inl e \<Rightarrow> (Inl e, root)
     | Inr (canonical, Some uri) \<Rightarrow> (Inr uri, root)
     | Inr (canonical, None) \<Rightarrow>
         let root = create_blobs (ba_session canonical) root in
         (case bind_res (blobs root (ba_session canonical)) (\<lambda>d. bind_res (dumps value) (\<lambda>data. Inr (d, data))) of
            Inl e \<Rightarrow> (Inl e, root)
          | Inr (d, data) \<Rightarrow>
              let (r, d') = write_payload io tokens canonical data d
              in (bind_res r (\<lambda>_. Inr (blob_uri canonical)), put_blobs (ba_session canonical) d' root)))"

text \<open>\<^verbatim>\<open>_open_first\<close>: opening a symbolic link fails, everything else opens.\<close>

fun open_first :: "bdir \<Rightarrow> blob_address list \<Rightarrow> bfile option res" where
  "open_first d [] = Inr None"
| "open_first d (c # cs) =
    (case dget d (blob_filename c) of
       None \<Rightarrow> open_first d cs
     | Some f \<Rightarrow> if bf_kind f = Symlink then Inl (OSError ELOOP) else Inr (Some f))"

definition check_payload :: "bfile \<Rightarrow> unit res" where
  "check_payload f = (if is_reg f then Inr () else Inl ValueError)"

fun raise_missing :: "blob_root \<Rightarrow> blob_address list \<Rightarrow> blob_exc + 'a" where
  "raise_missing root [] = Inl (BlobExc (OSError ENOENT))"
| "raise_missing root (c # cs) =
    (case expired root (blob_uri c) of
       Inl e \<Rightarrow> Inl (BlobExc e)
     | Inr True \<Rightarrow> Inl (BlobExpiredError (blob_uri c))
     | Inr False \<Rightarrow> raise_missing root cs)"

definition read_blob :: "(str \<Rightarrow> str) \<Rightarrow> (str \<Rightarrow> pyval res) \<Rightarrow> blob_root \<Rightarrow> str \<Rightarrow> blob_exc + pyval" where
  "read_blob sha loads root uri =
    (case read_candidates sha uri of
       Inl e \<Rightarrow> Inl (BlobExc e)
     | Inr candidates \<Rightarrow>
         (case bind_res (blobs root (ba_session (hd candidates))) (\<lambda>d. open_first d candidates) of
            Inr (Some f) \<Rightarrow> blob_res (bind_res (check_payload f) (\<lambda>_. loads (bf_text f)))
          | Inr None \<Rightarrow> raise_missing root candidates
          | Inl (OSError e) \<Rightarrow>
              if e = ENOENT then raise_missing root candidates else Inl (BlobExc (OSError e))
          | Inl e \<Rightarrow> Inl (BlobExc e)))"

text \<open>\<^verbatim>\<open>entry.is_file(follow_symlinks=False)\<close> holds of regular files only.\<close>

definition recognised :: "str \<Rightarrow> bdir \<Rightarrow> blob_address list" where
  "recognised session d =
    List.map_filter (\<lambda>(name, f).
      if \<not> is_reg f then None
      else case address_from_filename session name of Inr (Some a) \<Rightarrow> Some a | _ \<Rightarrow> None) d"

definition list_blobs :: "(str \<Rightarrow> str) \<Rightarrow> blob_root \<Rightarrow> str \<Rightarrow> str list res" where
  "list_blobs sha root session_id =
    bind_res (fold_blob_session sha session_id) (\<lambda>session.
    case blobs root session of
      Inr d \<Rightarrow> Inr (sort (map blob_uri (recognised session d)))
    | Inl (OSError e) \<Rightarrow> if e = ENOENT then Inr [] else Inl (OSError e)
    | Inl e \<Rightarrow> Inl e)"

fun size_first :: "bdir \<Rightarrow> blob_address list \<Rightarrow> int res" where
  "size_first d [] = Inr 0"
| "size_first d (c # cs) =
    (case dget d (blob_filename c) of
       None \<Rightarrow> size_first d cs
     | Some f \<Rightarrow> if is_reg f then Inr (fp_size (bf_fp f)) else Inl ValueError)"

definition size_blob :: "(str \<Rightarrow> str) \<Rightarrow> blob_root \<Rightarrow> str \<Rightarrow> int res" where
  "size_blob sha root uri =
    bind_res (read_candidates sha uri) (\<lambda>candidates.
    case blobs root (ba_session (hd candidates)) of
      Inr d \<Rightarrow> size_first d candidates
    | Inl (OSError e) \<Rightarrow> if e = ENOENT then Inr 0 else Inl (OSError e)
    | Inl e \<Rightarrow> Inl e)"

definition delete_session_blobs :: "(str \<Rightarrow> str) \<Rightarrow> str \<Rightarrow> blob_root \<Rightarrow> nat res \<times> blob_root" where
  "delete_session_blobs sha session_id root =
    (case bind_res (fold_blob_session sha session_id) (\<lambda>s. bind_res (blobs root s) (\<lambda>d. Inr (s, d))) of
       Inr (session, d) \<Rightarrow>
         (Inr (length (recognised session d)), root\<lparr>br_sessions := AList.delete session (br_sessions root)\<rparr>)
     | Inl (OSError e) \<Rightarrow> (if e = ENOENT then Inr 0 else Inl (OSError e), root)
     | Inl e \<Rightarrow> (Inl e, root))"

section \<open>Ages\<close>

definition unit_seconds :: "char \<Rightarrow> int option" where
  "unit_seconds c =
    (if c = CHR ''s'' then Some 1 else if c = CHR ''m'' then Some 60 else if c = CHR ''h'' then Some 3600
     else if c = CHR ''d'' then Some 86400 else if c = CHR ''w'' then Some 604800 else None)"

definition duration_ns :: "str \<Rightarrow> int res" where
  "duration_ns value =
    (if value = [] then Inl ValueError
     else let n = butlast value in
       case unit_seconds (last value) of
         None \<Rightarrow> Inl ValueError
       | Some u \<Rightarrow>
           if n = [] \<or> \<not> list_all is_digit n \<or> hd n = CHR ''0'' \<or> 18 < length n then Inl ValueError
           else bind_res (py_int n) (\<lambda>k.
             let result = k * u * 10 ^ 9 in
             if 2 ^ 63 - 1 < result then Inl ValueError else Inr result))"

definition cutoff_for :: "int \<Rightarrow> int \<Rightarrow> int res" where
  "cutoff_for age_ns now_ns =
    (let cutoff = now_ns - age_ns in if cutoff < 0 \<or> age_ns \<le> 0 then Inl ValueError else Inr cutoff)"

section \<open>Scanning\<close>

record candidate =
  ca_uri :: str
  ca_fp :: fprint
  ca_allocated :: int

record report =
  rp_cutoff :: int
  rp_files :: nat
  rp_logical :: int
  rp_allocated :: int
  rp_retained :: nat
  rp_skipped :: nat
  rp_changed :: nat
  rp_errors :: nat
  rp_deleted :: nat
  rp_samples :: "str list"

definition Report :: "int \<Rightarrow> report" where
  "Report cutoff = \<lparr>rp_cutoff = cutoff, rp_files = 0, rp_logical = 0, rp_allocated = 0, rp_retained = 0,
     rp_skipped = 0, rp_changed = 0, rp_errors = 0, rp_deleted = 0, rp_samples = []\<rparr>"

abbreviation skip1 :: "report \<Rightarrow> report" where
  "skip1 rep \<equiv> rep\<lparr>rp_skipped := rp_skipped rep + 1\<rparr>"

abbreviation error1 :: "report \<Rightarrow> report" where
  "error1 rep \<equiv> rep\<lparr>rp_errors := rp_errors rep + 1\<rparr>"

abbreviation change1 :: "report \<Rightarrow> report" where
  "change1 rep \<equiv> rep\<lparr>rp_changed := rp_changed rep + 1\<rparr>"

definition eligible1 :: "candidate \<Rightarrow> report \<Rightarrow> report" where
  "eligible1 item rep = rep\<lparr>rp_files := rp_files rep + 1, rp_logical := rp_logical rep + fp_size (ca_fp item),
     rp_allocated := rp_allocated rep + ca_allocated item,
     rp_samples := (if length (rp_samples rep) < 5 then rp_samples rep @ [ca_uri item] else rp_samples rep)\<rparr>"

definition candidate_of :: "blob_address \<Rightarrow> bfile \<Rightarrow> candidate" where
  "candidate_of a f = \<lparr>ca_uri = blob_uri a, ca_fp = bf_fp f, ca_allocated = bf_blocks f * 512\<rparr>"

fun scan_files :: "int \<Rightarrow> str \<Rightarrow> bdir \<Rightarrow> str list \<Rightarrow> report \<Rightarrow> candidate list \<times> report" where
  "scan_files cutoff session d [] rep = ([], rep)"
| "scan_files cutoff session d (name # names) rep =
    (case address_from_filename session name of
       Inl _ \<Rightarrow> scan_files cutoff session d names (skip1 rep)
     | Inr None \<Rightarrow> scan_files cutoff session d names (skip1 rep)
     | Inr (Some a) \<Rightarrow>
         (case dget d (blob_filename a) of
            None \<Rightarrow> scan_files cutoff session d names (error1 rep)
          | Some f \<Rightarrow>
              if \<not> regular f then scan_files cutoff session d names (skip1 rep)
              else if cutoff \<le> fp_mtime (bf_fp f)
                then scan_files cutoff session d names (rep\<lparr>rp_retained := rp_retained rep + 1\<rparr>)
              else let item = candidate_of a f;
                       (items, rep) = scan_files cutoff session d names (eligible1 item rep)
                   in (item # items, rep)))"

fun candidates :: "int \<Rightarrow> blob_root \<Rightarrow> str list \<Rightarrow> report \<Rightarrow> candidate list \<times> report" where
  "candidates cutoff root [] rep = ([], rep)"
| "candidates cutoff root (session # sessions) rep =
    (if session = BLOB_LOCK \<or> session = BLOB_METADATA then candidates cutoff root sessions rep
     else if component session = Inl ValueError then candidates cutoff root sessions (skip1 rep)
     else case dget (br_sessions root) session of
       Some (BlobDir d) \<Rightarrow>
         (let (items, rep) = scan_files cutoff session d (map fst d) rep;
              (more, rep) = candidates cutoff root sessions rep
          in (items @ more, rep))
     | Some (BlobsNotDir e) \<Rightarrow>
         candidates cutoff root sessions (if e = ENOENT \<or> e = ENOTDIR then skip1 rep else error1 rep)
     | _ \<Rightarrow> candidates cutoff root sessions (skip1 rep))"

definition session_names :: "blob_root \<Rightarrow> str list" where
  "session_names root = map fst (br_sessions root)"

definition preview_root :: "int \<Rightarrow> blob_root \<Rightarrow> report" where
  "preview_root cutoff root = snd (candidates cutoff root (session_names root) (Report cutoff))"

section \<open>Pruning\<close>

text \<open>What the system does to one batch: which unlinks fail, whether syncing the directories fails, and the
  clock.\<close>

record batch_io =
  bi_unlink :: "str \<Rightarrow> nat option"
  bi_sync :: "nat option"
  bi_now :: "str \<Rightarrow> int"

fun journal :: "(str \<Rightarrow> int) \<Rightarrow> candidate list \<Rightarrow> tomb dict \<Rightarrow> tomb dict" where
  "journal now [] l = l"
| "journal now (item # items) l =
    journal now items
      (if dget l (ca_uri item) = None
       then dset (ca_uri item) \<lparr>t_fp = ca_fp item, t_expired = now (ca_uri item), t_pending = True\<rparr> l else l)"

definition matches :: "blob_root \<Rightarrow> candidate \<Rightarrow> bool res" where
  "matches root item =
    bind_res (exact_address (ca_uri item)) (\<lambda>a.
    case blobs root (ba_session a) of
      Inl (OSError e) \<Rightarrow> if e = ENOENT then Inr False else Inl (OSError e)
    | Inl e \<Rightarrow> Inl e
    | Inr d \<Rightarrow>
        (case dget d (blob_filename a) of
           None \<Rightarrow> Inr False
         | Some f \<Rightarrow> Inr (regular f \<and> bf_fp f = ca_fp item)))"

definition settle :: "str \<Rightarrow> blob_root \<Rightarrow> blob_root" where
  "settle uri root =
    (case dget (br_ledger root) uri of
       None \<Rightarrow> root
     | Some t \<Rightarrow> root\<lparr>br_ledger := dset uri (t\<lparr>t_pending := False\<rparr>) (br_ledger root)\<rparr>)"

definition unlink_item :: "batch_io \<Rightarrow> candidate \<Rightarrow> blob_root \<times> report \<Rightarrow> (blob_root \<times> report) res" where
  "unlink_item io item s =
    (let (root, rep) = s; uri = ca_uri item in
     case dget (br_ledger root) uri of
       None \<Rightarrow> Inr (root, change1 rep)
     | Some t \<Rightarrow>
         if t_fp t \<noteq> ca_fp item \<or> \<not> t_pending t then Inr (root, change1 rep)
         else bind_res (exact_address uri) (\<lambda>a.
           case blobs root (ba_session a) of
             Inl (OSError e) \<Rightarrow> Inr (root, if e = ENOENT then rep else error1 rep)
           | Inl e \<Rightarrow> Inr (root, error1 rep)
           | Inr d \<Rightarrow>
               (case dget d (blob_filename a) of
                  None \<Rightarrow> Inr (settle uri root, rep)
                | Some f \<Rightarrow>
                    if \<not> regular f \<or> bf_fp f \<noteq> ca_fp item then Inr (root, change1 rep)
                    else (case bi_unlink io uri of
                            Some e \<Rightarrow> Inr (root, if e = ENOENT then rep else error1 rep)
                          | None \<Rightarrow>
                              Inr (settle uri (put_blobs (ba_session a) (AList.delete (blob_filename a) d) root),
                                   rep\<lparr>rp_deleted := rp_deleted rep + 1\<rparr>)))))"

fun unlink_items :: "batch_io \<Rightarrow> candidate list \<Rightarrow> blob_root \<times> report \<Rightarrow> exc option \<times> blob_root \<times> report" where
  "unlink_items io [] s = (None, s)"
| "unlink_items io (item # items) s =
    (case unlink_item io item s of
       Inl e \<Rightarrow> (Some e, s)
     | Inr s \<Rightarrow> unlink_items io items s)"

text \<open>The unlinks of a batch, the directory syncs, and the commit of the ledger; when a sync fails the
  connection is closed without a commit, which takes the changes to the ledger back.\<close>

definition unlink_batch :: "batch_io \<Rightarrow> candidate list \<Rightarrow> blob_root \<times> report \<Rightarrow> exc option \<times> blob_root \<times> report" where
  "unlink_batch io items s =
    (case unlink_items io items s of
       (r, root, rep) \<Rightarrow>
         (case (r, bi_sync io) of
            (None, None) \<Rightarrow> (None, root, rep)
          | (_, Some e) \<Rightarrow> (Some (OSError e), root\<lparr>br_ledger := br_ledger (fst s)\<rparr>, rep)
          | (Some e, None) \<Rightarrow> (Some e, root\<lparr>br_ledger := br_ledger (fst s)\<rparr>, rep)))"

definition BATCH_SIZE :: nat where
  "BATCH_SIZE = 512"

text \<open>The page of \<^verbatim>\<open>_recover\<close>: pending rows under the cutoff after a key, in key order.\<close>

definition pending_page :: "int \<Rightarrow> str \<Rightarrow> tomb dict \<Rightarrow> candidate list" where
  "pending_page cutoff after l =
    map (\<lambda>(uri, t). \<lparr>ca_uri = uri, ca_fp = t_fp t, ca_allocated = 0\<rparr>)
      (take BATCH_SIZE (sort_key fst
        (filter (\<lambda>(uri, t). t_pending t \<and> fp_mtime (t_fp t) < cutoff \<and> after < uri) l)))"

lemma settle_keys: "map fst (br_ledger (settle uri root)) = map fst (br_ledger root)"
proof (cases "dget (br_ledger root) uri")
  case (Some t)
  then have "uri \<in> fst ` set (br_ledger root)" by (rule rev_image_eqI [OF map_of_SomeD]) simp
  with Some show ?thesis by (simp add: settle_def update_keys)
qed (simp add: settle_def)

lemma unlink_item_cases:
  assumes "unlink_item io item (root, rep) = Inr (root', rep')"
  obtains (keep) "root' = root" "rp_deleted rep' = rp_deleted rep" "rp_cutoff rep' = rp_cutoff rep"
  | (gone) "root' = settle (ca_uri item) root" "rep' = rep"
  | (unlinked) a d f t where "exact_address (ca_uri item) = Inr a" "blobs root (ba_session a) = Inr d"
      "dget d (blob_filename a) = Some f" "regular f" "bf_fp f = ca_fp item"
      "dget (br_ledger root) (ca_uri item) = Some t" "t_fp t = ca_fp item"
      "root' = settle (ca_uri item) (put_blobs (ba_session a) (AList.delete (blob_filename a) d) root)"
      "rep' = rep\<lparr>rp_deleted := rp_deleted rep + 1\<rparr>"
proof (cases "dget (br_ledger root) (ca_uri item)")
  case None
  with assms show thesis by (intro keep) (auto simp: unlink_item_def Let_def)
next
  case (Some t)
  show thesis
  proof (cases "t_fp t \<noteq> ca_fp item \<or> \<not> t_pending t")
    case True
    with Some assms show thesis by (intro keep) (auto simp: unlink_item_def Let_def)
  next
    case False
    with Some assms obtain a where a: "exact_address (ca_uri item) = Inr a"
      by (cases "exact_address (ca_uri item)") (auto simp: unlink_item_def Let_def res_simps)
    show thesis
    proof (cases "blobs root (ba_session a)")
      case (Inl e)
      with False Some a assms show thesis
        by (intro keep) (cases e; auto simp: unlink_item_def Let_def res_simps split: if_splits)+
    next
      case (Inr d)
      show thesis
      proof (cases "dget d (blob_filename a)")
        case None
        with False Some a Inr assms show thesis by (intro gone) (auto simp: unlink_item_def Let_def res_simps)
      next
        case (Some f)
        show thesis
        proof (cases "regular f \<and> bf_fp f = ca_fp item \<and> bi_unlink io (ca_uri item) = None")
          case True
          with False Some a Inr \<open>dget (br_ledger root) (ca_uri item) = Some t\<close> assms show thesis
            by (intro unlinked [of a d f t]) (auto simp: unlink_item_def Let_def res_simps)
        next
          case F: False
          with False Some a Inr \<open>dget (br_ledger root) (ca_uri item) = Some t\<close> assms show thesis
            by (intro keep) (auto simp: unlink_item_def Let_def res_simps split: if_splits option.splits)
        qed
      qed
    qed
  qed
qed

lemma unlink_item_keys: "unlink_item io item s = Inr s' \<Longrightarrow> map fst (br_ledger (fst s')) = map fst (br_ledger (fst s))"
  by (cases s; cases s'; simp; erule unlink_item_cases) (simp_all add: settle_keys put_blobs_def)

lemma unlink_items_keys: "unlink_items io items s = (r, s') \<Longrightarrow> map fst (br_ledger (fst s')) = map fst (br_ledger (fst s))"
  by (induction items arbitrary: s) (auto split: sum.splits dest!: unlink_item_keys)

lemma unlink_batch_keys: "unlink_batch io items s = (r, s') \<Longrightarrow> map fst (br_ledger (fst s')) = map fst (br_ledger (fst s))"
  by (auto simp: unlink_batch_def split: prod.splits option.splits dest!: unlink_items_keys)

lemma pending_page_after:
  assumes "item \<in> set (pending_page cutoff after l)"
  shows "after < ca_uri item \<and> ca_uri item \<in> fst ` set l"
proof -
  obtain uri t where "(uri, t) \<in> set (filter (\<lambda>(uri, t). t_pending t \<and> fp_mtime (t_fp t) < cutoff \<and> after < uri) l)"
    and "ca_uri item = uri"
    using assms unfolding pending_page_def by (auto dest!: in_set_takeD)
  then show ?thesis by (auto intro: rev_image_eqI)
qed

text \<open>The first argument of the oracle counts the batches of the run.\<close>

function recover_pages :: "(nat \<Rightarrow> batch_io) \<Rightarrow> nat \<Rightarrow> str \<Rightarrow> blob_root \<times> report \<Rightarrow> nat \<times> exc option \<times> blob_root \<times> report" where
  "recover_pages io n after s =
    (let rows = pending_page (rp_cutoff (snd s)) after (br_ledger (fst s)) in
     if rows = [] then (n, None, s)
     else case unlink_batch (io n) rows s of
       (Some e, s') \<Rightarrow> (n + 1, Some e, s')
     | (None, s') \<Rightarrow> recover_pages io (n + 1) (ca_uri (last rows)) s')"
  by pat_completeness auto
termination
proof (relation "measure (\<lambda>(io, n, after, s). length (filter (\<lambda>u. after < u) (map fst (br_ledger (fst s)))))", goal_cases)
  case (2 io n after s rows r s')
  have "last rows \<in> set rows" using 2 by simp
  then have a: "after < ca_uri (last rows)" "ca_uri (last rows) \<in> fst ` set (br_ledger (fst s))"
    using pending_page_after [of "last rows"] 2 by blast+
  have k: "map fst (br_ledger (fst s')) = map fst (br_ledger (fst s))"
    by (rule unlink_batch_keys [of "io n" rows s None]) (use 2 in simp)
  have "length (filter (\<lambda>u. ca_uri (last rows) < u) ks) < length (filter (\<lambda>u. after < u) ks)"
    if "ca_uri (last rows) \<in> set ks" for ks
    using that
  proof (induction ks)
    case (Cons u ks)
    have "length (filter (\<lambda>u. ca_uri (last rows) < u) ks) \<le> length (filter (\<lambda>u. after < u) ks)"
      using a(1) by (induction ks) auto
    with Cons a(1) show ?case by (cases "ca_uri (last rows) \<in> set ks") auto
  qed simp
  from this [of "map fst (br_ledger (fst s))"] a(2) show ?case
    by (simp only: in_measure split_conv k) (simp del: filter_map)
qed simp

fun prepare :: "candidate list \<Rightarrow> blob_root \<Rightarrow> report \<Rightarrow> (candidate list \<times> report) res" where
  "prepare [] root rep = Inr ([], rep)"
| "prepare (item # items) root rep =
    bind_res (expired root (ca_uri item)) (\<lambda>e.
    if e then prepare items root (skip1 rep)
    else bind_res (matches root item) (\<lambda>m.
      if m then bind_res (prepare items root rep) (\<lambda>(ready, rep). Inr (item # ready, rep))
      else prepare items root (change1 rep)))"

definition flush_batch :: "batch_io \<Rightarrow> candidate list \<Rightarrow> blob_root \<times> report \<Rightarrow> exc option \<times> blob_root \<times> report" where
  "flush_batch io items s =
    (case prepare items (fst s) (snd s) of
       Inl e \<Rightarrow> (Some e, s)
     | Inr (ready, rep) \<Rightarrow>
         unlink_batch io ready ((fst s)\<lparr>br_ledger := journal (bi_now io) ready (br_ledger (fst s))\<rparr>, rep))"

function flush_batches :: "(nat \<Rightarrow> batch_io) \<Rightarrow> nat \<Rightarrow> candidate list \<Rightarrow> blob_root \<times> report \<Rightarrow> exc option \<times> blob_root \<times> report" where
  "flush_batches io n items s =
    (if items = [] then (None, s)
     else case flush_batch (io n) (take BATCH_SIZE items) s of
       (Some e, s') \<Rightarrow> (Some e, s')
     | (None, s') \<Rightarrow> flush_batches io (n + 1) (drop BATCH_SIZE items) s')"
  by pat_completeness auto
termination
  by (relation "measure (\<lambda>(io, n, items, s). length items)") (auto simp: BATCH_SIZE_def)

text \<open>\<^verbatim>\<open>apply\<close>.  The scan is a generator that a full batch interrupts; since a batch unlinks only files the scan
  has passed, and only files with a single name, scanning first sees the same entries.\<close>

definition apply_prune ::
  "(nat \<Rightarrow> batch_io) \<Rightarrow> (report \<Rightarrow> bool) \<Rightarrow> int \<Rightarrow> blob_root \<Rightarrow> report res \<times> blob_root" where
  "apply_prune io confirm cutoff root =
    (if \<not> confirm (preview_root cutoff root) then (Inl RuntimeError, root)
     else case recover_pages io 0 [] (root, Report cutoff) of
       (n, Some e, root, rep) \<Rightarrow> (Inl e, root)
     | (n, None, root, rep) \<Rightarrow>
         (let (items, rep) = candidates cutoff root (session_names root) rep in
          case flush_batches io n items (root, rep) of
            (Some e, root, rep) \<Rightarrow> (Inl e, root)
          | (None, root, rep) \<Rightarrow> (Inr rep, root)))"

section \<open>Online pruning\<close>

definition recovery_page :: "blob_root \<Rightarrow> str \<Rightarrow> int \<Rightarrow> int \<Rightarrow> str \<times> candidate list \<times> nat" where
  "recovery_page root after cutoff started =
    (let rows = take 512 (sort_key fst (filter (\<lambda>(uri, t). after < uri) (br_ledger root))) in
     (if rows = [] then after else fst (last rows),
      map (\<lambda>(uri, t). \<lparr>ca_uri = uri, ca_fp = t_fp t, ca_allocated = 0\<rparr>)
        (filter (\<lambda>(uri, t). t_pending t \<and> fp_mtime (t_fp t) < cutoff \<and> fp_ctime (t_fp t) \<le> started) rows),
      length rows))"

fun admit_items :: "bool \<Rightarrow> candidate list \<Rightarrow> blob_root \<Rightarrow> candidate list \<times> report \<Rightarrow> exc option \<times> candidate list \<times> report" where
  "admit_items rec [] root s = (None, s)"
| "admit_items rec (item # items) root (ready, rep) =
    (if rp_cutoff rep \<le> fp_mtime (ca_fp item) then (Some RuntimeError, ready, rep)
     else if rec then admit_items rec items root (ready @ [item], rep)
     else case expired root (ca_uri item) of
       Inl e \<Rightarrow> (Some e, ready, rep)
     | Inr True \<Rightarrow> admit_items rec items root (ready, skip1 rep)
     | Inr False \<Rightarrow>
         (case matches root item of
            Inl e \<Rightarrow> (Some e, ready, rep)
          | Inr True \<Rightarrow> admit_items rec items root (ready @ [item], rep)
          | Inr False \<Rightarrow> admit_items rec items root (ready, change1 rep)))"

definition apply_batch ::
  "batch_io \<Rightarrow> bool \<Rightarrow> candidate list \<Rightarrow> blob_root \<times> report \<Rightarrow> exc option \<times> blob_root \<times> report" where
  "apply_batch io rec items s =
    (if 64 < length items then (Some RuntimeError, s)
     else case admit_items rec items (fst s) ([], snd s) of
       (Some e, ready, rep) \<Rightarrow> (Some e, fst s, rep)
     | (None, ready, rep) \<Rightarrow>
         let l = br_ledger (fst s);
             l = (if rec then l else journal (bi_now io) ready l)
         in unlink_batch io ready ((fst s)\<lparr>br_ledger := l\<rparr>, rep))"

end
