(* ===== verification/BlobSpec.thy ===== *)
theory BlobSpec
  imports Blobs
begin

text \<open>
  What the blob store and its pruning guarantee: a written blob reads back and disturbs no other file; pruning
  removes only old unchanged files and never one without its expiry record; what was pruned reads as expired
  for ever and is never written again.
\<close>

section \<open>Files and tombstones\<close>

definition stored :: "blob_root \<Rightarrow> str \<Rightarrow> str \<Rightarrow> bfile option" where
  "stored root s f = (case dget (br_sessions root) s of Some (BlobDir d) \<Rightarrow> dget d f | _ \<Rightarrow> None)"

definition is_blob_dir :: "blob_root \<Rightarrow> str \<Rightarrow> bool" where
  "is_blob_dir root s = (case dget (br_sessions root) s of Some (BlobDir d) \<Rightarrow> True | _ \<Rightarrow> False)"

definition tomb_id :: "tomb dict \<Rightarrow> str \<Rightarrow> (fprint \<times> int) option" where
  "tomb_id l u = map_option (\<lambda>t. (t_fp t, t_expired t)) (dget l u)"

text \<open>Every file of \<^term>\<open>root\<close> is still there as it was, or was a regular file whose fingerprint passes the test, is gone, and
  the ledger has its fingerprint under its URI.\<close>

definition pruned :: "(fprint \<Rightarrow> bool) \<Rightarrow> tomb dict \<Rightarrow> blob_root \<Rightarrow> blob_root \<Rightarrow> bool" where
  "pruned P l root root' =
    ((\<forall>s f. stored root' s f = stored root s f \<or>
       (\<exists>file a x. stored root s f = Some file \<and> stored root' s f = None \<and> regular file \<and>
          P (bf_fp file) \<and> exact_address (blob_uri a) = Inr a \<and> ba_session a = s \<and> blob_filename a = f \<and>
          tomb_id l (blob_uri a) = Some (bf_fp file, x))) \<and>
     (\<forall>s. is_blob_dir root s \<longrightarrow> is_blob_dir root' s))"

text \<open>The ledger only grows, and a record keeps its fingerprint and its time.\<close>

definition more_tombs :: "tomb dict \<Rightarrow> tomb dict \<Rightarrow> bool" where
  "more_tombs l l' = (\<forall>u x. tomb_id l u = Some x \<longrightarrow> tomb_id l' u = Some x)"

lemma more_tombs_refl [simp]: "more_tombs l l"
  by (simp add: more_tombs_def)

lemma more_tombs_trans: "more_tombs l l' \<Longrightarrow> more_tombs l' l'' \<Longrightarrow> more_tombs l l''"
  by (simp add: more_tombs_def)

lemma more_tombs_id: "tomb_id l' = tomb_id l \<Longrightarrow> more_tombs l l'"
  by (simp add: more_tombs_def)

lemma pruned_refl [simp]: "pruned P l root root"
  by (simp add: pruned_def)

lemma pruned_more: "pruned P l root root' \<Longrightarrow> more_tombs l l' \<Longrightarrow> pruned P l' root root'"
  unfolding pruned_def more_tombs_def by meson

lemma pruned_trans:
  assumes "pruned P l a b" and "pruned P l b c"
  shows "pruned P l a c"
proof -
  have "stored c s f = stored a s f \<or>
      (\<exists>file ad x. stored a s f = Some file \<and> stored c s f = None \<and> regular file \<and>
         P (bf_fp file) \<and> exact_address (blob_uri ad) = Inr ad \<and> ba_session ad = s \<and> blob_filename ad = f \<and>
         tomb_id l (blob_uri ad) = Some (bf_fp file, x))" for s f
    using assms(1) [unfolded pruned_def, THEN conjunct1, rule_format, of s f]
      assms(2) [unfolded pruned_def, THEN conjunct1, rule_format, of s f] by (metis option.distinct(1))
  moreover have "is_blob_dir a s \<longrightarrow> is_blob_dir c s" for s using assms by (simp add: pruned_def)
  ultimately show ?thesis unfolding pruned_def by blast
qed

lemma pruned_cong:
  assumes "pruned P l root root'" and "br_sessions r1 = br_sessions root" and "br_sessions r2 = br_sessions root'"
  shows "pruned P l r1 r2"
  using assms by (simp add: pruned_def stored_def is_blob_dir_def)

section \<open>URIs\<close>

fun join_slash :: "str list \<Rightarrow> str" where
  "join_slash [] = []"
| "join_slash [p] = p"
| "join_slash (p # ps) = p @ ''/'' @ join_slash ps"

lemma join_split_slash: "join_slash (split_slash s) = s"
proof (induction s)
  case (Cons c cs)
  obtain p ps where "split_slash cs = p # ps" using split_slash_ne [of cs] by (cases "split_slash cs") auto
  with Cons show ?case by (cases ps) auto
qed simp

lemma exact_address_print:
  assumes "exact_address uri = Inr a"
  shows "blob_uri a = uri"
proof -
  let ?rest = "drop (length BLOB_SCHEME) uri"
  have s: "uri = BLOB_SCHEME @ ?rest"
    using assms by (auto simp: exact_address_def starts_with_def split: if_splits) (metis append_take_drop_id)
  have j: "join_slash (split_slash ?rest) = ?rest" by (rule join_split_slash)
  have "uri = BLOB_SCHEME @ join_slash (split_slash ?rest)" using s j by simp
  moreover have "blob_uri a = BLOB_SCHEME @ join_slash (split_slash ?rest)"
    using assms
    by (auto simp: exact_address_def BlobAddress_def bind_res_Inr_iff blob_uri_def split: if_splits list.splits)
  ultimately show ?thesis by simp
qed

lemma exact_address_valid:
  assumes "exact_address uri = Inr a"
  shows "BlobAddress (ba_session a) (ba_name a) (ba_mapped a) = Inr a"
  using assms
  by (auto simp: exact_address_def BlobAddress_def bind_res_Inr_iff split: if_splits list.splits)

section \<open>Pruning steps\<close>

lemma blobs_stored: "blobs root s = Inr d \<Longrightarrow> dget (br_sessions root) s = Some (BlobDir d)"
  by (auto simp: blobs_def bind_res_Inr_iff split: option.splits sess.splits)

lemma br_sessions_settle [simp]: "br_sessions (settle u root) = br_sessions root"
  by (simp add: settle_def split: option.splits)

lemma stored_settle [simp]: "stored (settle u root) = stored root"
  by (simp add: stored_def fun_eq_iff)

lemma is_blob_dir_settle [simp]: "is_blob_dir (settle u root) = is_blob_dir root"
  by (simp add: is_blob_dir_def fun_eq_iff)

lemma tomb_id_settle [simp]: "tomb_id (br_ledger (settle u root)) = tomb_id (br_ledger root)"
  by (simp add: settle_def tomb_id_def fun_eq_iff split: option.splits)

lemma stored_put_blobs [simp]: "stored (put_blobs s d root) s' f = (if s' = s then dget d f else stored root s' f)"
  by (simp add: stored_def put_blobs_def)

lemma is_blob_dir_put_blobs [simp]: "is_blob_dir (put_blobs s d root) s' = (s' = s \<or> is_blob_dir root s')"
  by (simp add: is_blob_dir_def put_blobs_def)

lemma ledger_put_blobs [simp]: "br_ledger (put_blobs s d root) = br_ledger root"
  by (simp add: put_blobs_def)

lemma unlink_item_pruned:
  assumes u: "unlink_item io item (root, rep) = Inr (root', rep')" and old: "P (ca_fp item)"
  shows "pruned P (br_ledger root) root root' \<and> tomb_id (br_ledger root') = tomb_id (br_ledger root) \<and>
    rp_cutoff rep' = rp_cutoff rep"
  using u
proof (cases rule: unlink_item_cases)
  case keep
  then show ?thesis by simp
next
  case gone
  then show ?thesis by (simp add: pruned_def)
next
  case (unlinked a d f t)
  have uri: "blob_uri a = ca_uri item" by (rule exact_address_print [OF unlinked(1)])
  have st: "stored root (ba_session a) n = dget d n" for n
    using blobs_stored [OF unlinked(2)] by (simp add: stored_def)
  have tomb: "tomb_id (br_ledger root) (blob_uri a) = Some (bf_fp f, t_expired t)"
    using unlinked by (simp add: tomb_id_def uri)
  have "stored root' s n = stored root s n \<or>
      (\<exists>file ad x. stored root s n = Some file \<and> stored root' s n = None \<and> regular file \<and>
         P (bf_fp file) \<and> exact_address (blob_uri ad) = Inr ad \<and> ba_session ad = s \<and> blob_filename ad = n \<and>
         tomb_id (br_ledger root) (blob_uri ad) = Some (bf_fp file, x))" for s n
  proof (cases "s = ba_session a \<and> n = blob_filename a")
    case True
    then have "stored root s n = Some f \<and> stored root' s n = None \<and> regular f \<and> P (bf_fp f)"
      using unlinked old st by (simp add: delete_conv')
    with True tomb unlinked(1) uri show ?thesis by metis
  next
    case False
    then have "stored root' s n = stored root s n" using unlinked st by (auto simp: delete_conv')
    then show ?thesis by blast
  qed
  then show ?thesis using unlinked by (simp add: pruned_def)
qed

section \<open>Counting files\<close>

definition dir_count :: "sess \<Rightarrow> nat" where
  "dir_count x = (case x of BlobDir d \<Rightarrow> length d | _ \<Rightarrow> 0)"

definition file_count :: "blob_root \<Rightarrow> nat" where
  "file_count root = sum_list (map (dir_count \<circ> snd) (br_sessions root))"

definition wf_sess :: "sess \<Rightarrow> bool" where
  "wf_sess x = (case x of BlobDir d \<Rightarrow> wf_dict d | _ \<Rightarrow> True)"

definition wf_root :: "blob_root \<Rightarrow> bool" where
  "wf_root root = (wf_dict (br_sessions root) \<and> list_all (wf_sess \<circ> snd) (br_sessions root))"

lemma sum_dset:
  assumes "dget m k = Some x"
  shows "sum_list (map (c \<circ> snd) (AList.update k y m)) + c x = sum_list (map (c \<circ> snd) m) + (c y :: nat)"
  using assms by (induction m) (auto split: if_splits)

lemma length_delete:
  assumes "wf_dict d" and "dget d k = Some x"
  shows "Suc (length (AList.delete k d)) = length d"
  using assms
proof (induction d)
  case (Cons e d)
  obtain k' v where e: "e = (k', v)" by (cases e)
  show ?case
  proof (cases "k' = k")
    case True
    with Cons.prems e have "k \<notin> fst ` set d" by simp
    then have "AList.delete k d = d" by simp
    with True e show ?thesis by simp
  qed (use Cons e in auto)
qed simp

lemma list_all_dset: "list_all (P \<circ> snd) m \<Longrightarrow> P x \<Longrightarrow> list_all (P \<circ> snd) (AList.update k x m)"
  by (induction m) auto

lemma unlink_item_count:
  assumes u: "unlink_item io item (root, rep) = Inr (root', rep')" and wf: "wf_root root"
  shows "wf_root root' \<and> rp_deleted rep' + file_count root' = rp_deleted rep + file_count root"
  using u
proof (cases rule: unlink_item_cases)
  case (unlinked a d f t)
  let ?d = "AList.delete (blob_filename a) d"
  have s: "dget (br_sessions root) (ba_session a) = Some (BlobDir d)" by (rule blobs_stored [OF unlinked(2)])
  have b: "br_sessions root' = dset (ba_session a) (BlobDir ?d) (br_sessions root)"
    using unlinked by (simp add: put_blobs_def)
  have d: "wf_dict d"
    using wf map_of_SomeD [OF s] by (auto simp: wf_root_def list_all_iff wf_sess_def)
  have "Suc (length ?d) = length d" by (rule length_delete [OF d unlinked(3)])
  then have "Suc (file_count root') = file_count root"
    using sum_dset [OF s, of dir_count "BlobDir ?d"] by (simp add: file_count_def b dir_count_def)
  moreover have "wf_root root'"
    using wf d unfolding wf_root_def b by (auto intro!: list_all_dset simp: wf_sess_def distinct_delete)
  ultimately show ?thesis using unlinked by simp
qed (use wf in \<open>simp_all add: wf_root_def file_count_def\<close>)

section \<open>Runs of pruning\<close>

text \<open>What a run of unlinks does to the files, the ledger and the report, and what a batch does with the records
  it adds.\<close>

definition unlinks_to :: "(fprint \<Rightarrow> bool) \<Rightarrow> blob_root \<times> report \<Rightarrow> blob_root \<times> report \<Rightarrow> bool" where
  "unlinks_to P s s' =
    (pruned P (br_ledger (fst s)) (fst s) (fst s') \<and> tomb_id (br_ledger (fst s')) = tomb_id (br_ledger (fst s)) \<and>
     rp_cutoff (snd s') = rp_cutoff (snd s) \<and>
     (wf_root (fst s) \<longrightarrow> wf_root (fst s') \<and>
        rp_deleted (snd s') + file_count (fst s') = rp_deleted (snd s) + file_count (fst s)))"

definition prunes_to :: "(fprint \<Rightarrow> bool) \<Rightarrow> blob_root \<times> report \<Rightarrow> blob_root \<times> report \<Rightarrow> bool" where
  "prunes_to P s s' =
    (pruned P (br_ledger (fst s')) (fst s) (fst s') \<and> more_tombs (br_ledger (fst s)) (br_ledger (fst s')) \<and>
     rp_cutoff (snd s') = rp_cutoff (snd s) \<and>
     (wf_root (fst s) \<longrightarrow> wf_root (fst s') \<and>
        rp_deleted (snd s') + file_count (fst s') = rp_deleted (snd s) + file_count (fst s)))"

lemma unlinks_to_refl [simp]: "unlinks_to P s s"
  by (simp add: unlinks_to_def)

lemma unlinks_to_trans: "unlinks_to P a b \<Longrightarrow> unlinks_to P b c \<Longrightarrow> unlinks_to P a c"
  unfolding unlinks_to_def using pruned_trans pruned_more [OF _ more_tombs_id] by (metis (no_types, lifting))

lemma prunes_to_refl [simp]: "prunes_to P s s"
  by (simp add: prunes_to_def)

lemma prunes_to_trans: "prunes_to P a b \<Longrightarrow> prunes_to P b c \<Longrightarrow> prunes_to P a c"
  unfolding prunes_to_def using pruned_trans pruned_more more_tombs_trans by (metis (no_types, lifting))

lemma unlink_items_to:
  assumes "unlink_items io items s = (r, s')" and "\<forall>item\<in>set items. P (ca_fp item)"
  shows "unlinks_to P s s'"
  using assms
proof (induction items arbitrary: s)
  case (Cons item items)
  show ?case
  proof (cases "unlink_item io item s")
    case (Inl e)
    with Cons.prems(1) show ?thesis by simp
  next
    case (Inr t)
    have "unlinks_to P s t"
      using Inr Cons.prems(2) unlink_item_pruned [of io item "fst s" "snd s" "fst t" "snd t" P]
        unlink_item_count [of io item "fst s" "snd s" "fst t" "snd t"] by (simp add: unlinks_to_def)
    moreover have "unlinks_to P t s'" using Inr Cons.prems by (intro Cons.IH) simp_all
    ultimately show ?thesis by (rule unlinks_to_trans)
  qed
qed simp

lemma wf_root_ledger [simp]: "wf_root (root\<lparr>br_ledger := l\<rparr>) = wf_root root"
  by (simp add: wf_root_def)

lemma file_count_ledger [simp]: "file_count (root\<lparr>br_ledger := l\<rparr>) = file_count root"
  by (simp add: file_count_def)

lemma unlink_batch_to:
  assumes b: "unlink_batch io items s = (r, s')" and old: "\<forall>item\<in>set items. P (ca_fp item)"
  shows "prunes_to P s s'"
proof -
  obtain q root rep where i: "unlink_items io items s = (q, root, rep)" by (metis prod.exhaust)
  have u: "unlinks_to P s (root, rep)" by (rule unlink_items_to [OF i old])
  have "s' = (root, rep) \<or> s' = (root\<lparr>br_ledger := br_ledger (fst s)\<rparr>, rep)"
    using b i by (auto simp: unlink_batch_def split: option.splits)
  then show ?thesis
  proof
    assume "s' = (root, rep)"
    with u show ?thesis using more_tombs_id pruned_more by (fastforce simp: unlinks_to_def prunes_to_def)
  next
    assume "s' = (root\<lparr>br_ledger := br_ledger (fst s)\<rparr>, rep)"
    with u show ?thesis by (auto simp: unlinks_to_def prunes_to_def intro: pruned_cong)
  qed
qed

lemma more_tombs_journal: "more_tombs l (journal now items l)"
proof (induction items arbitrary: l)
  case (Cons item items)
  have "more_tombs l (if dget l (ca_uri item) = None
      then dset (ca_uri item) \<lparr>t_fp = ca_fp item, t_expired = now (ca_uri item), t_pending = True\<rparr> l else l)"
    by (auto simp: more_tombs_def tomb_id_def)
  then show ?case using Cons.IH more_tombs_trans unfolding journal.simps by blast
qed simp

lemma prunes_to_journal:
  assumes "prunes_to P ((fst s)\<lparr>br_ledger := l\<rparr>, rep) s'" and "more_tombs (br_ledger (fst s)) l"
    and "rp_cutoff rep = rp_cutoff (snd s)" and "rp_deleted rep = rp_deleted (snd s)"
  shows "prunes_to P s s'"
  using assms more_tombs_trans by (fastforce simp: prunes_to_def intro: pruned_cong)

lemma prepare_ready:
  "prepare items root rep = Inr (ready, rep') \<Longrightarrow>
    set ready \<subseteq> set items \<and> rp_cutoff rep' = rp_cutoff rep \<and> rp_deleted rep' = rp_deleted rep"
proof (induction items arbitrary: rep ready)
  case (Cons item items)
  obtain e where e: "expired root (ca_uri item) = Inr e" using Cons.prems by (auto simp: bind_res_Inr_iff)
  show ?case
  proof (cases e)
    case True
    with e Cons.prems Cons.IH [of "skip1 rep" ready] show ?thesis by (auto simp: res_simps)
  next
    case False
    obtain m where m: "matches root item = Inr m" using e False Cons.prems by (auto simp: bind_res_Inr_iff)
    show ?thesis
    proof (cases m)
      case True
      obtain more where "prepare items root rep = Inr (more, rep')" "ready = item # more"
        using e m False True Cons.prems by (auto simp: bind_res_Inr_iff)
      with Cons.IH [of rep more] show ?thesis by auto
    next
      case F: False
      with e m False Cons.prems Cons.IH [of "change1 rep" ready] show ?thesis by (auto simp: res_simps)
    qed
  qed
qed simp

lemma flush_batch_to:
  assumes b: "flush_batch io items s = (r, s')" and old: "\<forall>item\<in>set items. P (ca_fp item)"
  shows "prunes_to P s s'"
proof (cases "prepare items (fst s) (snd s)")
  case (Inl e)
  with b show ?thesis by (simp add: flush_batch_def)
next
  case (Inr x)
  obtain ready rep where x: "x = (ready, rep)" by (cases x)
  have p: "set ready \<subseteq> set items" "rp_cutoff rep = rp_cutoff (snd s)" "rp_deleted rep = rp_deleted (snd s)"
    using prepare_ready [of items "fst s" "snd s" ready rep] Inr x by simp_all
  let ?l = "journal (bi_now io) ready (br_ledger (fst s))"
  have "unlink_batch io ready ((fst s)\<lparr>br_ledger := ?l\<rparr>, rep) = (r, s')" using b Inr x by (simp add: flush_batch_def)
  then have "prunes_to P ((fst s)\<lparr>br_ledger := ?l\<rparr>, rep) s'" by (rule unlink_batch_to) (use p(1) old in blast)
  then show ?thesis by (rule prunes_to_journal) (use more_tombs_journal p in auto)
qed

definition older :: "int \<Rightarrow> fprint \<Rightarrow> bool" where
  "older cutoff fp = (fp_mtime fp < cutoff)"

lemma pending_page_old: "item \<in> set (pending_page cutoff after l) \<Longrightarrow> older cutoff (ca_fp item)"
  by (auto simp: pending_page_def older_def dest!: in_set_takeD)

lemma recover_pages_to:
  assumes "recover_pages io n after s = (m, r, s')" and "rp_cutoff (snd s) = cutoff"
  shows "prunes_to (older cutoff) s s'"
  using assms
proof (induction io n after s rule: recover_pages.induct)
  case (1 io n after s)
  let ?rows = "pending_page (rp_cutoff (snd s)) after (br_ledger (fst s))"
  show ?case
  proof (cases "?rows = []")
    case True
    with "1.prems"(1) show ?thesis by (simp add: recover_pages.simps [of io n after s] Let_def)
  next
    case False
    obtain q t where u: "unlink_batch (io n) ?rows s = (q, t)" by (rule prod.exhaust)
    have p: "prunes_to (older cutoff) s t"
      by (rule unlink_batch_to [OF u]) (use pending_page_old "1.prems"(2) in blast)
    show ?thesis
    proof (cases q)
      case (Some e)
      with "1.prems"(1) False u p show ?thesis by (simp add: recover_pages.simps [of io n after s] Let_def)
    next
      case None
      have "recover_pages io (n + 1) (ca_uri (last ?rows)) t = (m, r, s')"
        using "1.prems"(1) False u None by (simp add: recover_pages.simps [of io n after s] Let_def)
      moreover have "rp_cutoff (snd t) = cutoff" using p "1.prems"(2) by (simp add: prunes_to_def)
      ultimately have "prunes_to (older cutoff) t s'" using "1.IH" [OF refl False u [symmetric] None] by simp
      with p show ?thesis by (rule prunes_to_trans)
    qed
  qed
qed

lemma flush_batches_to:
  assumes "flush_batches io n items s = (r, s')" and "\<forall>item\<in>set items. older cutoff (ca_fp item)"
  shows "prunes_to (older cutoff) s s'"
  using assms
proof (induction io n items s rule: flush_batches.induct)
  case (1 io n items s)
  show ?case
  proof (cases "items = []")
    case True
    with "1.prems"(1) show ?thesis by (simp add: flush_batches.simps [of io n items s])
  next
    case False
    obtain q t where f: "flush_batch (io n) (take BATCH_SIZE items) s = (q, t)" by (rule prod.exhaust)
    have p: "prunes_to (older cutoff) s t"
      by (rule flush_batch_to [OF f]) (use "1.prems"(2) in \<open>blast dest: in_set_takeD\<close>)
    show ?thesis
    proof (cases q)
      case (Some e)
      with "1.prems"(1) False f p show ?thesis by (simp add: flush_batches.simps [of io n items s])
    next
      case None
      have "flush_batches io (n + 1) (drop BATCH_SIZE items) t = (r, s')"
        using "1.prems"(1) False f None by (simp add: flush_batches.simps [of io n items s])
      then have "prunes_to (older cutoff) t s'"
        using "1.IH" [OF False f [symmetric] None] "1.prems"(2) by (blast dest: in_set_dropD)
      with p show ?thesis by (rule prunes_to_trans)
    qed
  qed
qed

lemma scan_files_old:
  "scan_files cutoff session d names rep = (items, rep') \<Longrightarrow>
    (\<forall>item\<in>set items. older cutoff (ca_fp item)) \<and> rp_cutoff rep' = rp_cutoff rep \<and> rp_deleted rep' = rp_deleted rep"
proof (induction names arbitrary: rep items)
  case (Cons name names)
  note IH = Cons.IH
  consider (skip) "scan_files cutoff session d names (skip1 rep) = (items, rep')"
    | (err) "scan_files cutoff session d names (error1 rep) = (items, rep')"
    | (keep) "scan_files cutoff session d names (rep\<lparr>rp_retained := rp_retained rep + 1\<rparr>) = (items, rep')"
    | (item) a f more where "fp_mtime (bf_fp f) < cutoff" "items = candidate_of a f # more"
        "scan_files cutoff session d names (eligible1 (candidate_of a f) rep) = (more, rep')"
    using Cons.prems by (auto simp: Let_def not_le split: sum.splits option.splits if_splits prod.splits)
  then show ?case
    by cases (use IH in \<open>fastforce simp: candidate_of_def eligible1_def older_def\<close>)+
qed simp

lemma candidates_old:
  "candidates cutoff root sessions rep = (items, rep') \<Longrightarrow>
    (\<forall>item\<in>set items. older cutoff (ca_fp item)) \<and> rp_cutoff rep' = rp_cutoff rep \<and> rp_deleted rep' = rp_deleted rep"
proof (induction sessions arbitrary: rep items)
  case (Cons session sessions)
  note IH = Cons.IH
  consider (same) "candidates cutoff root sessions rep = (items, rep')"
    | (skip) "candidates cutoff root sessions (skip1 rep) = (items, rep')"
    | (err) "candidates cutoff root sessions (error1 rep) = (items, rep')"
    | (dir) d found mid more where "scan_files cutoff session d (map fst d) rep = (found, mid)"
        "candidates cutoff root sessions mid = (more, rep')" "items = found @ more"
    using Cons.prems by (auto simp: Let_def split: option.splits sess.splits if_splits prod.splits)
  then show ?case
  proof cases
    case dir
    with scan_files_old [OF dir(1)] IH [OF dir(2)] show ?thesis by auto
  qed (use IH in fastforce)+
qed simp

lemma apply_prune_to:
  assumes a: "apply_prune io confirm cutoff root = (r, root')"
  shows "\<exists>rep. prunes_to (older cutoff) (root, Report cutoff) (root', rep) \<and> (\<forall>x. r = Inr x \<longrightarrow> rep = x)"
proof (cases "confirm (preview_root cutoff root)")
  case False
  with a show ?thesis by (intro exI [of _ "Report cutoff"]) (auto simp: apply_prune_def)
next
  case True
  obtain n q root1 rep1 where r: "recover_pages io 0 [] (root, Report cutoff) = (n, q, root1, rep1)" by (metis prod.exhaust)
  have p1: "prunes_to (older cutoff) (root, Report cutoff) (root1, rep1)"
    by (rule recover_pages_to [OF r]) (simp add: Report_def)
  show ?thesis
  proof (cases q)
    case (Some e)
    with a True r p1 show ?thesis by (auto simp: apply_prune_def)
  next
    case None
    obtain items rep2 where c: "candidates cutoff root1 (session_names root1) rep1 = (items, rep2)" by (rule prod.exhaust)
    note old = candidates_old [OF c]
    obtain q3 root3 rep3 where f: "flush_batches io n items (root1, rep2) = (q3, root3, rep3)" by (metis prod.exhaust)
    have "prunes_to (older cutoff) (root1, rep2) (root3, rep3)" by (rule flush_batches_to [OF f]) (use old in blast)
    then have "prunes_to (older cutoff) (root1, rep1) (root3, rep3)" using old by (simp add: prunes_to_def)
    with p1 have "prunes_to (older cutoff) (root, Report cutoff) (root3, rep3)" by (rule prunes_to_trans)
    then show ?thesis using a True r None c f by (auto simp: apply_prune_def split: option.splits)
  qed
qed

section \<open>Writing and reading\<close>

lemma first_expired_Some: "first_expired root as = Inr (Some u) \<Longrightarrow> dget (br_ledger root) u \<noteq> None"
  by (induction as) (auto simp: expired_def bind_res_Inr_iff split: if_splits)

lemma expired_own:
  assumes "hexdigest_ok sha" and "write_address sha sid key = Inr a"
  shows "expired root (blob_uri a) = Inr (dget (br_ledger root) (blob_uri a) \<noteq> None)"
  using exact_address_uri [OF write_address_stable(1) [OF assms]] by (simp add: expired_def res_simps)

lemma free_tmp_fresh: "free_tmp stem tokens d = Some tmp \<Longrightarrow> dget d tmp = None"
  by (induction tokens) (auto simp: Let_def split: if_splits)

lemma write_payload_ok:
  assumes "write_payload io tokens a data d = (Inr (), d')"
  shows "\<exists>fp blocks. dget d' (blob_filename a) = Some \<lparr>bf_kind = Regular, bf_text = data, bf_fp = fp, bf_blocks = blocks\<rparr>"
    and "n \<noteq> blob_filename a \<Longrightarrow> dget d' n = dget d n"
  using assms free_tmp_fresh
  by (fastforce simp: write_payload_def Let_def delete_conv' split: option.splits write_io.splits if_splits)+

lemma stored_create [simp]: "stored (create_blobs s root) = stored root"
  by (auto simp: create_blobs_def stored_def put_blobs_def fun_eq_iff split: option.splits sess.splits)

lemma ledger_create [simp]: "br_ledger (create_blobs s root) = br_ledger root"
  by (simp add: create_blobs_def put_blobs_def split: option.splits sess.splits)

text \<open>A write that is not stopped by an expiry record.\<close>

lemma write_blob_fresh:
  assumes w: "write_address sha sid key = Inr a" and r: "write_blob sha dumps io tokens sid key v root = (Inr u, root1)"
    and fresh: "dget (br_ledger root) u = None"
  shows "u = blob_uri a \<and> br_ledger root1 = br_ledger root \<and> is_blob_dir root1 (ba_session a) \<and>
    (\<exists>data fp blocks. dumps v = Inr data \<and> stored root1 (ba_session a) (blob_filename a) =
       Some \<lparr>bf_kind = Regular, bf_text = data, bf_fp = fp, bf_blocks = blocks\<rparr>) \<and>
    (\<forall>s f. (s, f) \<noteq> (ba_session a, blob_filename a) \<longrightarrow> stored root1 s f = stored root s f)"
proof -
  let ?s = "ba_session a" and ?root = "create_blobs (ba_session a) root"
  define as where "as legacy = first_of_each (a # legacy)" for legacy
  note wb = write_blob_def [of sha dumps io tokens sid key v root, unfolded w bind_res.simps, folded as_def]
  obtain legacy e where l: "legacy_addresses sha sid key = Inr legacy" and e: "first_expired root (as legacy) = Inr e"
    using r unfolding wb by (cases "legacy_addresses sha sid key"; cases "first_expired root (as (projr (legacy_addresses sha sid key)))")
      (auto simp: res_simps)
  have None: "e = None"
  proof (rule ccontr)
    assume "e \<noteq> None"
    then obtain u' where u': "e = Some u'" by blast
    then have "u = u'" using r l e unfolding wb by (simp add: res_simps)
    with fresh first_expired_Some e u' show False by blast
  qed
  obtain d data where d: "blobs ?root ?s = Inr d" and j: "dumps v = Inr data"
    using r l e None unfolding wb
    by (cases "blobs ?root ?s"; cases "dumps v") (auto simp: res_simps Let_def)
  obtain q d' where p: "write_payload io tokens a data d = (q, d')" by (rule prod.exhaust)
  have q: "q = Inr ()" "u = blob_uri a" "root1 = put_blobs ?s d' ?root"
    using r l e None d j p unfolding wb by (auto simp: res_simps Let_def bind_res_Inr_iff)
  have st: "stored root ?s n = dget d n" for n
    unfolding stored_create [of ?s root, symmetric] stored_def using blobs_stored [OF d] by simp
  obtain fp blocks where f: "dget d' (blob_filename a) = Some \<lparr>bf_kind = Regular, bf_text = data, bf_fp = fp, bf_blocks = blocks\<rparr>"
    using write_payload_ok(1) p q(1) by blast
  have "stored root1 s n = stored root s n" if "(s, n) \<noteq> (?s, blob_filename a)" for s n
    using that q(3) st write_payload_ok(2) p q(1) by auto
  moreover have "stored root1 ?s (blob_filename a) = Some \<lparr>bf_kind = Regular, bf_text = data, bf_fp = fp, bf_blocks = blocks\<rparr>"
    using q(3) f by simp
  moreover have "br_ledger root1 = br_ledger root \<and> is_blob_dir root1 ?s" using q(3) by simp
  ultimately show ?thesis using q(2) j by blast
qed

lemma write_blob_blocked:
  assumes sha: "hexdigest_ok sha" and w: "write_address sha sid key = Inr a"
    and x: "dget (br_ledger root) (blob_uri a) \<noteq> None" and l: "legacy_addresses sha sid key = Inr legacy"
  shows "write_blob sha dumps io tokens sid key v root = (Inr (blob_uri a), root)"
  using expired_own [OF sha w, of root] x w l by (simp add: write_blob_def res_simps)

lemma read_blob_stored:
  assumes sha: "hexdigest_ok sha" and w: "write_address sha sid key = Inr a"
    and s: "stored root (ba_session a) (blob_filename a) = Some f" and k: "regular f"
  shows "read_blob sha loads root (blob_uri a) = blob_res (loads (bf_text f))"
proof -
  obtain d where d: "dget (br_sessions root) (ba_session a) = Some (BlobDir d)" "dget d (blob_filename a) = Some f"
    using s by (auto simp: stored_def split: option.splits sess.splits)
  have "blobs root (ba_session a) = Inr d"
    using d write_address_stable(2) [OF sha w] by (simp add: blobs_def res_simps)
  with d k read_candidates_own [OF sha w] show ?thesis
    by (simp add: read_blob_def res_simps regular_def check_payload_def is_reg_def)
qed

lemma read_blob_expired:
  assumes sha: "hexdigest_ok sha" and w: "write_address sha sid key = Inr a"
    and d: "is_blob_dir root (ba_session a)" and s: "stored root (ba_session a) (blob_filename a) = None"
    and x: "dget (br_ledger root) (blob_uri a) \<noteq> None"
  shows "read_blob sha loads root (blob_uri a) = Inl (BlobExpiredError (blob_uri a))"
proof -
  obtain d where d: "dget (br_sessions root) (ba_session a) = Some (BlobDir d)"
    using d by (auto simp: is_blob_dir_def split: option.splits sess.splits)
  have "blobs root (ba_session a) = Inr d"
    using d write_address_stable(2) [OF sha w] by (simp add: blobs_def res_simps)
  moreover have "dget d (blob_filename a) = None" using s d by (simp add: stored_def)
  ultimately show ?thesis
    using read_candidates_own [OF sha w] expired_own [OF sha w, of root] x by (simp add: read_blob_def res_simps)
qed

section \<open>Properties\<close>

text \<open>
  C33 [prune_safe]: whatever the file system does to a prune run, and whether it succeeds, is refused or fails half
  way: every blob file is afterwards exactly as before, or it was a regular file last modified before the cutoff,
  is gone, and the ledger holds its fingerprint under its URI.  Expiry records are never dropped or rewritten, and
  an unconfirmed run changes nothing.  A run that succeeds reports exactly the number of files it removed.
\<close>

theorem prune_safe:
  assumes "wf_root root"
  shows "case apply_prune io confirm cutoff root of (r, root') \<Rightarrow>
    (\<forall>s f. stored root' s f = stored root s f \<or>
       (\<exists>file a x. stored root s f = Some file \<and> stored root' s f = None \<and> regular file \<and>
          fp_mtime (bf_fp file) < cutoff \<and> exact_address (blob_uri a) = Inr a \<and> ba_session a = s \<and> blob_filename a = f \<and>
          tomb_id (br_ledger root') (blob_uri a) = Some (bf_fp file, x))) \<and>
    (\<forall>u x. tomb_id (br_ledger root) u = Some x \<longrightarrow> tomb_id (br_ledger root') u = Some x) \<and>
    (\<not> confirm (preview_root cutoff root) \<longrightarrow> root' = root \<and> r = Inl RuntimeError) \<and>
    (\<forall>rep. r = Inr rep \<longrightarrow> rp_deleted rep + file_count root' = file_count root)"
proof -
  obtain r root' where a: "apply_prune io confirm cutoff root = (r, root')" by (rule prod.exhaust)
  obtain rep where p: "prunes_to (older cutoff) (root, Report cutoff) (root', rep)" and x: "\<forall>x. r = Inr x \<longrightarrow> rep = x"
    using apply_prune_to [OF a] by blast
  have "\<not> confirm (preview_root cutoff root) \<longrightarrow> root' = root \<and> r = Inl RuntimeError"
    using a by (auto simp: apply_prune_def)
  moreover have "\<forall>rep. r = Inr rep \<longrightarrow> rp_deleted rep + file_count root' = file_count root"
    using p x assms by (auto simp: prunes_to_def Report_def)
  ultimately show ?thesis using p by (simp add: a prunes_to_def pruned_def more_tombs_def older_def)
qed

text \<open>
  C34 [blob_lifecycle]: a blob that was written reads back as the value, and no other file changed.  After any later
  prune run it still reads back, or it reads as expired, never as missing; and then writing it again, for instance
  on a replay of its event, leaves every file as it is and answers with the same URI.
\<close>

theorem blob_lifecycle:
  assumes sha: "hexdigest_ok sha" and json: "\<And>t. dumps v = Inr t \<Longrightarrow> loads t = Inr v"
    and w: "write_blob sha dumps io tokens sid key v root = (Inr u, root1)"
    and fresh: "dget (br_ledger root) u = None"
    and pr: "apply_prune pio confirm cutoff root1 = (r, root2)"
  shows "read_blob sha loads root1 u = Inr v \<and>
    (\<forall>a s f. write_address sha sid key = Inr a \<and> (s, f) \<noteq> (ba_session a, blob_filename a) \<longrightarrow>
       stored root1 s f = stored root s f) \<and>
    (read_blob sha loads root2 u = Inr v \<or>
     read_blob sha loads root2 u = Inl (BlobExpiredError u) \<and>
       (\<forall>io' tokens' v'. write_blob sha dumps io' tokens' sid key v' root2 = (Inr u, root2)))"
proof -
  obtain a where a: "write_address sha sid key = Inr a"
    using w by (cases "write_address sha sid key") (auto simp: write_blob_def)
  obtain legacy where l: "legacy_addresses sha sid key = Inr legacy"
    using w a by (cases "legacy_addresses sha sid key") (auto simp: write_blob_def)
  obtain data fp blocks where u: "u = blob_uri a" and d: "dumps v = Inr data" "is_blob_dir root1 (ba_session a)"
    and s: "stored root1 (ba_session a) (blob_filename a) =
       Some \<lparr>bf_kind = Regular, bf_text = data, bf_fp = fp, bf_blocks = blocks\<rparr>"
    and o: "\<forall>s f. (s, f) \<noteq> (ba_session a, blob_filename a) \<longrightarrow> stored root1 s f = stored root s f"
    using write_blob_fresh [OF a w fresh] by blast
  have live: "read_blob sha loads x u = Inr v"
    if "stored x (ba_session a) (blob_filename a) = stored root1 (ba_session a) (blob_filename a)" for x
    using read_blob_stored [OF sha a, of x] that s json [OF d(1)] by (simp add: u regular_def)
  obtain rep where p: "pruned (older cutoff) (br_ledger root2) root1 root2"
    using apply_prune_to [OF pr] by (auto simp: prunes_to_def)
  have "read_blob sha loads root2 u = Inl (BlobExpiredError u) \<and>
       (\<forall>io' tokens' v'. write_blob sha dumps io' tokens' sid key v' root2 = (Inr u, root2))"
    if ne: "stored root2 (ba_session a) (blob_filename a) \<noteq> stored root1 (ba_session a) (blob_filename a)"
  proof -
    obtain b x where g: "stored root2 (ba_session a) (blob_filename a) = None" and b: "ba_session b = ba_session a"
      "blob_filename b = blob_filename a" "tomb_id (br_ledger root2) (blob_uri b) = Some x" "exact_address (blob_uri b) = Inr b"
      using p ne unfolding pruned_def by (metis (no_types, lifting))
    have "address_from_filename (ba_session a) (blob_filename a) = Inr (Some b)"
      using address_from_filename_own [OF exact_address_valid [OF b(4)]] unfolding b(1,2) .
    then have "b = a" unfolding address_from_filename_own [OF write_address_stable(1) [OF sha a]] by simp
    then have x: "dget (br_ledger root2) (blob_uri a) \<noteq> None" using b(3) by (auto simp: tomb_id_def)
    have "is_blob_dir root2 (ba_session a)" using p d(2) by (simp add: pruned_def)
    from read_blob_expired [OF sha a this g x] write_blob_blocked [OF sha a x l] show ?thesis by (simp add: u)
  qed
  with live o a show ?thesis by auto
qed

section \<open>Witnesses\<close>

definition sample_file :: bfile where
  "sample_file = \<lparr>bf_kind = Regular, bf_text = ''[]'', bf_fp = (1, 7, 2, 5, 5), bf_blocks = 8\<rparr>"

definition sample_root :: blob_root where
  "sample_root = \<lparr>br_sessions = [(''s'', BlobDir [(''k.json'', sample_file)])], br_ledger = []\<rparr>"

definition calm_io :: batch_io where
  "calm_io = \<lparr>bi_unlink = (\<lambda>_. None), bi_sync = None, bi_now = (\<lambda>_. 100)\<rparr>"

lemma sample_prune: "stored (snd (apply_prune (\<lambda>_. calm_io) (\<lambda>_. True) 10 sample_root)) ''s'' ''k.json'' = None"
  by code_simp

theorem prune_safe_witness:
  "\<exists>a x. tomb_id (br_ledger (snd (apply_prune (\<lambda>_. calm_io) (\<lambda>_. True) 10 sample_root))) (blob_uri a) = Some ((1, 7, 2, 5, 5), x)"
proof -
  have "wf_root sample_root" by (simp add: wf_root_def sample_root_def wf_sess_def)
  from prune_safe [OF this, where io = "\<lambda>_. calm_io" and confirm = "\<lambda>_. True" and cutoff = 10]
  have "stored (snd (apply_prune (\<lambda>_. calm_io) (\<lambda>_. True) 10 sample_root)) ''s'' ''k.json'' = stored sample_root ''s'' ''k.json'' \<or>
    (\<exists>file a x. stored sample_root ''s'' ''k.json'' = Some file \<and>
       tomb_id (br_ledger (snd (apply_prune (\<lambda>_. calm_io) (\<lambda>_. True) 10 sample_root))) (blob_uri a) = Some (bf_fp file, x))"
    unfolding case_prod_unfold by blast
  then show ?thesis unfolding sample_prune by (auto simp: stored_def sample_root_def sample_file_def)
qed

abbreviation sample_write :: "blob_root \<Rightarrow> str res \<times> blob_root" where
  "sample_write \<equiv> write_blob (\<lambda>_. replicate 64 (CHR ''0'')) (\<lambda>_. Inr ''[]'') (WriteOk (1, 7, 2, 5, 5) 8) [''abcdefgh''] ''s'' ''k'' (PList [])"

theorem blob_lifecycle_witness:
  "read_blob (\<lambda>_. replicate 64 (CHR ''0'')) (\<lambda>_. Inr (PList []))
     (snd (apply_prune (\<lambda>_. calm_io) (\<lambda>_. True) 10 sample_root)) ''ci-blob://s/k'' = Inl (BlobExpiredError ''ci-blob://s/k'')"
proof -
  have w: "sample_write \<lparr>br_sessions = [], br_ledger = []\<rparr> = (Inr ''ci-blob://s/k'', sample_root)" by code_simp
  obtain r root2 where p: "apply_prune (\<lambda>_. calm_io) (\<lambda>_. True) 10 sample_root = (r, root2)" by (rule prod.exhaust)
  have "read_blob (\<lambda>_. replicate 64 (CHR ''0'')) (\<lambda>_. Inr (PList []))
     (snd (apply_prune (\<lambda>_. calm_io) (\<lambda>_. True) 10 sample_root)) ''ci-blob://s/k'' \<noteq> Inr (PList [])" by code_simp
  with blob_lifecycle [OF sample_sha _ w _ p, where loads = "\<lambda>_. Inr (PList [])"] p show ?thesis by simp
qed

end
