(* ===== verification/RetentionJobs.thy ===== *)
theory RetentionJobs
  imports BlobSpec
begin

text \<open>
  \<^verbatim>\<open>RetentionService\<close> of \<^verbatim>\<open>retention_service.py\<close>: the one online prune job of a blob root.  A job is previewed,
  confirmed by an explicit start, runs in small batches between which requests are served, and ends in a
  terminal state; a snapshot of it is kept on disk.  The job task is cut at its awaits: each constructor of
  \<^verbatim>\<open>task\<close> is a place where it can be suspended, and each function below is what runs up to the next one.  The
  clock, the outcome of the disk writes and the batches a directory scan yields are parameters.
\<close>

section \<open>State\<close>

datatype jstate = Previewing | Ready | Running | Cancelling | Completed | Cancelled | Failed | Interrupted

definition TERMINAL :: "jstate set" where
  "TERMINAL = {Completed, Cancelled, Failed, Interrupted}"

record job =
  jb_id :: str
  jb_state :: jstate
  jb_confirmed :: bool
  jb_cutoff :: int
  jb_started :: int
  jb_error :: "exc option"
  jb_phase :: str
  jb_windows :: nat
  jb_rows :: nat
  jb_expires :: int

record snapshot =
  sn_job :: job
  sn_report :: report

record outcome =
  oc_state :: jstate
  oc_error :: "exc option"
  oc_phase :: str

datatype task =
    TDone | TPreview | TCheckpoint | TLedger | TRecovery str "candidate list" bool | TScan
  | TBatch bool "candidate list" task | TSave task | TFinal outcome

record service =
  sv_job :: "job option"
  sv_report :: report
  sv_task :: task
  sv_cancel :: bool
  sv_accepting :: bool
  sv_deadline :: int
  sv_wall :: int

text \<open>The service, the blob files, and the snapshot file.\<close>

record world =
  w_svc :: service
  w_root :: blob_root
  w_snap :: "snapshot option"

datatype svc_exc = JobConflict | JobNotFound | SvcExc exc

definition on_job :: "(job \<Rightarrow> job) \<Rightarrow> service \<Rightarrow> service" where
  "on_job f sv = sv\<lparr>sv_job := map_option f (sv_job sv)\<rparr>"

definition RetentionService :: service where
  "RetentionService = \<lparr>sv_job = None, sv_report = Report 0, sv_task = TDone, sv_cancel = False,
     sv_accepting = True, sv_deadline = 0, sv_wall = 0\<rparr>"

section \<open>Requests\<close>

definition status :: "str option \<Rightarrow> service \<Rightarrow> svc_exc + job" where
  "status job_id sv =
    (case sv_job sv of
       None \<Rightarrow> Inl JobNotFound
     | Some j \<Rightarrow> if job_id \<noteq> None \<and> job_id \<noteq> Some (jb_id j) then Inl JobNotFound else Inr j)"

definition start_preview :: "str \<Rightarrow> int \<Rightarrow> str \<Rightarrow> service \<Rightarrow> (svc_exc + job) \<times> service" where
  "start_preview older_than now uuid sv =
    (if \<not> sv_accepting sv then (Inl JobConflict, sv)
     else if sv_task sv \<noteq> TDone \<or> (case sv_job sv of None \<Rightarrow> False | Some j \<Rightarrow> jb_state j \<notin> TERMINAL)
       then (Inl JobConflict, sv)
     else case bind_res (duration_ns older_than) (\<lambda>age. cutoff_for age now) of
       Inl e \<Rightarrow> (Inl (SvcExc e), sv)
     | Inr cutoff \<Rightarrow>
         let j = \<lparr>jb_id = uuid, jb_state = Previewing, jb_confirmed = False, jb_cutoff = cutoff, jb_started = now,
                  jb_error = None, jb_phase = ''scan'', jb_windows = 0, jb_rows = 0, jb_expires = 0\<rparr>
         in (Inr j, sv\<lparr>sv_job := Some j, sv_report := Report cutoff, sv_wall := now, sv_cancel := False,
                        sv_task := TPreview\<rparr>))"

text \<open>\<^verbatim>\<open>start\<close> reads the wall clock twice and the monotonic clock once.\<close>

definition start_job :: "str \<Rightarrow> str \<Rightarrow> int \<Rightarrow> int \<Rightarrow> int \<Rightarrow> service \<Rightarrow> (svc_exc + job) \<times> service" where
  "start_job job_id confirmation now mclock now' sv =
    (case status (Some job_id) sv of
       Inl e \<Rightarrow> (Inl e, sv)
     | Inr j \<Rightarrow>
         if \<not> sv_accepting sv \<or> jb_state j \<noteq> Ready then (Inl JobConflict, sv)
         else if confirmation \<noteq> ''prune'' then (Inl JobConflict, sv)
         else if now < sv_wall sv
           then (Inl JobConflict, on_job (\<lambda>j. j\<lparr>jb_state := Failed, jb_error := Some RuntimeError\<rparr>) sv)
         else let sv = sv\<lparr>sv_wall := now\<rparr> in
           if sv_deadline sv \<le> mclock \<or> jb_expires j \<le> now' then (Inl JobConflict, sv)
           else let j = j\<lparr>jb_confirmed := True, jb_state := Running, jb_phase := ''checkpoint''\<rparr>
                in (Inr j, sv\<lparr>sv_job := Some j, sv_task := TCheckpoint\<rparr>))"

fun in_final :: "task \<Rightarrow> bool" where
  "in_final (TFinal _) = True"
| "in_final _ = False"

definition cancel_job :: "str \<Rightarrow> service \<Rightarrow> (svc_exc + job) \<times> service" where
  "cancel_job job_id sv =
    (case status (Some job_id) sv of
       Inl e \<Rightarrow> (Inl e, sv)
     | Inr j \<Rightarrow>
         if jb_state j \<notin> TERMINAL \<and> \<not> in_final (sv_task sv)
         then let j' = j\<lparr>jb_state := (if jb_state j = Ready then Cancelled else Cancelling)\<rparr>
              in (Inr j', sv\<lparr>sv_cancel := True, sv_job := Some j'\<rparr>)
         else (Inr j, sv))"

text \<open>\<^verbatim>\<open>stop\<close> refuses further jobs and cancels the current one.\<close>

definition stop_service :: "service \<Rightarrow> service" where
  "stop_service sv =
    (let sv = sv\<lparr>sv_accepting := False\<rparr> in
     case sv_job sv of None \<Rightarrow> sv | Some j \<Rightarrow> snd (cancel_job (jb_id j) sv))"

section \<open>The job task\<close>

definition clock :: "int \<Rightarrow> service \<Rightarrow> unit res \<times> service" where
  "clock now sv = (if now < sv_wall sv then (Inl RuntimeError, sv) else (Inr (), sv\<lparr>sv_wall := now\<rparr>))"

text \<open>\<^verbatim>\<open>_preview\<close>: the scan touches nothing but the report; it ends with the job ready, cancelled or failed.\<close>

definition preview_end :: "exc option \<Rightarrow> report \<Rightarrow> int \<Rightarrow> int \<Rightarrow> service \<Rightarrow> service" where
  "preview_end failure rep mclock now sv =
    (let sv = sv\<lparr>sv_report := rep, sv_task := TDone\<rparr> in
     case failure of
       Some e \<Rightarrow> on_job (\<lambda>j. j\<lparr>jb_state := Failed, jb_error := Some e\<rparr>) sv
     | None \<Rightarrow>
         if sv_cancel sv then on_job (\<lambda>j. j\<lparr>jb_state := Cancelled\<rparr>) sv
         else on_job (\<lambda>j. j\<lparr>jb_state := Ready, jb_phase := ''ready'', jb_expires := now + 900 * 10 ^ 9\<rparr>)
                (sv\<lparr>sv_deadline := mclock + 900\<rparr>))"

text \<open>\<^verbatim>\<open>_save\<close>: the snapshot is replaced as a whole or, when the write fails, stays what it was.\<close>

definition save_job :: "nat option \<Rightarrow> (job \<Rightarrow> job) \<Rightarrow> world \<Rightarrow> unit res \<times> world" where
  "save_job fails f w =
    (case (fails, sv_job (w_svc w)) of
       (Some e, _) \<Rightarrow> (Inl (OSError e), w)
     | (None, None) \<Rightarrow> (Inl RuntimeError, w)
     | (None, Some j) \<Rightarrow> (Inr (), w\<lparr>w_snap := Some \<lparr>sn_job = f j, sn_report = sv_report (w_svc w)\<rparr>\<rparr>))"

definition svc :: "(service \<Rightarrow> service) \<Rightarrow> world \<Rightarrow> world" where
  "svc f w = w\<lparr>w_svc := f (w_svc w)\<rparr>"

text \<open>The end of the \<^verbatim>\<open>try\<close> block of \<^verbatim>\<open>_apply\<close>: the outcome is fixed and waits for its checkpoint.\<close>

definition conclude :: "jstate \<Rightarrow> exc option \<Rightarrow> str option \<Rightarrow> service \<Rightarrow> service" where
  "conclude st err ph sv =
    (case sv_job sv of
       None \<Rightarrow> sv
     | Some j \<Rightarrow>
         sv\<lparr>sv_task := TFinal \<lparr>oc_state = st, oc_error = err,
              oc_phase = (case ph of None \<Rightarrow> jb_phase j | Some p \<Rightarrow> p)\<rparr>,
            sv_job := Some (j\<lparr>jb_phase := ''finalizing''\<rparr>)\<rparr>)"

definition job_failed :: "exc \<Rightarrow> service \<Rightarrow> service" where
  "job_failed e = conclude Failed (Some e) None"

definition job_finished :: "int \<Rightarrow> service \<Rightarrow> service" where
  "job_finished now sv =
    (case clock now sv of
       (Inl e, sv) \<Rightarrow> job_failed e sv
     | (Inr _, sv) \<Rightarrow> conclude (if sv_cancel sv then Cancelled else Completed) None (Some ''finished'') sv)"

definition merge_outcome :: "outcome \<Rightarrow> job \<Rightarrow> job" where
  "merge_outcome oc j =
    j\<lparr>jb_state := oc_state oc, jb_phase := oc_phase oc,
      jb_error := (case oc_error oc of None \<Rightarrow> jb_error j | Some e \<Rightarrow> Some e)\<rparr>"

definition checkpoint :: "nat option \<Rightarrow> world \<Rightarrow> world" where
  "checkpoint save_fails w =
    (case save_job save_fails id w of
       (Inl e, w) \<Rightarrow> svc (job_failed e) w
     | (Inr _, w) \<Rightarrow>
         svc (\<lambda>sv. case sv_job sv of
                     None \<Rightarrow> sv
                   | Some j \<Rightarrow> sv\<lparr>sv_report := Report (jb_cutoff j), sv_task := TLedger\<rparr>) w)"

definition open_ledger :: "exc option \<Rightarrow> world \<Rightarrow> world" where
  "open_ledger failure w =
    (case failure of
       Some e \<Rightarrow> svc (job_failed e) w
     | None \<Rightarrow> svc (\<lambda>sv. on_job (\<lambda>j. j\<lparr>jb_phase := ''recovery''\<rparr>) (sv\<lparr>sv_task := TRecovery [] [] True\<rparr>)) w)"

text \<open>\<^verbatim>\<open>_batch\<close>: the clock is checked; then the work is done unless a cancellation came first; then the snapshot is
  saved.  The last component of a suspended batch is where the task goes on.\<close>

definition begin_batch :: "int \<Rightarrow> bool \<Rightarrow> candidate list \<Rightarrow> task \<Rightarrow> world \<Rightarrow> world" where
  "begin_batch now rec items next_task w =
    (case clock now (w_svc w) of
       (Inl e, sv) \<Rightarrow> w\<lparr>w_svc := job_failed e sv\<rparr>
     | (Inr _, sv) \<Rightarrow> w\<lparr>w_svc := sv\<lparr>sv_task := TBatch rec items next_task\<rparr>\<rparr>)"

definition run_batch :: "batch_io \<Rightarrow> bool \<Rightarrow> candidate list \<Rightarrow> task \<Rightarrow> world \<Rightarrow> world" where
  "run_batch io rec items next_task w =
    (let sv = w_svc w in
     if sv_cancel sv then w\<lparr>w_svc := sv\<lparr>sv_task := TSave next_task\<rparr>\<rparr>
     else let (r, root, rep) = apply_batch io rec items (w_root w, sv_report sv);
              sv = sv\<lparr>sv_report := rep\<rparr>
          in w\<lparr>w_root := root,
               w_svc := (case r of Some e \<Rightarrow> job_failed e sv | None \<Rightarrow> sv\<lparr>sv_task := TSave next_task\<rparr>)\<rparr>)"

definition save_batch :: "nat option \<Rightarrow> task \<Rightarrow> world \<Rightarrow> world" where
  "save_batch save_fails next_task w =
    (case save_job save_fails id w of
       (Inl e, w) \<Rightarrow> svc (job_failed e) w
     | (Inr _, w) \<Rightarrow> svc (\<lambda>sv. sv\<lparr>sv_task := next_task\<rparr>) w)"

definition recovery_step :: "int \<Rightarrow> str \<Rightarrow> candidate list \<Rightarrow> bool \<Rightarrow> world \<Rightarrow> world" where
  "recovery_step now after items pages w =
    (if sv_cancel (w_svc w) \<or> items = [] \<and> \<not> pages
     then svc (\<lambda>sv. on_job (\<lambda>j. j\<lparr>jb_phase := ''scan''\<rparr>) (sv\<lparr>sv_task := TScan\<rparr>)) w
     else if items = [] then
       (case (clock now (w_svc w), sv_job (w_svc w)) of
          ((Inl e, sv), _) \<Rightarrow> w\<lparr>w_svc := job_failed e sv\<rparr>
        | ((Inr _, sv), None) \<Rightarrow> w
        | ((Inr _, sv), Some j) \<Rightarrow>
            (let (after', items', count) = recovery_page (w_root w) after (jb_cutoff j) (jb_started j)
             in w\<lparr>w_svc := on_job (\<lambda>j. j\<lparr>jb_rows := jb_rows j + count\<rparr>)
                    (sv\<lparr>sv_task := TRecovery after' items' (512 \<le> count)\<rparr>)\<rparr>))
     else begin_batch now True (take 32 items) (TRecovery after (drop 32 items) pages) w)"

text \<open>What \<^verbatim>\<open>scan_window\<close> may yield: files of the moment that pass its tests.\<close>

definition window_item :: "job \<Rightarrow> blob_root \<Rightarrow> candidate \<Rightarrow> bool" where
  "window_item j root item =
    (case exact_address (ca_uri item) of
       Inl _ \<Rightarrow> False
     | Inr a \<Rightarrow>
         (case blobs root (ba_session a) of
            Inl _ \<Rightarrow> False
          | Inr d \<Rightarrow>
              (case dget d (blob_filename a) of
                 None \<Rightarrow> False
               | Some f \<Rightarrow>
                   regular f \<and> bf_fp f = ca_fp item \<and> ca_allocated item = bf_blocks f * 512 \<and>
                   fp_mtime (bf_fp f) < jb_cutoff j \<and> fp_ctime (bf_fp f) \<le> jb_started j)))"

definition scan_step :: "int \<Rightarrow> int \<Rightarrow> candidate list \<Rightarrow> report \<Rightarrow> bool \<Rightarrow> world \<Rightarrow> world" where
  "scan_step now now' items rep finished w =
    (if sv_cancel (w_svc w) \<or> finished then svc (job_finished now) w
     else case clock now (w_svc w) of
       (Inl e, sv) \<Rightarrow> w\<lparr>w_svc := job_failed e sv\<rparr>
     | (Inr _, sv) \<Rightarrow>
         (let w = w\<lparr>w_svc := on_job (\<lambda>j. j\<lparr>jb_windows := jb_windows j + 1\<rparr>) (sv\<lparr>sv_report := rep\<rparr>)\<rparr>
          in if items \<noteq> [] then begin_batch now' False items TScan w else w))"

definition finalize :: "nat option \<Rightarrow> outcome \<Rightarrow> world \<Rightarrow> world" where
  "finalize save_fails oc w =
    (case save_job save_fails (merge_outcome oc) w of
       (Inr _, w) \<Rightarrow> svc (\<lambda>sv. on_job (merge_outcome oc) (sv\<lparr>sv_task := TDone\<rparr>)) w
     | (Inl e, w) \<Rightarrow>
         svc (\<lambda>sv. on_job (merge_outcome (oc\<lparr>oc_state := Failed, oc_error := Some e\<rparr>)) (sv\<lparr>sv_task := TDone\<rparr>)) w)"

text \<open>\<^verbatim>\<open>_load\<close> on the snapshot this root's own service left.  A job that was under way is marked interrupted on
  disk; a service whose mark cannot be saved does not open.\<close>

definition load_service :: "nat option \<Rightarrow> world \<Rightarrow> world" where
  "load_service save_fails w =
    (case w_snap w of
       None \<Rightarrow> w\<lparr>w_svc := RetentionService\<rparr>
     | Some sn \<Rightarrow>
         if jb_state (sn_job sn) \<in> TERMINAL
         then w\<lparr>w_svc := RetentionService\<lparr>sv_job := Some (sn_job sn), sv_report := sn_report sn\<rparr>\<rparr>
         else let j = (sn_job sn)\<lparr>jb_state := Interrupted, jb_error := Some RuntimeError\<rparr>
              in (case save_job save_fails id
                         (w\<lparr>w_svc := RetentionService\<lparr>sv_job := Some j, sv_report := sn_report sn\<rparr>\<rparr>) of
                    (Inr _, w) \<Rightarrow> w
                  | (Inl e, w) \<Rightarrow> w\<lparr>w_svc := RetentionService\<lparr>sv_accepting := False\<rparr>\<rparr>))"

section \<open>The system\<close>

text \<open>Requests, the job task and a restart, in any order.\<close>

inductive job_step :: "world \<Rightarrow> world \<Rightarrow> bool" where
  preview: "job_step w (svc (\<lambda>sv. snd (start_preview older_than now uuid sv)) w)"
| previewed: "sv_task (w_svc w) = TPreview \<Longrightarrow> rp_cutoff rep = rp_cutoff (sv_report (w_svc w)) \<Longrightarrow>
    job_step w (svc (preview_end failure rep mclock now) w)"
| start: "job_step w (svc (\<lambda>sv. snd (start_job job_id confirmation now mclock now' sv)) w)"
| cancel: "job_step w (svc (\<lambda>sv. snd (cancel_job job_id sv)) w)"
| stop: "job_step w (svc stop_service w)"
| checkpointed: "sv_task (w_svc w) = TCheckpoint \<Longrightarrow> job_step w (checkpoint save_fails w)"
| opened: "sv_task (w_svc w) = TLedger \<Longrightarrow> job_step w (open_ledger failure w)"
| recovered: "sv_task (w_svc w) = TRecovery after items pages \<Longrightarrow>
    job_step w (recovery_step now after items pages w)"
| scanned: "sv_task (w_svc w) = TScan \<Longrightarrow> sv_job (w_svc w) = Some j \<Longrightarrow> \<forall>item\<in>set items. window_item j (w_root w) item \<Longrightarrow>
    rp_cutoff rep = rp_cutoff (sv_report (w_svc w)) \<Longrightarrow>
    job_step w (scan_step now now' items rep finished w)"
| batched: "sv_task (w_svc w) = TBatch rec items next_task \<Longrightarrow> job_step w (run_batch io rec items next_task w)"
| saved: "sv_task (w_svc w) = TSave next_task \<Longrightarrow> job_step w (save_batch save_fails next_task w)"
| finalized: "sv_task (w_svc w) = TFinal oc \<Longrightarrow> job_step w (finalize save_fails oc w)"
| restarted: "job_step w (load_service save_fails w)"

text \<open>Meanwhile events are processed and sessions deleted.\<close>

inductive store_step :: "world \<Rightarrow> world \<Rightarrow> bool" where
  wrote: "store_step w (w\<lparr>w_root := snd (write_blob sha dumps wio tokens sid key v (w_root w))\<rparr>)"
| dropped: "store_step w (w\<lparr>w_root := snd (delete_session_blobs sha sid (w_root w))\<rparr>)"

definition fresh_world :: "blob_root \<Rightarrow> world" where
  "fresh_world root = \<lparr>w_svc = RetentionService, w_root = root, w_snap = None\<rparr>"

inductive world_step :: "world \<Rightarrow> world \<Rightarrow> bool" where
  of_job: "job_step w w' \<Longrightarrow> world_step w w'"
| of_store: "store_step w w' \<Longrightarrow> world_step w w'"

definition job_reachable :: "world \<Rightarrow> bool" where
  "job_reachable w = (\<exists>root. world_step\<^sup>*\<^sup>* (fresh_world root) w)"

section \<open>Consent\<close>

text \<open>What a suspended task relies on: its job is confirmed and not over, and from the first checkpoint on the
  snapshot on disk belongs to it.\<close>

definition live_job :: "service \<Rightarrow> job \<Rightarrow> bool" where
  "live_job sv j = (sv_job sv = Some j \<and> jb_confirmed j \<and> (jb_state j = Running \<or> jb_state j = Cancelling \<and> sv_cancel sv))"

definition covered :: "world \<Rightarrow> job \<Rightarrow> bool" where
  "covered w j = (rp_cutoff (sv_report (w_svc w)) = jb_cutoff j \<and>
     (\<exists>sn. w_snap w = Some sn \<and> jb_id (sn_job sn) = jb_id j \<and> jb_confirmed (sn_job sn) \<and> jb_cutoff (sn_job sn) = jb_cutoff j))"

definition consented :: "job \<Rightarrow> fprint \<Rightarrow> bool" where
  "consented j fp = (fp_mtime fp < jb_cutoff j \<and> fp_ctime fp \<le> jb_started j)"

fun task_ok :: "job \<Rightarrow> task \<Rightarrow> bool" where
  "task_ok j (TRecovery after items pages) = list_all (\<lambda>i. consented j (ca_fp i)) items"
| "task_ok j TScan = True"
| "task_ok j (TBatch rec items next_task) =
    (list_all (\<lambda>i. consented j (ca_fp i)) items \<and> task_ok j next_task)"
| "task_ok j (TSave next_task) = task_ok j next_task"
| "task_ok j TLedger = True"
| "task_ok j _ = False"

definition job_inv :: "world \<Rightarrow> bool" where
  "job_inv w = (let sv = w_svc w in case sv_task sv of
       TDone \<Rightarrow> (case sv_job sv of None \<Rightarrow> True | Some j \<Rightarrow> jb_state j \<in> TERMINAL \<union> {Ready} \<and>
                  (jb_state j = Completed \<longrightarrow> (\<exists>sn. w_snap w = Some sn \<and> sn_job sn = j)))
     | TPreview \<Rightarrow> (\<exists>j. sv_job sv = Some j \<and> jb_state j \<in> {Previewing, Cancelling})
     | TCheckpoint \<Rightarrow> (\<exists>j. live_job sv j)
     | TFinal oc \<Rightarrow> oc_state oc \<in> TERMINAL \<and> (\<exists>j. live_job sv j)
     | t \<Rightarrow> (\<exists>j. live_job sv j \<and> covered w j \<and> task_ok j t))"

lemma consented_upd [simp]:
  "consented (j\<lparr>jb_state := st\<rparr>) = consented j" "consented (j\<lparr>jb_phase := ph\<rparr>) = consented j"
  "consented (j\<lparr>jb_rows := n\<rparr>) = consented j" "consented (j\<lparr>jb_windows := n\<rparr>) = consented j"
  by (simp_all add: consented_def fun_eq_iff)

lemma task_ok_cong: "consented j' = consented j \<Longrightarrow> task_ok j' t = task_ok j t"
  by (induction t) simp_all

lemmas task_ok_upd [simp] = consented_upd [THEN task_ok_cong]

lemma admit_items_ready:
  "admit_items rec items root (ready, rep) = (r, ready', rep') \<Longrightarrow>
    set ready' \<subseteq> set ready \<union> set items \<and> rp_cutoff rep' = rp_cutoff rep \<and> rp_deleted rep' = rp_deleted rep"
proof (induction items arbitrary: ready rep)
  case (Cons item items)
  consider (stop) "ready' = ready" "rep' = rep"
    | (take) "admit_items rec items root (ready @ [item], rep) = (r, ready', rep')"
    | (skip) "admit_items rec items root (ready, skip1 rep) = (r, ready', rep')"
    | (change) "admit_items rec items root (ready, change1 rep) = (r, ready', rep')"
    using Cons.prems by (auto split: if_splits sum.splits bool.splits)
  then show ?case by cases (use Cons.IH in fastforce)+
qed simp

lemma apply_batch_to:
  assumes b: "apply_batch io rec items s = (r, s')" and ok: "\<forall>item\<in>set items. P (ca_fp item)"
  shows "prunes_to P s s'"
proof (cases "64 < length items")
  case True
  with b show ?thesis by (simp add: apply_batch_def)
next
  case False
  obtain q ready rep where a: "admit_items rec items (fst s) ([], snd s) = (q, ready, rep)" by (metis prod.exhaust)
  have p: "set ready \<subseteq> set items" "rp_cutoff rep = rp_cutoff (snd s)" "rp_deleted rep = rp_deleted (snd s)"
    using admit_items_ready [OF a] by simp_all
  show ?thesis
  proof (cases q)
    case (Some e)
    with b a False p show ?thesis by (auto simp: apply_batch_def prunes_to_def)
  next
    case None
    define l where "l = (if rec then br_ledger (fst s) else journal (bi_now io) ready (br_ledger (fst s)))"
    have u: "unlink_batch io ready ((fst s)\<lparr>br_ledger := l\<rparr>, rep) = (r, s')"
      unfolding l_def using b a False None by (simp add: apply_batch_def Let_def)
    have "prunes_to P ((fst s)\<lparr>br_ledger := l\<rparr>, rep) s'" by (rule unlink_batch_to [OF u]) (use p(1) ok in blast)
    moreover have "more_tombs (br_ledger (fst s)) l" by (simp add: l_def more_tombs_journal)
    ultimately show ?thesis by (rule prunes_to_journal) (use p in simp_all)
  qed
qed

lemma live_job_ex:
  "Ex (live_job sv) = (\<exists>j. sv_job sv = Some j \<and> jb_confirmed j \<and> (jb_state j = Running \<or> jb_state j = Cancelling \<and> sv_cancel sv))"
  by (auto simp: live_job_def)

lemmas svc_defs = job_inv_def Let_def live_job_def live_job_ex covered_def TERMINAL_def svc_def on_job_def

lemma inv_preview: "job_inv w \<Longrightarrow> job_inv (svc (\<lambda>sv. snd (start_preview older_than now uuid sv)) w)"
proof -
  assume i: "job_inv w"
  let ?sv = "snd (start_preview older_than now uuid (w_svc w))"
  have "?sv = w_svc w \<or> sv_task ?sv = TPreview \<and> (\<exists>j. sv_job ?sv = Some j \<and> jb_state j = Previewing)"
    by (simp add: start_preview_def Let_def split: sum.splits option.splits)
  then show ?thesis
  proof
    assume "?sv = w_svc w"
    then have "svc (\<lambda>sv. snd (start_preview older_than now uuid sv)) w = w" by (simp add: svc_def)
    with i show ?thesis by simp
  qed (auto simp: job_inv_def svc_def)
qed

lemma inv_previewed: "job_inv w \<Longrightarrow> sv_task (w_svc w) = TPreview \<Longrightarrow> job_inv (svc (preview_end failure rep mclock now) w)"
  by (auto simp: preview_end_def svc_defs split: option.splits)

lemma inv_start: "job_inv w \<Longrightarrow> job_inv (svc (\<lambda>sv. snd (start_job job_id confirmation now mclock now' sv)) w)"
  by (cases "sv_task (w_svc w)") (auto simp: start_job_def status_def svc_defs split: sum.splits option.splits)

lemma cancel_cases:
  obtains (same) "snd (cancel_job job_id sv) = sv"
  | (cancelled) j st where "sv_job sv = Some j" "jb_state j \<notin> TERMINAL" "\<not> in_final (sv_task sv)"
      "st = (if jb_state j = Ready then Cancelled else Cancelling)"
      "snd (cancel_job job_id sv) = sv\<lparr>sv_cancel := True, sv_job := Some (j\<lparr>jb_state := st\<rparr>)\<rparr>"
proof (cases "\<exists>j. status (Some job_id) sv = Inr j \<and> jb_state j \<notin> TERMINAL \<and> \<not> in_final (sv_task sv)")
  case True
  then obtain j where j: "status (Some job_id) sv = Inr j" "jb_state j \<notin> TERMINAL" "\<not> in_final (sv_task sv)" by blast
  then have "sv_job sv = Some j" by (auto simp: status_def split: option.splits if_splits)
  with j show thesis by (intro cancelled [of j]) (simp_all add: cancel_job_def Let_def)
next
  case False
  then show thesis by (intro same) (auto simp: cancel_job_def split: sum.splits)
qed

lemma inv_cancel: "job_inv w \<Longrightarrow> job_inv (svc (\<lambda>sv. snd (cancel_job job_id sv)) w)"
proof (cases rule: cancel_cases [of job_id "w_svc w"])
  case same
  then have "svc (\<lambda>sv. snd (cancel_job job_id sv)) w = w" by (simp add: svc_def)
  then show "job_inv w \<Longrightarrow> job_inv (svc (\<lambda>sv. snd (cancel_job job_id sv)) w)" by simp
next
  case (cancelled j st)
  have ok: "task_ok (j\<lparr>jb_state := st\<rparr>) t = task_ok j t" for t by (rule task_ok_cong) simp_all
  assume "job_inv w"
  then show ?thesis
    by (cases "sv_task (w_svc w)") (use cancelled ok in \<open>auto simp: svc_defs\<close>)
qed

lemma inv_stop: "job_inv w \<Longrightarrow> job_inv (svc stop_service w)"
proof -
  assume "job_inv w"
  then have a: "job_inv (svc (\<lambda>sv. sv\<lparr>sv_accepting := False\<rparr>) w)"
    by (cases "sv_task (w_svc w)") (auto simp: svc_defs split: option.splits)
  show ?thesis
  proof (cases "sv_job (w_svc w)")
    case None
    with a show ?thesis by (simp add: stop_service_def svc_def)
  next
    case (Some j)
    with inv_cancel [OF a, of "jb_id j"] show ?thesis by (simp add: stop_service_def svc_def)
  qed
qed

lemma conclude_inv:
  assumes "live_job (w_svc w) j" and "st \<in> TERMINAL"
  shows "job_inv (w\<lparr>w_svc := conclude st err ph (w_svc w)\<rparr>)"
  using assms by (auto simp: conclude_def svc_defs)

lemma live_clock: "clock now sv = (r, sv') \<Longrightarrow> live_job sv' j = live_job sv j"
  by (auto simp: clock_def live_job_def split: if_splits)

lemma failed_inv: "live_job sv j \<Longrightarrow> job_inv (w\<lparr>w_svc := job_failed e sv\<rparr>)"
  using conclude_inv [of "w\<lparr>w_svc := sv\<rparr>" j Failed "Some e" None] by (simp add: job_failed_def TERMINAL_def)

lemma finished_inv:
  assumes l: "live_job (w_svc w) j"
  shows "job_inv (svc (job_finished now) w)"
proof (cases "now < sv_wall (w_svc w)")
  case True
  with failed_inv [OF l, where w = w] show ?thesis by (simp add: svc_def job_finished_def clock_def)
next
  case False
  let ?w = "w\<lparr>w_svc := (w_svc w)\<lparr>sv_wall := now\<rparr>\<rparr>"
  have "live_job (w_svc ?w) j" using l by (simp add: live_job_def)
  with False conclude_inv [of ?w j] show ?thesis by (simp add: svc_def job_finished_def clock_def TERMINAL_def)
qed

lemma save_cases:
  assumes "save_job fails f w = (r, w')" and "sv_job (w_svc w) = Some j"
  shows "w_svc w' = w_svc w \<and> w_root w' = w_root w \<and>
    (r = Inr () \<and> w_snap w' = Some \<lparr>sn_job = f j, sn_report = sv_report (w_svc w)\<rparr> \<or> (\<exists>e. r = Inl e \<and> w' = w))"
  using assms by (auto simp: save_job_def split: option.splits)

lemma inv_checkpoint:
  assumes i: "job_inv w" and t: "sv_task (w_svc w) = TCheckpoint"
  shows "job_inv (checkpoint save_fails w)"
proof -
  obtain j where l: "live_job (w_svc w) j" using i t by (auto simp: job_inv_def)
  then have j: "sv_job (w_svc w) = Some j" by (simp add: live_job_def)
  obtain r w' where s: "save_job save_fails id w = (r, w')" by (rule prod.exhaust)
  note c = save_cases [OF s j]
  show ?thesis
  proof (cases r)
    case (Inl e)
    with c s failed_inv [OF l, where w = w] show ?thesis by (auto simp: checkpoint_def svc_def)
  next
    case (Inr x)
    with c s l j show ?thesis by (auto simp: checkpoint_def svc_defs Report_def)
  qed
qed

lemma inv_ledger:
  assumes i: "job_inv w" and t: "sv_task (w_svc w) = TLedger"
  shows "job_inv (open_ledger failure w)"
proof -
  obtain j where l: "live_job (w_svc w) j" "covered w j" using i t by (auto simp: job_inv_def)
  with failed_inv [OF l(1), where w = w] show ?thesis
    by (cases failure) (auto simp: open_ledger_def svc_defs)
qed

lemma recovery_page_consented:
  "recovery_page root after (jb_cutoff j) (jb_started j) = (after', items, n) \<Longrightarrow> list_all (\<lambda>i. consented j (ca_fp i)) items"
  by (auto simp: recovery_page_def Let_def list_all_iff consented_def)

lemma inv_begin:
  assumes l: "live_job (w_svc w) j" "covered w j" and ok: "list_all (\<lambda>i. consented j (ca_fp i)) items" "task_ok j next_task"
  shows "job_inv (begin_batch now rec items next_task w)"
proof (cases "now < sv_wall (w_svc w)")
  case True
  with failed_inv [OF l(1), where w = w] show ?thesis by (simp add: begin_batch_def clock_def)
next
  case False
  with l ok show ?thesis by (auto simp: begin_batch_def clock_def svc_defs)
qed

lemma inv_recovery:
  assumes i: "job_inv w" and t: "sv_task (w_svc w) = TRecovery after items pages"
  shows "job_inv (recovery_step now after items pages w)"
proof -
  obtain j where l: "live_job (w_svc w) j" "covered w j" and k: "list_all (\<lambda>i. consented j (ca_fp i)) items"
    using i t by (auto simp: job_inv_def)
  have j: "sv_job (w_svc w) = Some j" using l(1) by (simp add: live_job_def)
  consider (scan) "sv_cancel (w_svc w) \<or> items = [] \<and> \<not> pages"
    | (early) "\<not> sv_cancel (w_svc w)" "items = []" "pages" "now < sv_wall (w_svc w)"
    | (page) "\<not> sv_cancel (w_svc w)" "items = []" "pages" "\<not> now < sv_wall (w_svc w)"
    | (batch) "\<not> sv_cancel (w_svc w)" "items \<noteq> []" by blast
  then show ?thesis
  proof cases
    case scan
    with l j show ?thesis by (auto simp: recovery_step_def svc_defs)
  next
    case early
    with failed_inv [OF l(1), where w = w] j show ?thesis by (simp add: recovery_step_def clock_def)
  next
    case page
    obtain a' items' n where p: "recovery_page (w_root w) after (jb_cutoff j) (jb_started j) = (a', items', n)"
      by (metis prod.exhaust)
    have "list_all (\<lambda>i. consented (j\<lparr>jb_rows := jb_rows j + n\<rparr>) (ca_fp i)) items'"
      using recovery_page_consented [OF p] by (simp add: consented_def)
    with page l j p show ?thesis by (auto simp: recovery_step_def clock_def svc_defs)
  next
    case batch
    have "list_all (\<lambda>i. consented j (ca_fp i)) (take 32 items)" "list_all (\<lambda>i. consented j (ca_fp i)) (drop 32 items)"
      using k by (auto simp: list_all_iff dest: in_set_takeD in_set_dropD)
    with batch inv_begin [OF l, of "take 32 items" "TRecovery after (drop 32 items) pages"] show ?thesis
      by (simp add: recovery_step_def)
  qed
qed

lemma window_consented: "window_item j root item \<Longrightarrow> consented j (ca_fp item)"
  by (auto simp: window_item_def consented_def split: sum.splits option.splits)

lemma inv_scan:
  assumes i: "job_inv w" and t: "sv_task (w_svc w) = TScan" and s: "sv_job (w_svc w) = Some j"
    and items: "\<forall>item\<in>set items. window_item j (w_root w) item" and rep: "rp_cutoff rep = rp_cutoff (sv_report (w_svc w))"
  shows "job_inv (scan_step now now' items rep finished w)"
proof -
  have l: "live_job (w_svc w) j" "covered w j" using i t s by (auto simp: job_inv_def live_job_def)
  have k: "list_all (\<lambda>i. consented j (ca_fp i)) items" using items window_consented by (auto simp: list_all_iff)
  consider (over) "sv_cancel (w_svc w) \<or> finished"
    | (early) "\<not> sv_cancel (w_svc w)" "\<not> finished" "now < sv_wall (w_svc w)"
    | (window) "\<not> sv_cancel (w_svc w)" "\<not> finished" "\<not> now < sv_wall (w_svc w)" by blast
  then show ?thesis
  proof cases
    case over
    with finished_inv [OF l(1)] show ?thesis by (simp add: scan_step_def)
  next
    case early
    with failed_inv [OF l(1), where w = w] show ?thesis by (simp add: scan_step_def clock_def)
  next
    case window
    let ?j = "j\<lparr>jb_windows := jb_windows j + 1\<rparr>"
    let ?w = "w\<lparr>w_svc := on_job (\<lambda>j. j\<lparr>jb_windows := jb_windows j + 1\<rparr>) ((w_svc w)\<lparr>sv_wall := now, sv_report := rep\<rparr>)\<rparr>"
    have l': "live_job (w_svc ?w) ?j" "covered ?w ?j" using l s rep by (simp_all add: live_job_def covered_def on_job_def)
    have "list_all (\<lambda>i. consented ?j (ca_fp i)) items" using k by (simp add: consented_def)
    from inv_begin [OF l' this, of TScan] have "job_inv (begin_batch now' False items TScan ?w)" by simp
    moreover have "job_inv ?w" using l' t by (simp add: job_inv_def Let_def on_job_def) blast
    ultimately show ?thesis using window by (simp add: scan_step_def clock_def Let_def)
  qed
qed

lemma inv_batch:
  assumes i: "job_inv w" and t: "sv_task (w_svc w) = TBatch rec items next_task"
  shows "job_inv (run_batch io rec items next_task w)"
proof -
  obtain j where l: "live_job (w_svc w) j" "covered w j" and k: "list_all (\<lambda>i. consented j (ca_fp i)) items" "task_ok j next_task"
    using i t by (auto simp: job_inv_def)
  show ?thesis
  proof (cases "sv_cancel (w_svc w)")
    case True
    with l k show ?thesis by (auto simp: run_batch_def svc_defs)
  next
    case False
    obtain r root rep where b: "apply_batch io rec items (w_root w, sv_report (w_svc w)) = (r, root, rep)" by (metis prod.exhaust)
    have "prunes_to (consented j) (w_root w, sv_report (w_svc w)) (root, rep)"
      by (rule apply_batch_to [OF b]) (use k(1) in \<open>auto simp: list_all_iff\<close>)
    then have c: "rp_cutoff rep = rp_cutoff (sv_report (w_svc w))" by (simp add: prunes_to_def)
    show ?thesis
    proof (cases r)
      case (Some e)
      have "live_job ((w_svc w)\<lparr>sv_report := rep\<rparr>) j" using l(1) by (simp add: live_job_def)
      from failed_inv [OF this, where w = "w\<lparr>w_root := root\<rparr>"] False b Some show ?thesis by (simp add: run_batch_def)
    next
      case None
      with False b l k c show ?thesis by (auto simp: run_batch_def svc_defs)
    qed
  qed
qed

lemma task_ok_point: "task_ok j t \<Longrightarrow> live_job (w_svc w) j \<Longrightarrow> covered w j \<Longrightarrow> job_inv (svc (\<lambda>sv. sv\<lparr>sv_task := t\<rparr>) w)"
  by (cases t) (auto simp: svc_defs)

lemma inv_save:
  assumes i: "job_inv w" and t: "sv_task (w_svc w) = TSave next_task"
  shows "job_inv (save_batch save_fails next_task w)"
proof -
  obtain j where l: "live_job (w_svc w) j" "covered w j" and k: "task_ok j next_task"
    using i t by (auto simp: job_inv_def)
  have j: "sv_job (w_svc w) = Some j" using l(1) by (simp add: live_job_def)
  obtain r w' where s: "save_job save_fails id w = (r, w')" by (rule prod.exhaust)
  note c = save_cases [OF s j]
  show ?thesis
  proof (cases r)
    case (Inl e)
    with c s failed_inv [OF l(1), where w = w] show ?thesis by (auto simp: save_batch_def svc_def)
  next
    case (Inr x)
    have "live_job (w_svc w') j" "covered w' j" using c Inr l by (auto simp: live_job_def covered_def)
    with task_ok_point [OF k] Inr s show ?thesis by (simp add: save_batch_def)
  qed
qed

lemma inv_final:
  assumes i: "job_inv w" and t: "sv_task (w_svc w) = TFinal oc"
  shows "job_inv (finalize save_fails oc w)"
proof -
  obtain j where l: "live_job (w_svc w) j" and o: "oc_state oc \<in> TERMINAL" using i t by (auto simp: job_inv_def)
  have j: "sv_job (w_svc w) = Some j" using l by (simp add: live_job_def)
  obtain r w' where s: "save_job save_fails (merge_outcome oc) w = (r, w')" by (rule prod.exhaust)
  note c = save_cases [OF s j]
  show ?thesis
  proof (cases r)
    case (Inl e)
    with c s j show ?thesis by (auto simp: finalize_def svc_defs merge_outcome_def)
  next
    case (Inr x)
    with c s j o show ?thesis by (auto simp: finalize_def svc_defs merge_outcome_def)
  qed
qed

lemma load_idle:
  "sv_task (w_svc (load_service save_fails w)) = TDone \<and> w_root (load_service save_fails w) = w_root w \<and>
    (\<forall>j. sv_job (w_svc (load_service save_fails w)) = Some j \<longrightarrow> jb_state j \<in> TERMINAL \<and>
       (\<exists>sn. w_snap (load_service save_fails w) = Some sn \<and> sn_job sn = j))"
  by (auto simp: load_service_def save_job_def RetentionService_def TERMINAL_def Let_def split: option.splits)

lemma inv_restart: "job_inv (load_service save_fails w)"
  using load_idle [of save_fails w] by (auto simp: job_inv_def Let_def split: option.splits)

lemma job_step_inv: "job_step w w' \<Longrightarrow> job_inv w \<Longrightarrow> job_inv w'"
  by (induction rule: job_step.induct)
    (blast intro: inv_preview inv_previewed inv_start inv_cancel inv_stop inv_checkpoint inv_ledger inv_recovery
      inv_scan inv_batch inv_save inv_final inv_restart)+

lemma store_step_inv: "store_step w w' \<Longrightarrow> job_inv w \<Longrightarrow> job_inv w'"
  by (induction rule: store_step.induct) (auto simp: svc_defs split: task.splits option.splits)

lemma reachable_job_inv:
  assumes "job_reachable w"
  shows "job_inv w"
proof -
  obtain root where "world_step\<^sup>*\<^sup>* (fresh_world root) w"
    using assms by (auto simp: job_reachable_def)
  then show ?thesis
  proof (induction rule: rtranclp_induct)
    case base
    show ?case by (simp add: fresh_world_def job_inv_def RetentionService_def)
  qed (use job_step_inv store_step_inv in \<open>blast elim: world_step.cases\<close>)
qed

text \<open>Only the batch step touches the blob files.\<close>

lemma root_svc [simp]: "w_root (svc f w) = w_root w"
  by (simp add: svc_def)

lemma root_save: "save_job fails f w = (r, w') \<Longrightarrow> w_root w' = w_root w"
  by (auto simp: save_job_def split: option.splits)

lemma root_begin: "w_root (begin_batch now rec items t w) = w_root w"
  by (simp add: begin_batch_def split: prod.splits sum.splits)

lemma job_step_root:
  assumes "job_step w w'"
  shows "w_root w' = w_root w \<or>
    (\<exists>rec items t io. sv_task (w_svc w) = TBatch rec items t \<and> w' = run_batch io rec items t w)"
  using assms
proof (induction rule: job_step.induct)
  case (checkpointed w save_fails)
  then show ?case by (auto simp: checkpoint_def split: prod.splits sum.splits dest: root_save)
next
  case (opened w failure)
  then show ?case by (simp add: open_ledger_def split: option.splits)
next
  case (recovered w after items pages now)
  then show ?case by (auto simp: recovery_step_def root_begin split: prod.splits sum.splits option.splits)
next
  case (scanned w j items rep now now' finished)
  then show ?case by (auto simp: scan_step_def root_begin Let_def split: prod.splits sum.splits)
next
  case (saved w next_task save_fails)
  then show ?case by (auto simp: save_batch_def split: prod.splits sum.splits dest: root_save)
next
  case (finalized w oc save_fails)
  then show ?case by (auto simp: finalize_def split: prod.splits sum.splits dest: root_save)
next
  case (restarted w save_fails)
  then show ?case using load_idle by blast
qed auto

section \<open>Properties\<close>

text \<open>
  C32 [consented_prune]: the online job deletes nothing without consent.  In every reachable state of the service,
  under any order of requests, batches, failures, restarts and other writers: a step changes the blob files only
  while a confirmed job is running whose snapshot is already on disk with the same cutoff, and it only removes
  regular files that were older than the cutoff and unchanged since the preview began, each with its expiry record.
  A job is shown as completed only when the snapshot on disk says so, and after a restart no job is active.
\<close>

theorem consented_prune:
  assumes "job_reachable w" and "job_step w w'"
  shows "(w_root w' \<noteq> w_root w \<longrightarrow>
      (\<exists>j sn. sv_job (w_svc w) = Some j \<and> jb_confirmed j \<and> jb_state j = Running \<and>
         w_snap w = Some sn \<and> jb_id (sn_job sn) = jb_id j \<and> jb_confirmed (sn_job sn) \<and> jb_cutoff (sn_job sn) = jb_cutoff j \<and>
         pruned (consented j) (br_ledger (w_root w')) (w_root w) (w_root w') \<and>
         more_tombs (br_ledger (w_root w)) (br_ledger (w_root w')))) \<and>
    (\<forall>j. sv_job (w_svc w') = Some j \<and> jb_state j = Completed \<longrightarrow> (\<exists>sn. w_snap w' = Some sn \<and> sn_job sn = j)) \<and>
    (\<forall>fails j. sv_job (w_svc (load_service fails w)) = Some j \<longrightarrow> jb_state j \<in> TERMINAL)"
proof -
  have i: "job_inv w" "job_inv w'" using assms reachable_job_inv job_step_inv by blast+
  have "\<exists>j sn. sv_job (w_svc w) = Some j \<and> jb_confirmed j \<and> jb_state j = Running \<and>
      w_snap w = Some sn \<and> jb_id (sn_job sn) = jb_id j \<and> jb_confirmed (sn_job sn) \<and> jb_cutoff (sn_job sn) = jb_cutoff j \<and>
      pruned (consented j) (br_ledger (w_root w')) (w_root w) (w_root w') \<and>
      more_tombs (br_ledger (w_root w)) (br_ledger (w_root w'))" if ne: "w_root w' \<noteq> w_root w"
  proof -
    obtain rec items t io where t: "sv_task (w_svc w) = TBatch rec items t" and w': "w' = run_batch io rec items t w"
      using job_step_root [OF assms(2)] ne by blast
    obtain j where l: "live_job (w_svc w) j" "covered w j" and k: "list_all (\<lambda>i. consented j (ca_fp i)) items"
      using i(1) t by (auto simp: job_inv_def)
    have c: "\<not> sv_cancel (w_svc w)" using ne w' by (auto simp: run_batch_def Let_def)
    obtain r root rep where b: "apply_batch io rec items (w_root w, sv_report (w_svc w)) = (r, root, rep)" by (metis prod.exhaust)
    have "prunes_to (consented j) (w_root w, sv_report (w_svc w)) (root, rep)"
      by (rule apply_batch_to [OF b]) (use k in \<open>auto simp: list_all_iff\<close>)
    moreover have "w_root w' = root" using w' c b by (simp add: run_batch_def Let_def)
    ultimately show ?thesis using l c by (auto simp: prunes_to_def live_job_def covered_def)
  qed
  moreover have "\<exists>sn. w_snap w' = Some sn \<and> sn_job sn = j" if "sv_job (w_svc w') = Some j" "jb_state j = Completed" for j
    using i(2) that by (cases "sv_task (w_svc w')") (auto simp: svc_defs)
  ultimately show ?thesis using load_idle by blast
qed

section \<open>Witnesses\<close>

text \<open>A job that previews, starts, finds nothing to recover, scans one old file and prunes it.\<close>

definition sample_ready :: world where
  "sample_ready =
    svc (preview_end None (Report 10) 0 1000000010)
      (svc (\<lambda>sv. snd (start_preview ''1s'' 1000000010 ''u'' sv)) (fresh_world sample_root))"

definition sample_scan :: world where
  "sample_scan =
    recovery_step 1000000010 [] [] False
      (recovery_step 1000000010 [] [] True
        (open_ledger None
          (checkpoint None (svc (\<lambda>sv. snd (start_job ''u'' ''prune'' 1000000010 0 1000000010 sv)) sample_ready))))"

definition sample_item :: candidate where
  "sample_item = \<lparr>ca_uri = ''ci-blob://s/k'', ca_fp = (1, 7, 2, 5, 5), ca_allocated = 4096\<rparr>"

definition sample_batch :: world where
  "sample_batch = scan_step 1000000010 1000000010 [sample_item] (Report 10) False sample_scan"

lemma sample_batch_reachable: "job_reachable sample_batch"
proof -
  let ?p = "svc (\<lambda>sv. snd (start_preview ''1s'' 1000000010 ''u'' sv)) (fresh_world sample_root)"
  let ?s = "svc (\<lambda>sv. snd (start_job ''u'' ''prune'' 1000000010 0 1000000010 sv)) sample_ready"
  let ?c = "checkpoint None ?s" and ?o = "open_ledger None (checkpoint None ?s)"
  have 1: "world_step (fresh_world sample_root) ?p" by (intro of_job preview)
  have 2: "world_step ?p sample_ready" unfolding sample_ready_def by (intro of_job previewed; code_simp)
  have 3: "world_step sample_ready ?s" by (intro of_job start)
  have 4: "world_step ?s ?c" by (intro of_job checkpointed; code_simp)
  have 5: "world_step ?c ?o" by (intro of_job opened; code_simp)
  have 6: "world_step ?o (recovery_step 1000000010 [] [] True ?o)" by (intro of_job recovered; code_simp)
  have 7: "world_step (recovery_step 1000000010 [] [] True ?o) sample_scan"
    unfolding sample_scan_def by (intro of_job recovered; code_simp)
  have 8: "world_step sample_scan sample_batch"
    unfolding sample_batch_def
    by (intro of_job scanned [where j = "the (sv_job (w_svc sample_scan))"]; code_simp)
  have "world_step\<^sup>*\<^sup>* (fresh_world sample_root) sample_batch"
    using 1 2 3 4 5 6 7 8 by (meson rtranclp.rtrancl_into_rtrancl rtranclp.rtrancl_refl)
  then show ?thesis unfolding job_reachable_def by blast
qed

theorem consented_prune_witness:
  "\<exists>j. sv_job (w_svc sample_batch) = Some j \<and> jb_confirmed j \<and> jb_state j = Running \<and>
     pruned (consented j) (br_ledger (w_root (run_batch calm_io False [sample_item] TScan sample_batch)))
       (w_root sample_batch) (w_root (run_batch calm_io False [sample_item] TScan sample_batch))"
proof -
  have s: "job_step sample_batch (run_batch calm_io False [sample_item] TScan sample_batch)"
    by (rule batched) code_simp
  have "stored (w_root (run_batch calm_io False [sample_item] TScan sample_batch)) ''s'' ''k.json'' = None"
    "stored (w_root sample_batch) ''s'' ''k.json'' \<noteq> None" by code_simp+
  then have "w_root (run_batch calm_io False [sample_item] TScan sample_batch) \<noteq> w_root sample_batch" by metis
  with consented_prune [OF sample_batch_reachable s] show ?thesis by blast
qed

end
