(* ===== verification/Claims.thy ===== *)
theory Claims
  imports QueueManager BlobKeys
begin

text \<open>
  \<^verbatim>\<open>SessionClaimStore\<close> of \<^verbatim>\<open>session_claims.py\<close>: which contributor and workspace own a session, and which session
  owns each storage name.  Folding shortens names, so two sessions can share a queue file or a blob directory; the
  bindings make sure that only one of them is ever admitted.  A state is the two tables of the database, the
  second one missing in a database from before it was introduced; every operation is one transaction.
\<close>

section \<open>Tables\<close>

record claim =
  cl_contributor :: str
  cl_workspace :: str
  cl_token :: "str option"

datatype storage_kind = Queue | Blob

type_synonym binding = "(storage_kind \<times> str) \<times> str option"

text \<open>A binding to \<^const>\<open>None\<close> is the NULL that marks an ambiguous name.\<close>

record claim_db =
  session_claims :: "claim dict"
  storage_bindings :: "binding list option"

definition storage_components :: "(str \<Rightarrow> str) \<Rightarrow> str \<Rightarrow> (storage_kind \<times> str) list" where
  "storage_components sha session_id =
    (Queue, fold_worker_key sha session_id) #
    (case fold_blob_session sha session_id of Inr b \<Rightarrow> [(Blob, b)] | Inl _ \<Rightarrow> [])"

text \<open>The backfill of the bindings: the first session of a name takes it, a second one makes it ambiguous.\<close>

definition backfill1 :: "str \<Rightarrow> storage_kind \<times> str \<Rightarrow> binding list \<Rightarrow> binding list" where
  "backfill1 session_id name b =
    (case map_of b name of
       None \<Rightarrow> AList.update name (Some session_id) b
     | Some old \<Rightarrow> AList.update name (if old = Some session_id then Some session_id else None) b)"

definition backfill :: "(str \<Rightarrow> str) \<Rightarrow> str list \<Rightarrow> binding list" where
  "backfill sha sessions =
    fold (\<lambda>s. fold (backfill1 s) (storage_components sha s)) sessions []"

definition initialize :: "(str \<Rightarrow> str) \<Rightarrow> claim_db \<Rightarrow> claim_db" where
  "initialize sha db =
    (case storage_bindings db of
       Some _ \<Rightarrow> db
     | None \<Rightarrow> db\<lparr>storage_bindings := Some (backfill sha (map fst (session_claims db)))\<rparr>)"

definition bindings :: "claim_db \<Rightarrow> binding list" where
  "bindings db = (case storage_bindings db of None \<Rightarrow> [] | Some b \<Rightarrow> b)"

section \<open>Operations\<close>

definition bindings_match :: "(str \<Rightarrow> str) \<Rightarrow> str \<Rightarrow> claim_db \<Rightarrow> bool" where
  "bindings_match sha session_id db =
    (let names = storage_components sha session_id in
     length names = 2 \<and> list_all (\<lambda>n. map_of (bindings db) n = Some (Some session_id)) names)"

definition bind_names :: "(str \<Rightarrow> str) \<Rightarrow> str \<Rightarrow> claim_db \<Rightarrow> claim_db option" where
  "bind_names sha session_id db =
    (let names = storage_components sha session_id in
     if length names \<noteq> 2 then None
     else if list_ex (\<lambda>n. map_of (bindings db) n \<noteq> None \<and> map_of (bindings db) n \<noteq> Some (Some session_id)) names then None
     else Some (db\<lparr>storage_bindings := Some (fold
            (\<lambda>n b. if map_of b n = None then AList.update n (Some session_id) b else b) names (bindings db))\<rparr>))"

abbreviation put_claim :: "str \<Rightarrow> claim \<Rightarrow> claim_db \<Rightarrow> claim_db" where
  "put_claim session_id c db \<equiv> db\<lparr>session_claims := AList.update session_id c (session_claims db)\<rparr>"

definition claim_session :: "(str \<Rightarrow> str) \<Rightarrow> str \<Rightarrow> str \<Rightarrow> str \<Rightarrow> claim_db \<Rightarrow> bool \<times> claim_db" where
  "claim_session sha session_id contributor workspace db =
    (let db = initialize sha db; row = dget (session_claims db) session_id in
     case row of
       Some c \<Rightarrow>
         if cl_token c \<noteq> None \<or> (cl_contributor c, cl_workspace c) \<noteq> (contributor, workspace) then (False, db)
         else (case bind_names sha session_id db of None \<Rightarrow> (False, db) | Some db \<Rightarrow> (True, db))
     | None \<Rightarrow>
         (case bind_names sha session_id db of
            None \<Rightarrow> (False, db)
          | Some db \<Rightarrow>
              (True, put_claim session_id \<lparr>cl_contributor = contributor, cl_workspace = workspace, cl_token = None\<rparr> db)))"

datatype reservation = Reserved | ExistingReservation | Committed | Conflict

definition reserve_recovery :: "(str \<Rightarrow> str) \<Rightarrow> str \<Rightarrow> str \<Rightarrow> str \<Rightarrow> str \<Rightarrow> claim_db \<Rightarrow> reservation \<times> claim_db" where
  "reserve_recovery sha session_id contributor workspace token db =
    (let db = initialize sha db; row = dget (session_claims db) session_id in
     case row of
       Some c \<Rightarrow>
         if (cl_contributor c, cl_workspace c) \<noteq> (contributor, workspace) \<or> cl_token c \<notin> {None, Some token}
         then (Conflict, db)
         else (case bind_names sha session_id db of
                 None \<Rightarrow> (Conflict, db)
               | Some db \<Rightarrow> (if cl_token c = None then Committed else ExistingReservation, db))
     | None \<Rightarrow>
         (case bind_names sha session_id db of
            None \<Rightarrow> (Conflict, db)
          | Some db \<Rightarrow>
              (Reserved, put_claim session_id
                 \<lparr>cl_contributor = contributor, cl_workspace = workspace, cl_token = Some token\<rparr> db)))"

definition finalize_recovery :: "(str \<Rightarrow> str) \<Rightarrow> str \<Rightarrow> str \<Rightarrow> str \<Rightarrow> str \<Rightarrow> claim_db \<Rightarrow> bool \<times> claim_db" where
  "finalize_recovery sha session_id contributor workspace token db =
    (let db = initialize sha db in
     case dget (session_claims db) session_id of
       None \<Rightarrow> (False, db)
     | Some c \<Rightarrow>
         if (cl_contributor c, cl_workspace c) \<noteq> (contributor, workspace) \<or> \<not> bindings_match sha session_id db
         then (False, db)
         else (case cl_token c of
                 None \<Rightarrow> (True, db)
               | Some t \<Rightarrow>
                   if t \<noteq> token then (False, db) else (True, put_claim session_id (c\<lparr>cl_token := None\<rparr>) db)))"

definition release_recovery :: "(str \<Rightarrow> str) \<Rightarrow> str \<Rightarrow> str \<Rightarrow> str \<Rightarrow> str \<Rightarrow> claim_db \<Rightarrow> claim_db" where
  "release_recovery sha session_id contributor workspace token db =
    (let db = initialize sha db in
     if dget (session_claims db) session_id =
          Some \<lparr>cl_contributor = contributor, cl_workspace = workspace, cl_token = Some token\<rparr>
     then db\<lparr>session_claims := AList.delete session_id (session_claims db),
             storage_bindings := Some (filter (\<lambda>b. snd b \<noteq> Some session_id) (bindings db))\<rparr>
     else db)"

definition committed_workspace :: "str \<Rightarrow> claim_db \<Rightarrow> str option" where
  "committed_workspace session_id db =
    (case dget (session_claims db) session_id of
       None \<Rightarrow> None
     | Some c \<Rightarrow> if cl_token c = None then Some (cl_workspace c) else None)"

definition get_workspace :: "(str \<Rightarrow> str) \<Rightarrow> str \<Rightarrow> claim_db \<Rightarrow> str option \<times> claim_db" where
  "get_workspace sha session_id db = (let db = initialize sha db in (committed_workspace session_id db, db))"

definition storage_identity_matches :: "(str \<Rightarrow> str) \<Rightarrow> str \<Rightarrow> claim_db \<Rightarrow> bool \<times> claim_db" where
  "storage_identity_matches sha session_id db =
    (let db = initialize sha db
     in (committed_workspace session_id db \<noteq> None \<and> bindings_match sha session_id db, db))"

definition get_blob_workspace :: "(str \<Rightarrow> str) \<Rightarrow> str \<Rightarrow> claim_db \<Rightarrow> str option \<times> claim_db" where
  "get_blob_workspace sha session_id db =
    (case fold_blob_session sha session_id of
       Inl _ \<Rightarrow> (None, db)
     | Inr b \<Rightarrow>
         let db = initialize sha db in
         (case map_of (bindings db) (Blob, b) of
            Some (Some s) \<Rightarrow> committed_workspace s db
          | _ \<Rightarrow> None, db))"

section \<open>Runs\<close>

datatype claim_op =
    OpClaim str str str
  | OpReserve str str str str
  | OpFinalize str str str str
  | OpRelease str str str str
  | OpLook str

fun claim_step :: "(str \<Rightarrow> str) \<Rightarrow> claim_op \<Rightarrow> claim_db \<Rightarrow> claim_db" where
  "claim_step sha (OpClaim s c w) db = snd (claim_session sha s c w db)"
| "claim_step sha (OpReserve s c w t) db = snd (reserve_recovery sha s c w t db)"
| "claim_step sha (OpFinalize s c w t) db = snd (finalize_recovery sha s c w t db)"
| "claim_step sha (OpRelease s c w t) db = release_recovery sha s c w t db"
| "claim_step sha (OpLook s) db = snd (get_blob_workspace sha s db)"

definition claim_run :: "(str \<Rightarrow> str) \<Rightarrow> claim_op list \<Rightarrow> claim_db \<Rightarrow> claim_db" where
  "claim_run sha ops db = fold (claim_step sha) ops db"

section \<open>What a granted claim keeps\<close>

text \<open>A session that is committed to an owner and holds both its names; every name bound to a session is one of
  the session's own.\<close>

definition holds_claim :: "(str \<Rightarrow> str) \<Rightarrow> str \<Rightarrow> str \<Rightarrow> str \<Rightarrow> claim_db \<Rightarrow> bool" where
  "holds_claim sha s c w db =
    (storage_bindings db \<noteq> None \<and>
     dget (session_claims db) s = Some \<lparr>cl_contributor = c, cl_workspace = w, cl_token = None\<rparr> \<and>
     bindings_match sha s db)"

lemma initialized [simp]: "storage_bindings db \<noteq> None \<Longrightarrow> initialize sha db = db"
  by (auto simp: initialize_def)

lemma initialize_Some: "storage_bindings (initialize sha db) \<noteq> None"
  by (simp add: initialize_def split: option.splits)

lemma claims_initialize [simp]: "session_claims (initialize sha db) = session_claims db"
  by (simp add: initialize_def split: option.splits)

text \<open>Binding never changes a name that is bound.\<close>

lemma bind_names_keeps:
  assumes "bind_names sha s db = Some db'"
  shows "session_claims db' = session_claims db \<and> storage_bindings db' \<noteq> None \<and> bindings_match sha s db' \<and>
    (\<forall>n x. map_of (bindings db) n = Some x \<longrightarrow> map_of (bindings db') n = Some x)"
proof -
  define names where "names = storage_components sha s"
  define add where "add = (\<lambda>n b. if map_of b n = None then AList.update n (Some s) b else (b :: binding list))"
  have l: "length names = 2" and free: "\<not> list_ex (\<lambda>n. map_of (bindings db) n \<noteq> None \<and> map_of (bindings db) n \<noteq> Some (Some s)) names"
    and db': "db' = db\<lparr>storage_bindings := Some (fold add names (bindings db))\<rparr>"
    using assms by (auto simp: bind_names_def Let_def names_def add_def split: if_splits)
  have keep: "map_of b n = Some x \<Longrightarrow> map_of (fold add ns b) n = Some x" for b n x ns
  proof (induction ns arbitrary: b)
    case (Cons m ns)
    have "map_of (add m b) n = Some x" using Cons.prems by (cases "n = m") (simp_all add: add_def update_conv')
    with Cons.IH show ?case by simp
  qed simp
  have set: "n \<in> set ns \<Longrightarrow> \<forall>m\<in>set ns. map_of b m = None \<or> map_of b m = Some (Some s) \<Longrightarrow>
      map_of (fold add ns b) n = Some (Some s)" for b n ns
  proof (induction ns arbitrary: b)
    case (Cons m ns)
    have "map_of (add m b) m = Some (Some s)" using Cons.prems(2) by (cases "map_of b m") (simp_all add: add_def update_conv')
    moreover have "\<forall>m'\<in>set ns. map_of (add m b) m' = None \<or> map_of (add m b) m' = Some (Some s)"
      using Cons.prems(2) by (cases "map_of b m") (simp_all add: add_def update_conv')
    ultimately show ?case
      using Cons.IH [of "add m b"] Cons.prems(1) keep [of "add m b" m "Some s" ns] by (cases "n = m") simp_all
  qed simp
  have "\<forall>m\<in>set names. map_of (bindings db) m = None \<or> map_of (bindings db) m = Some (Some s)"
    using free by (auto simp: list_ex_iff)
  then have "list_all (\<lambda>n. map_of (fold add names (bindings db)) n = Some (Some s)) names"
    using set by (auto simp: list_all_iff)
  with l keep show ?thesis by (simp add: db' bindings_match_def bindings_def Let_def flip: names_def)
qed

lemma bind_names_owner:
  assumes "bind_names sha s db = Some db'" and "holds_claim sha s' c w db" and "s' \<noteq> s"
  shows "set (storage_components sha s) \<inter> set (storage_components sha s') = {}"
proof (rule ccontr)
  assume "set (storage_components sha s) \<inter> set (storage_components sha s') \<noteq> {}"
  then obtain n where n: "n \<in> set (storage_components sha s)" "n \<in> set (storage_components sha s')" by blast
  have "map_of (bindings db) n = Some (Some s')" using assms(2) n(2) by (auto simp: holds_claim_def bindings_match_def Let_def list_all_iff)
  moreover have "map_of (bindings db) n = None \<or> map_of (bindings db) n = Some (Some s)"
    using assms(1) n(1) by (auto simp: bind_names_def Let_def list_ex_iff split: if_splits)
  ultimately show False using assms(3) by simp
qed

lemma holds_bind:
  assumes "bind_names sha s db = Some db'" and "holds_claim sha s' c w db"
  shows "holds_claim sha s' c w db'"
  using bind_names_keeps [OF assms(1)] assms(2) by (auto simp: holds_claim_def bindings_match_def Let_def list_all_iff)

lemma holds_put: "holds_claim sha s c w db \<Longrightarrow> s' \<noteq> s \<Longrightarrow> holds_claim sha s c w (put_claim s' x db)"
  by (simp add: holds_claim_def bindings_match_def bindings_def)

lemma holds_init [simp]: "holds_claim sha s c w db \<Longrightarrow> initialize sha db = db"
  by (simp add: holds_claim_def)

lemma holds_step:
  assumes h: "holds_claim sha s c w db"
  shows "holds_claim sha s c w (claim_step sha op db)"
proof (cases op)
  case (OpClaim s' c' w')
  show ?thesis
  proof (cases "bind_names sha s' db")
    case None
    with h OpClaim show ?thesis by (auto simp: claim_session_def Let_def split: option.splits)
  next
    case (Some db')
    have b: "holds_claim sha s c w db'" by (rule holds_bind [OF Some h])
    have "holds_claim sha s c w (put_claim s' x db')" if "dget (session_claims db) s' = None" for x
      by (rule holds_put [OF b]) (use h that in \<open>auto simp: holds_claim_def\<close>)
    with b h OpClaim Some show ?thesis by (auto simp: claim_session_def Let_def split: option.splits)
  qed
next
  case (OpReserve s' c' w' t)
  show ?thesis
  proof (cases "bind_names sha s' db")
    case None
    with h OpReserve show ?thesis by (auto simp: reserve_recovery_def Let_def split: option.splits)
  next
    case (Some db')
    have b: "holds_claim sha s c w db'" by (rule holds_bind [OF Some h])
    have "holds_claim sha s c w (put_claim s' x db')" if "dget (session_claims db) s' = None" for x
      by (rule holds_put [OF b]) (use h that in \<open>auto simp: holds_claim_def\<close>)
    with b h OpReserve Some show ?thesis by (auto simp: reserve_recovery_def Let_def split: option.splits)
  qed
next
  case (OpFinalize s' c' w' t)
  have "holds_claim sha s c w (put_claim s' y db)" if "dget (session_claims db) s' = Some x" "cl_token x \<noteq> None" for x y
    by (rule holds_put [OF h]) (use h that in \<open>auto simp: holds_claim_def\<close>)
  with h OpFinalize show ?thesis by (auto simp: finalize_recovery_def Let_def split: option.splits)
next
  case (OpRelease s' c' w' t)
  show ?thesis
  proof (cases "dget (session_claims db) s' = Some \<lparr>cl_contributor = c', cl_workspace = w', cl_token = Some t\<rparr>")
    case True
    then have "s' \<noteq> s" using h by (auto simp: holds_claim_def)
    moreover have "map_of (filter (\<lambda>b. snd b \<noteq> Some s') b) n = Some (Some s)" if "map_of b n = Some (Some s)" for b and n :: "storage_kind \<times> str"
      using that calculation by (induction b) (auto split: if_splits)
    ultimately show ?thesis
      using h True OpRelease
      by (auto simp: release_recovery_def Let_def holds_claim_def bindings_match_def bindings_def delete_conv' list_all_iff)
  qed (use h OpRelease in \<open>simp add: release_recovery_def\<close>)
next
  case (OpLook s')
  with h show ?thesis by (simp add: get_blob_workspace_def Let_def split: sum.splits)
qed

lemma holds_run: "holds_claim sha s c w db \<Longrightarrow> holds_claim sha s c w (claim_run sha ops db)"
  unfolding claim_run_def by (induction ops arbitrary: db) (auto intro: holds_step)

lemma claim_holds:
  assumes "claim_session sha s c w db = (True, db')"
  shows "holds_claim sha s c w db'"
proof -
  obtain db1 where b: "bind_names sha s (initialize sha db) = Some db1"
    and r: "dget (session_claims db) s = None \<or> dget (session_claims db) s = Some \<lparr>cl_contributor = c, cl_workspace = w, cl_token = None\<rparr>"
    and d: "db' = (if dget (session_claims db) s = None
       then put_claim s \<lparr>cl_contributor = c, cl_workspace = w, cl_token = None\<rparr> db1 else db1)"
    using assms by (auto simp: claim_session_def Let_def split: option.splits if_splits)
  show ?thesis using bind_names_keeps [OF b] r by (auto simp: d holds_claim_def bindings_match_def bindings_def)
qed

section \<open>Properties\<close>

text \<open>
  C35 [claims_exclusive]: a granted claim is for good.  Whatever state the store was in, also one from before the
  bindings existed, and whatever operations follow: the session stays with its workspace and its two storage
  names, only its own contributor and workspace are admitted to it again, and no other session whose queue file or
  blob directory would coincide with one of its own is ever admitted, live or for recovery.
\<close>

theorem claims_exclusive:
  assumes granted: "claim_session sha s c w db = (True, db1)" and later: "db2 = claim_run sha ops db1"
  shows "fst (get_workspace sha s db2) = Some w \<and> fst (storage_identity_matches sha s db2) \<and>
    (\<forall>c' w'. fst (claim_session sha s c' w' db2) = (c' = c \<and> w' = w)) \<and>
    (\<forall>s' c' w' t. s' \<noteq> s \<and> set (storage_components sha s') \<inter> set (storage_components sha s) \<noteq> {} \<longrightarrow>
       \<not> fst (claim_session sha s' c' w' db2) \<and> fst (reserve_recovery sha s' c' w' t db2) = Conflict)"
proof -
  have h: "holds_claim sha s c w db2" unfolding later by (rule holds_run [OF claim_holds [OF granted]])
  then have i: "initialize sha db2 = db2" by simp
  have m: "bindings_match sha s db2" and r: "dget (session_claims db2) s = Some \<lparr>cl_contributor = c, cl_workspace = w, cl_token = None\<rparr>"
    using h by (simp_all add: holds_claim_def)
  have "bind_names sha s db2 \<noteq> None"
    using m by (auto simp: bindings_match_def bind_names_def Let_def list_all_iff list_ex_iff)
  then have own: "fst (claim_session sha s c' w' db2) = (c' = c \<and> w' = w)" for c' w'
    using r by (auto simp: claim_session_def i Let_def split: option.splits)
  have other: "\<not> fst (claim_session sha s' c' w' db2) \<and> fst (reserve_recovery sha s' c' w' t db2) = Conflict"
    if "s' \<noteq> s \<and> set (storage_components sha s') \<inter> set (storage_components sha s) \<noteq> {}" for s' c' w' t
  proof -
    have "bind_names sha s' db2 = None"
      using bind_names_owner [OF _ h] that by (cases "bind_names sha s' db2") auto
    then show ?thesis by (simp add: claim_session_def reserve_recovery_def i Let_def split: option.splits)
  qed
  have "fst (get_workspace sha s db2) = Some w \<and> fst (storage_identity_matches sha s db2)"
    using r m by (simp add: get_workspace_def storage_identity_matches_def committed_workspace_def i Let_def)
  then show ?thesis by (intro conjI allI impI own) (simp_all add: other)
qed

text \<open>A claim in an empty store, after which a second contributor is turned away.\<close>

abbreviation zero_digest :: "str \<Rightarrow> str" where
  "zero_digest \<equiv> (\<lambda>_. replicate 64 (CHR ''0''))"

theorem claims_exclusive_witness:
  "\<not> fst (claim_session zero_digest ''s'' ''eve'' ''w''
     (claim_run zero_digest [OpReserve ''s'' ''eve'' ''w'' ''t'', OpRelease ''s'' ''eve'' ''w'' ''t'']
       (snd (claim_session zero_digest ''s'' ''ann'' ''w'' \<lparr>session_claims = [], storage_bindings = None\<rparr>))))"
proof -
  have "fst (claim_session zero_digest ''s'' ''ann'' ''w'' \<lparr>session_claims = [], storage_bindings = None\<rparr>)" by code_simp
  then have "claim_session zero_digest ''s'' ''ann'' ''w'' \<lparr>session_claims = [], storage_bindings = None\<rparr> =
    (True, snd (claim_session zero_digest ''s'' ''ann'' ''w'' \<lparr>session_claims = [], storage_bindings = None\<rparr>))"
    by (simp add: prod_eq_iff)
  from claims_exclusive [OF this refl] show ?thesis by simp
qed

end
