(* ===== verification/Access.thy ===== *)
theory Access
  imports Claims
begin

text \<open>
  The authorization gates of \<^verbatim>\<open>authz.py\<close>.  A request carries the principal that the authentication middleware
  resolved; the application state carries the mode, the configured roles and the grants.  A gate returns or raises
  an \<^verbatim>\<open>HTTPException\<close>, kept as its status code.
\<close>

section \<open>Requests\<close>

record grant =
  gr_capabilities :: "str list"
  gr_all_workspaces :: bool
  gr_workspaces :: "str list option"

record app_state =
  access_control_mode :: str
  contributor_grants :: "grant dict"
  service_data_role :: str
  reader_role :: str
  entra_admin_role :: str
  recovery_permit_required :: bool
  app_claims :: "claim_db option"

record principal =
  contributor_id :: "str option"
  is_service :: bool
  is_admin :: bool
  roles :: "str list"

type_synonym 'a http = "nat + 'a"

abbreviation FORBIDDEN :: "unit http" where
  "FORBIDDEN \<equiv> Inl 403"

definition scoped :: "app_state \<Rightarrow> bool" where
  "scoped app = (access_control_mode app = ''scoped'')"

section \<open>Gates\<close>

definition grant_of :: "app_state \<Rightarrow> principal \<Rightarrow> grant option" where
  "grant_of app pr = (case contributor_id pr of None \<Rightarrow> None | Some c \<Rightarrow> dget (contributor_grants app) c)"

definition has_capability :: "app_state \<Rightarrow> principal \<Rightarrow> str \<Rightarrow> bool" where
  "has_capability app pr capability =
    (if contributor_id pr \<noteq> None \<and> contributor_id pr \<noteq> Some []
     then (case grant_of app pr of None \<Rightarrow> False | Some g \<Rightarrow> capability \<in> set (gr_capabilities g))
     else False)"

definition is_operator :: "app_state \<Rightarrow> principal \<Rightarrow> bool" where
  "is_operator app pr =
    (is_admin pr \<or> entra_admin_role app \<noteq> [] \<and> entra_admin_role app \<in> set (roles pr))"

definition is_write_capable :: "app_state \<Rightarrow> principal \<Rightarrow> bool" where
  "is_write_capable app pr =
    (if scoped app then is_operator app pr \<or> has_capability app pr ''live:write''
     else if \<not> is_service pr then True
     else service_data_role app \<noteq> [] \<and> service_data_role app \<in> set (roles pr))"

definition require_write :: "app_state \<Rightarrow> principal \<Rightarrow> unit http" where
  "require_write app pr = (if is_write_capable app pr then Inr () else FORBIDDEN)"

definition require_read :: "app_state \<Rightarrow> principal \<Rightarrow> unit http" where
  "require_read app pr =
    (if scoped app
     then (if is_operator app pr \<or> has_capability app pr ''data:read'' then Inr () else FORBIDDEN)
     else if is_write_capable app pr then Inr ()
     else if reader_role app \<noteq> [] \<and> reader_role app \<in> set (roles pr) then Inr () else FORBIDDEN)"

definition require_recovery_write :: "app_state \<Rightarrow> principal \<Rightarrow> unit http" where
  "require_recovery_write app pr =
    (if \<not> scoped app then require_write app pr
     else if \<not> has_capability app pr ''recovery:write'' then FORBIDDEN
     else if recovery_permit_required app then require_write app pr
     else Inr ())"

definition require_workspace_access :: "app_state \<Rightarrow> principal \<Rightarrow> str \<Rightarrow> str \<Rightarrow> unit http" where
  "require_workspace_access app pr workspace capability =
    (if \<not> scoped app then Inr ()
     else case grant_of app pr of
       None \<Rightarrow> FORBIDDEN
     | Some g \<Rightarrow>
         if capability \<notin> set (gr_capabilities g) then FORBIDDEN
         else if \<not> gr_all_workspaces g \<and> workspace \<notin> set (case gr_workspaces g of None \<Rightarrow> [] | Some ws \<Rightarrow> ws)
         then FORBIDDEN else Inr ())"

definition require_arbitrary_data_read :: "app_state \<Rightarrow> principal \<Rightarrow> unit http" where
  "require_arbitrary_data_read app pr =
    (if \<not> scoped app then Inr ()
     else case grant_of app pr of
       None \<Rightarrow> FORBIDDEN
     | Some g \<Rightarrow>
         if ''data:read'' \<notin> set (gr_capabilities g) \<or> \<not> gr_all_workspaces g then FORBIDDEN else Inr ())"

text \<open>The two gates that ask the claim store, which may initialize it.\<close>

definition require_claimed_session_access ::
  "(str \<Rightarrow> str) \<Rightarrow> app_state \<Rightarrow> principal \<Rightarrow> str \<Rightarrow> str \<Rightarrow> unit http \<times> app_state" where
  "require_claimed_session_access sha app pr session_id capability =
    (if \<not> scoped app then (Inr (), app)
     else case app_claims app of
       None \<Rightarrow> (FORBIDDEN, app)
     | Some db \<Rightarrow>
         let (workspace, db) = get_workspace sha session_id db in
         case workspace of
           None \<Rightarrow> (FORBIDDEN, app\<lparr>app_claims := Some db\<rparr>)
         | Some w \<Rightarrow>
             let (same, db) = storage_identity_matches sha session_id db;
                 app = app\<lparr>app_claims := Some db\<rparr>
             in (if \<not> same then FORBIDDEN else require_workspace_access app pr w capability, app))"

definition require_claimed_blob_access ::
  "(str \<Rightarrow> str) \<Rightarrow> app_state \<Rightarrow> principal \<Rightarrow> str \<Rightarrow> str \<Rightarrow> unit http \<times> app_state" where
  "require_claimed_blob_access sha app pr session_id capability =
    (if \<not> scoped app then (Inr (), app)
     else case app_claims app of
       None \<Rightarrow> (FORBIDDEN, app)
     | Some db \<Rightarrow>
         let (workspace, db) = get_blob_workspace sha session_id db;
             app = app\<lparr>app_claims := Some db\<rparr>
         in (case workspace of
               None \<Rightarrow> FORBIDDEN
             | Some w \<Rightarrow> require_workspace_access app pr w capability, app))"

section \<open>Properties\<close>

definition may_use :: "app_state \<Rightarrow> principal \<Rightarrow> str \<Rightarrow> str \<Rightarrow> bool" where
  "may_use app pr w capability =
    (\<exists>c g. contributor_id pr = Some c \<and> dget (contributor_grants app) c = Some g \<and> capability \<in> set (gr_capabilities g) \<and>
       (gr_all_workspaces g \<or> (\<exists>ws. gr_workspaces g = Some ws \<and> w \<in> set ws)))"

lemma workspace_access_iff:
  "scoped app \<Longrightarrow> require_workspace_access app pr w capability = Inr () \<longleftrightarrow> may_use app pr w capability"
  by (auto simp: require_workspace_access_def may_use_def grant_of_def split: option.splits)

text \<open>
  C36 [scoped_isolation]: in scoped mode a claimed session is open exactly to the contributors that were granted the
  capability on the workspace it was claimed for.  This holds at any time after the claim, for the session itself
  and for its blobs under every spelling of the session that leads to the same directory; and a session that was
  never claimed is open to nobody, not even to the operator.
\<close>

theorem scoped_isolation:
  assumes s: "scoped app" and db: "app_claims app = Some db" and claim: "claim_session sha sid c w db0 = (True, db1)"
    and later: "db = claim_run sha ops db1"
  shows "(fst (require_claimed_session_access sha app pr sid capability) = Inr () \<longleftrightarrow> may_use app pr w capability) \<and>
    (\<forall>sid'. fold_blob_session sha sid' = fold_blob_session sha sid \<longrightarrow>
       (fst (require_claimed_blob_access sha app pr sid' capability) = Inr () \<longleftrightarrow> may_use app pr w capability)) \<and>
    (\<forall>sid'. dget (session_claims db) sid' = None \<longrightarrow>
       fst (require_claimed_session_access sha app pr sid' capability) = FORBIDDEN)"
proof -
  have h: "holds_claim sha sid c w db" unfolding later by (rule holds_run [OF claim_holds [OF claim]])
  then have i: "initialize sha db = db" by simp
  have r: "committed_workspace sid db = Some w" and m: "bindings_match sha sid db"
    using h by (simp_all add: holds_claim_def committed_workspace_def)
  obtain b where b: "fold_blob_session sha sid = Inr b" and bound: "map_of (bindings db) (Blob, b) = Some (Some sid)"
    using m by (auto simp: bindings_match_def storage_components_def Let_def split: sum.splits)
  have upd: "require_workspace_access (app\<lparr>app_claims := x\<rparr>) pr w capability = Inr () \<longleftrightarrow> may_use app pr w capability" for x
    using workspace_access_iff [of "app\<lparr>app_claims := x\<rparr>"] s by (simp add: scoped_def may_use_def)
  have "fst (require_claimed_session_access sha app pr sid capability) = Inr () \<longleftrightarrow> may_use app pr w capability"
    using s db i r m upd
    by (simp add: require_claimed_session_access_def get_workspace_def storage_identity_matches_def Let_def)
  moreover have "fst (require_claimed_blob_access sha app pr sid' capability) = Inr () \<longleftrightarrow> may_use app pr w capability"
    if "fold_blob_session sha sid' = fold_blob_session sha sid" for sid'
    using s db i r b bound upd that by (simp add: require_claimed_blob_access_def get_blob_workspace_def Let_def)
  moreover have "fst (require_claimed_session_access sha app pr sid' capability) = FORBIDDEN"
    if "dget (session_claims db) sid' = None" for sid'
    using s db i that by (simp add: require_claimed_session_access_def get_workspace_def committed_workspace_def Let_def)
  ultimately show ?thesis by blast
qed

definition sample_app :: app_state where
  "sample_app = \<lparr>access_control_mode = ''scoped'',
     contributor_grants = [(''ann'', \<lparr>gr_capabilities = [''live:write''], gr_all_workspaces = False, gr_workspaces = Some [''w'']\<rparr>)],
     service_data_role = [], reader_role = [], entra_admin_role = [], recovery_permit_required = False,
     app_claims = Some (snd (claim_session zero_digest ''s'' ''ann'' ''w'' \<lparr>session_claims = [], storage_bindings = None\<rparr>))\<rparr>"

definition sample_principal :: principal where
  "sample_principal = \<lparr>contributor_id = Some ''ann'', is_service = False, is_admin = False, roles = []\<rparr>"

theorem scoped_isolation_witness:
  "fst (require_claimed_session_access zero_digest sample_app sample_principal ''s'' ''live:write'') = Inr () \<and>
   fst (require_claimed_session_access zero_digest sample_app sample_principal ''s'' ''data:read'') \<noteq> Inr ()"
proof -
  let ?db = "\<lparr>session_claims = [], storage_bindings = None\<rparr>"
  have "fst (claim_session zero_digest ''s'' ''ann'' ''w'' ?db)" by code_simp
  then have c: "claim_session zero_digest ''s'' ''ann'' ''w'' ?db = (True, snd (claim_session zero_digest ''s'' ''ann'' ''w'' ?db))"
    by (simp add: prod_eq_iff)
  have s: "scoped sample_app" by (simp add: scoped_def sample_app_def)
  have a: "app_claims sample_app = Some (claim_run zero_digest [] (snd (claim_session zero_digest ''s'' ''ann'' ''w'' ?db)))"
    by (simp add: sample_app_def claim_run_def)
  from scoped_isolation [OF s a c refl, of sample_principal "''live:write''"]
    scoped_isolation [OF s a c refl, of sample_principal "''data:read''"]
  show ?thesis by (simp add: may_use_def sample_app_def sample_principal_def)
qed

text \<open>The documentation of \<^verbatim>\<open>require_read\<close> says that whoever may write may read.  In scoped mode that is not so.\<close>

theorem write_without_read:
  "require_write sample_app sample_principal = Inr () \<and> require_read sample_app sample_principal = FORBIDDEN"
  by code_simp

end
