(* ===== verification/Idempotency.thy ===== *)
theory Idempotency
  imports Prelude
begin

text \<open>
  \<^verbatim>\<open>EventIdempotencyCache\<close> of \<^verbatim>\<open>idempotency.py\<close>: the keys of recent events with the time each was first seen, in the
  order of the \<^verbatim>\<open>OrderedDict\<close>.  Times are in one unit throughout.
\<close>

record idem_cache =
  ttl :: int
  max_entries :: nat
  seen :: "(str \<times> int) list"

definition EventIdempotencyCache :: "int \<Rightarrow> nat \<Rightarrow> idem_cache" where
  "EventIdempotencyCache t n = \<lparr>ttl = t, max_entries = n, seen = []\<rparr>"

fun purge :: "int \<Rightarrow> int \<Rightarrow> (str \<times> int) list \<Rightarrow> (str \<times> int) list" where
  "purge t now [] = []"
| "purge t now ((k, seen_at) # rest) = (if now - seen_at < t then (k, seen_at) # rest else purge t now rest)"

definition trim :: "nat \<Rightarrow> (str \<times> int) list \<Rightarrow> (str \<times> int) list" where
  "trim n xs = drop (length xs - n) xs"

definition move_to_end :: "str \<Rightarrow> (str \<times> int) list \<Rightarrow> (str \<times> int) list" where
  "move_to_end k xs = (case dget xs k of None \<Rightarrow> xs | Some t \<Rightarrow> filter (\<lambda>e. fst e \<noteq> k) xs @ [(k, t)])"

definition check_and_store :: "str \<Rightarrow> int \<Rightarrow> idem_cache \<Rightarrow> bool \<times> idem_cache" where
  "check_and_store key now c =
    (let xs = purge (ttl c) now (seen c) in
     if dget xs key \<noteq> None then (False, c\<lparr>seen := move_to_end key xs\<rparr>)
     else (True, c\<lparr>seen := trim (max_entries c) (xs @ [(key, now)])\<rparr>))"

definition clear_cache :: "idem_cache \<Rightarrow> idem_cache" where
  "clear_cache c = c\<lparr>seen := []\<rparr>"

definition check_all :: "(str \<times> int) list \<Rightarrow> idem_cache \<Rightarrow> idem_cache" where
  "check_all reqs c = fold (\<lambda>(k, now) c. snd (check_and_store k now c)) reqs c"

section \<open>Remembering\<close>

text \<open>The key is there with its time and at most so many entries stand behind it.\<close>

definition remembered :: "str \<Rightarrow> int \<Rightarrow> nat \<Rightarrow> (str \<times> int) list \<Rightarrow> bool" where
  "remembered k t n xs = (\<exists>a b. xs = a @ (k, t) # b \<and> k \<notin> fst ` set a \<and> k \<notin> fst ` set b \<and> length b \<le> n)"

lemma rememberedI: "k \<notin> fst ` set a \<Longrightarrow> k \<notin> fst ` set b \<Longrightarrow> length b \<le> n \<Longrightarrow> remembered k t n (a @ (k, t) # b)"
  unfolding remembered_def by blast

lemma remembered_dget:
  assumes "remembered k t n xs"
  shows "dget xs k = Some t"
proof -
  obtain a b where "xs = a @ (k, t) # b" "k \<notin> fst ` set a" using assms by (auto simp: remembered_def)
  moreover from this have "dget a k = None" by (simp add: map_of_eq_None_iff)
  ultimately show ?thesis by (simp add: map_add_def)
qed

lemma purge_split: "now - t < T \<Longrightarrow> \<exists>a'. set a' \<subseteq> set a \<and> purge T now (a @ (k, t) # b) = a' @ (k, t) # b"
proof (induction a)
  case (Cons e a)
  then obtain a' where "set a' \<subseteq> set a" "purge T now (a @ (k, t) # b) = a' @ (k, t) # b" by blast
  moreover obtain k' s where "e = (k', s)" by (cases e)
  ultimately show ?case
    by (cases "now - s < T") (auto intro: exI [of _ "e # a"] exI [of _ a'])
qed simp

lemma remembered_purge:
  assumes "remembered k t n xs" and "now - t < T"
  shows "remembered k t n (purge T now xs)"
proof -
  obtain a b where x: "xs = a @ (k, t) # b" "k \<notin> fst ` set a" "k \<notin> fst ` set b" "length b \<le> n"
    using assms(1) by (auto simp: remembered_def)
  obtain a' where a': "set a' \<subseteq> set a" "purge T now xs = a' @ (k, t) # b" using purge_split [OF assms(2)] x(1) by metis
  have "k \<notin> fst ` set a'" using a'(1) x(2) by blast
  then show ?thesis unfolding a'(2) using x(3,4) by (rule rememberedI)
qed

lemma remembered_filter:
  assumes "remembered k t n xs" and "j \<noteq> k"
  shows "remembered k t (Suc n) (filter (\<lambda>e. fst e \<noteq> j) xs @ [(j, s)])"
proof -
  obtain a b where x: "xs = a @ (k, t) # b" "k \<notin> fst ` set a" "k \<notin> fst ` set b" "length b \<le> n"
    using assms(1) by (auto simp: remembered_def)
  let ?f = "filter (\<lambda>e. fst e \<noteq> j)"
  have "length (?f b) \<le> n" using x(4) length_filter_le [of "\<lambda>e. fst e \<noteq> j" b] by linarith
  then have "remembered k t (Suc n) (?f a @ (k, t) # (?f b @ [(j, s)]))"
    by (intro rememberedI) (use x assms(2) in auto)
  then show ?thesis using x(1) assms(2) by simp
qed

lemma remembered_trim:
  assumes "remembered k t n xs" and "j \<noteq> k" and "Suc (Suc n) \<le> m"
  shows "remembered k t (Suc n) (trim m (xs @ [(j, s)]))"
proof -
  obtain a b where x: "xs = a @ (k, t) # b" "k \<notin> fst ` set a" "k \<notin> fst ` set b" "length b \<le> n"
    using assms(1) by (auto simp: remembered_def)
  let ?d = "length (xs @ [(j, s)]) - m"
  have "?d \<le> length a" using x(1,4) assms(3) by simp
  then have "trim m (xs @ [(j, s)]) = drop ?d a @ (k, t) # (b @ [(j, s)])" by (simp add: trim_def x(1))
  moreover have "remembered k t (Suc n) (drop ?d a @ (k, t) # (b @ [(j, s)]))"
    by (rule rememberedI) (use x assms(2) in \<open>auto dest: in_set_dropD\<close>)
  ultimately show ?thesis by simp
qed

lemma remembered_end: "remembered k t 0 (filter (\<lambda>e. fst e \<noteq> k) xs @ [(k, t)])"
  by (rule rememberedI) auto

lemma remembered_mono: "remembered k t n xs \<Longrightarrow> n \<le> m \<Longrightarrow> remembered k t m xs"
  unfolding remembered_def by (metis le_trans)

lemma check_keeps:
  assumes r: "remembered k t n (seen c)" and now: "now - t < ttl c" and m: "Suc (Suc n) \<le> max_entries c"
  shows "remembered k t (Suc n) (seen (snd (check_and_store j now c)))"
proof -
  have p: "remembered k t n (purge (ttl c) now (seen c))" by (rule remembered_purge [OF r now])
  note here = remembered_dget [OF p]
  show ?thesis
  proof (cases "j = k")
    case True
    with here have "seen (snd (check_and_store j now c)) = filter (\<lambda>e. fst e \<noteq> k) (purge (ttl c) now (seen c)) @ [(k, t)]"
      by (simp add: check_and_store_def Let_def move_to_end_def)
    with remembered_mono [OF remembered_end] show ?thesis by simp
  next
    case False
    then show ?thesis
      using remembered_filter [OF p False] remembered_trim [OF p False m]
      by (auto simp: check_and_store_def Let_def move_to_end_def)
  qed
qed

lemma check_frame [simp]:
  "ttl (snd (check_and_store k now c)) = ttl c" "max_entries (snd (check_and_store k now c)) = max_entries c"
  by (simp_all add: check_and_store_def Let_def)

lemma check_all_keeps:
  assumes "remembered k t n (seen c)" and "\<forall>r\<in>set reqs. snd r - t < ttl c" and "Suc (n + length reqs) \<le> max_entries c"
  shows "remembered k t (n + length reqs) (seen (check_all reqs c)) \<and> ttl (check_all reqs c) = ttl c"
  using assms
proof (induction reqs arbitrary: n c)
  case (Cons r reqs)
  obtain j now where r: "r = (j, now)" by (cases r)
  have "remembered k t (Suc n) (seen (snd (check_and_store j now c)))"
    by (rule check_keeps) (use Cons.prems r in auto)
  from Cons.IH [OF this] Cons.prems show ?case by (simp add: check_all_def r)
qed (simp add: check_all_def)

lemma length_purge: "length (purge T now xs) \<le> length xs"
  by (induction T now xs rule: purge.induct) auto

lemma length_filter_key: "dget xs k \<noteq> None \<Longrightarrow> length (filter (\<lambda>e. fst e \<noteq> k) xs) < length xs"
proof -
  assume "dget xs k \<noteq> None"
  then obtain v where "(k, v) \<in> set xs" by (auto dest: map_of_SomeD)
  then show ?thesis by (rule length_filter_less) simp
qed

lemma check_bounded: "length (seen c) \<le> max_entries c \<Longrightarrow> length (seen (snd (check_and_store k now c))) \<le> max_entries c"
  using length_purge [of "ttl c" now "seen c"] length_filter_key [of "purge (ttl c) now (seen c)" k]
  by (auto simp: check_and_store_def Let_def trim_def move_to_end_def split: option.splits)

lemma check_all_bounded: "length (seen c) \<le> max_entries c \<Longrightarrow> length (seen (check_all reqs c)) \<le> max_entries c"
proof (induction reqs arbitrary: c)
  case (Cons r reqs)
  obtain j now where r: "r = (j, now)" by (cases r)
  from Cons.IH [of "snd (check_and_store j now c)"] Cons.prems check_bounded show ?case by (simp add: check_all_def r)
qed (simp add: check_all_def)

section \<open>Properties\<close>

text \<open>
  C37 [no_double_accept]: an event key that was accepted is refused for the whole of its lifetime, however many
  requests come in between, as long as fewer than the capacity do; and the cache never outgrows its capacity.
\<close>

theorem no_double_accept:
  assumes new: "check_and_store k t c = (True, c1)" and room: "length reqs < max_entries c"
    and live: "\<forall>r\<in>set reqs. snd r - t < ttl c" "now - t < ttl c"
  shows "\<not> fst (check_and_store k now (check_all reqs c1)) \<and>
    (length (seen c) \<le> max_entries c \<longrightarrow> length (seen (check_all reqs c1)) \<le> max_entries c)"
proof -
  let ?xs = "purge (ttl c) t (seen c)"
  have k: "dget ?xs k = None" and c1: "c1 = c\<lparr>seen := trim (max_entries c) (?xs @ [(k, t)])\<rparr>"
    using new by (auto simp: check_and_store_def Let_def split: if_splits)
  let ?d = "length ?xs + 1 - max_entries c"
  have "seen c1 = drop ?d ?xs @ (k, t) # []" using room by (simp add: c1 trim_def)
  moreover have "k \<notin> fst ` set (drop ?d ?xs)"
    using k by (auto simp: map_of_eq_None_iff dest: in_set_dropD)
  ultimately have r: "remembered k t 0 (seen c1)" using rememberedI [of k "drop ?d ?xs" "[]" 0 t] by simp
  have "remembered k t (length reqs) (seen (check_all reqs c1)) \<and> ttl (check_all reqs c1) = ttl c"
    using check_all_keeps [OF r, of reqs] live(1) room by (simp add: c1)
  then have "dget (purge (ttl (check_all reqs c1)) now (seen (check_all reqs c1))) k = Some t"
    using remembered_purge [THEN remembered_dget] live(2) by metis
  then have "\<not> fst (check_and_store k now (check_all reqs c1))" by (simp add: check_and_store_def)
  moreover have "length (seen (check_all reqs c1)) \<le> max_entries c" if "length (seen c) \<le> max_entries c"
    using check_all_bounded [of c1 reqs] check_bounded [OF that, of k t] new by (simp add: c1)
  ultimately show ?thesis by blast
qed

theorem no_double_accept_witness:
  "\<not> fst (check_and_store ''a'' 9 (check_all [(''b'', 5)] (snd (check_and_store ''a'' 0 (EventIdempotencyCache 10 5)))))"
proof -
  have "check_and_store ''a'' 0 (EventIdempotencyCache 10 5) = (True, snd (check_and_store ''a'' 0 (EventIdempotencyCache 10 5)))"
    by code_simp
  from no_double_accept [OF this, of "[(''b'', 5)]" 9] show ?thesis by (simp add: EventIdempotencyCache_def)
qed

text \<open>A repeated key is moved behind younger ones with its old time, and the purge stops at the first young entry.
  So a key can be refused after its lifetime: here one of age twelve where the lifetime is ten.\<close>

theorem refused_after_lifetime:
  "\<not> fst (check_and_store ''a'' 12 (check_all [(''a'', 0), (''b'', 5), (''a'', 9)] (EventIdempotencyCache 10 5)))"
  by code_simp

end
