(* ===== verification/Ingest.thy ===== *)
theory Ingest
  imports Access Idempotency QueueSpec Registry Json
begin

text \<open>
  The ingest route \<^verbatim>\<open>POST /events\<close> of \<^verbatim>\<open>main.py\<close>, from the request body to the line in the durable queue, with the
  request model of \<^verbatim>\<open>models.py\<close> and the worker table of \<^verbatim>\<open>registry.py\<close>.  The reader of the body (with the status the
  web framework answers when it cannot read it), the digest, the date parser, the clock, fresh tokens, the claim
  ledger found on disk and the behaviour of the disk are parameters; the writer is \<^verbatim>\<open>json.dumps\<close> with compact
  separators.  Strings are valid UTF-8, so a lone surrogate in a body is outside the model; the admission gate that
  may surround the append is the subject of \<^verbatim>\<open>Leases\<close>.
\<close>

section \<open>Compact JSON\<close>

fun json_compact :: "pyval \<Rightarrow> str" where
  "json_compact PNone = ''null''"
| "json_compact (PBool b) = (if b then ''true'' else ''false'')"
| "json_compact (PInt i) = int_dec i"
| "json_compact (PFloat s) = float_text s"
| "json_compact (PStr s) = json_str s"
| "json_compact (PList vs) = ''['' @ join '','' (map json_compact vs) @ '']''"
| "json_compact (PDict kvs) =
    CHR ''{'' # join '','' (map (\<lambda>kv. json_str (fst kv) @ '':'' @ json_compact (snd kv)) kvs) @ ''}''"

section \<open>The request model\<close>

record event_request =
  er_event :: str
  er_workspace :: str
  er_key :: "str option"
  er_data :: pydict

definition blank :: "str \<Rightarrow> bool" where
  "blank s = (py_strip s = [])"

definition EventRequest :: "pyval \<Rightarrow> event_request http" where
  "EventRequest v =
    (case v of
       PDict obj \<Rightarrow>
         (case (dget obj ''event'', dget obj ''workspace'', any_field obj ''working_dir'', any_field obj ''idempotency_key'',
                dget obj ''data'') of
            (Some (PStr event), Some (PStr workspace), wd, key, Some (PDict data)) \<Rightarrow>
              if blank workspace then Inl 422
              else if \<not> (case wd of PNone \<Rightarrow> True | PStr d \<Rightarrow> \<not> blank d | _ \<Rightarrow> False) then Inl 422
              else (case key of
                      PNone \<Rightarrow> Inr \<lparr>er_event = event, er_workspace = workspace, er_key = None, er_data = data\<rparr>
                    | PStr k \<Rightarrow> Inr \<lparr>er_event = event, er_workspace = workspace, er_key = Some k, er_data = data\<rparr>
                    | _ \<Rightarrow> Inl 422)
          | _ \<Rightarrow> Inl 422)
     | _ \<Rightarrow> Inl 422)"

section \<open>Keys and identities\<close>

definition NO_SESSION_PREFIX :: str where
  "NO_SESSION_PREFIX = ''_no_session__''"

definition EVENT_IDENTITY_DOMAIN :: str where
  "EVENT_IDENTITY_DOMAIN = ''amplifier-context-intelligence:event-identity:v1'' @ [CHR 0x00]"

definition new_event_identity :: "(str \<Rightarrow> str) \<Rightarrow> str \<Rightarrow> str option \<Rightarrow> str" where
  "new_event_identity sha token key =
    (case key of
       Some k \<Rightarrow> if k \<noteq> [] then ''key-'' @ sha (EVENT_IDENTITY_DOMAIN @ k) else ''new-'' @ token
     | None \<Rightarrow> ''new-'' @ token)"

text \<open>\<^verbatim>\<open>lower()\<close> as far as the slug sees it: two characters outside ASCII lower to an ASCII letter, the Kelvin sign to
  k and the dotted capital I to i and a combining dot; every other one stays outside ASCII.\<close>

fun slug_lower :: "str \<Rightarrow> str" where
  "slug_lower [] = []"
| "slug_lower (c # cs) =
    (if take 3 (c # cs) = [CHR 0xE2, CHR 0x84, CHR 0xAA] then CHR ''k'' # slug_lower (drop 2 cs)
     else if take 2 (c # cs) = [CHR 0xC4, CHR 0xB0] then CHR ''i'' # CHR 0xCC # CHR 0x87 # slug_lower (drop 1 cs)
     else to_lower c # slug_lower cs)"

definition slug_char :: "char \<Rightarrow> bool" where
  "slug_char c = ((CHR ''a'' \<le> c \<and> c \<le> CHR ''z'') \<or> is_digit c)"

text \<open>\<^verbatim>\<open>re.sub(r"[^a-z0-9]+", "-", s)\<close>; the flag says whether the run has been replaced already.\<close>

fun dash_runs :: "bool \<Rightarrow> str \<Rightarrow> str" where
  "dash_runs inside [] = []"
| "dash_runs inside (c # cs) =
    (if slug_char c then c # dash_runs False cs
     else if inside then dash_runs True cs else CHR ''-'' # dash_runs True cs)"

definition strip_dash :: "str \<Rightarrow> str" where
  "strip_dash s = rev (dropWhile (\<lambda>c. c = CHR ''-'') (rev (dropWhile (\<lambda>c. c = CHR ''-'') s)))"

definition workspace_slug :: "str \<Rightarrow> str" where
  "workspace_slug workspace =
    (let slug = strip_dash (dash_runs False (slug_lower workspace)) in if slug = [] then ''default'' else slug)"

text \<open>A session id that is no string but truthy fails on \<^verbatim>\<open>encode\<close>.\<close>

definition events_worker_key :: "(str \<Rightarrow> str) \<Rightarrow> pyval \<Rightarrow> str \<Rightarrow> str res" where
  "events_worker_key sha session_id workspace =
    (if \<not> truthy session_id then Inr (fold_worker_key sha (NO_SESSION_PREFIX @ workspace_slug workspace))
     else case session_id of PStr s \<Rightarrow> Inr (fold_worker_key sha s) | _ \<Rightarrow> Inl AttributeError)"

section \<open>Workers\<close>

text \<open>A task is running, has returned or was cancelled, or died with an exception (\<^verbatim>\<open>_task_failure\<close>).\<close>

datatype task_state = Live | FinishedTask | Crashed

record worker =
  wk_workspace :: str
  wk_created_by :: "str option"
  wk_closed :: bool
  wk_task :: "task_state option"

definition start_drain :: "worker \<Rightarrow> worker" where
  "start_drain wk =
    (if wk_closed wk then wk
     else case wk_task wk of
       Some Live \<Rightarrow> wk
     | Some Crashed \<Rightarrow> wk
     | _ \<Rightarrow> wk\<lparr>wk_task := Some Live\<rparr>)"

definition get_or_create :: "str \<Rightarrow> str \<Rightarrow> str option \<Rightarrow> worker dict \<Rightarrow> worker dict" where
  "get_or_create key workspace created_by workers =
    (case dget workers key of
       None \<Rightarrow> dset key (start_drain
         \<lparr>wk_workspace = workspace, wk_created_by = created_by, wk_closed = False, wk_task = None\<rparr>) workers
     | Some wk \<Rightarrow> dset key (start_drain wk) workers)"

section \<open>The route\<close>

record ingest_env =
  ie_sha :: "str \<Rightarrow> str"
  ie_body :: "str \<Rightarrow> pyval http"
  ie_isoformat :: "str \<Rightarrow> bool"
  ie_now :: int
  ie_token :: str
  ie_ledger :: claim_db
  ie_disk :: "wr list"

record server =
  sr_app :: app_state
  sr_cache :: idem_cache
  sr_workers :: "worker dict"
  sr_queue :: qm
  sr_accepted :: nat

datatype ingest_exc = Http nat | Raised exc

record event_response =
  ev_status :: str
  ev_session :: "str option"

definition validate_data_timestamp :: "ingest_env \<Rightarrow> pydict \<Rightarrow> unit http" where
  "validate_data_timestamp env data =
    (case dget data ''timestamp'' of
       Some (PStr v) \<Rightarrow> if blank v then Inl 400 else if ie_isoformat env v then Inr () else Inl 400
     | _ \<Rightarrow> Inl 400)"

text \<open>The scoped part of the route: the session must be named and belong to the contributor.\<close>

definition session_claim_store :: "ingest_env \<Rightarrow> server \<Rightarrow> claim_db \<times> server" where
  "session_claim_store env sv =
    (case app_claims (sr_app sv) of
       Some db \<Rightarrow> (db, sv)
     | None \<Rightarrow> (ie_ledger env, sv\<lparr>sr_app := (sr_app sv)\<lparr>app_claims := Some (ie_ledger env)\<rparr>\<rparr>))"

definition claim_for :: "ingest_env \<Rightarrow> principal \<Rightarrow> event_request \<Rightarrow> server \<Rightarrow> unit http \<times> server" where
  "claim_for env pr req sv =
    (if \<not> scoped (sr_app sv) then (Inr (), sv)
     else case dget (er_data req) ''session_id'' of
       Some (PStr sid) \<Rightarrow>
         if blank sid then (Inl 400, sv)
         else let (db, sv) = session_claim_store env sv in
           (case contributor_id pr of
              None \<Rightarrow> (Inl 409, sv)
            | Some c \<Rightarrow>
                if c = [] then (Inl 409, sv)
                else let (ok, db) = claim_session (ie_sha env) sid c (er_workspace req) db
                     in (if ok then Inr () else Inl 409, sv\<lparr>sr_app := (sr_app sv)\<lparr>app_claims := Some db\<rparr>\<rparr>))
     | _ \<Rightarrow> (Inl 400, sv))"

definition dedup_key :: "principal \<Rightarrow> event_request \<Rightarrow> bool \<Rightarrow> str \<Rightarrow> str" where
  "dedup_key pr req is_scoped k =
    (if is_scoped
     then (case contributor_id pr of None \<Rightarrow> ''None'' | Some c \<Rightarrow> c) @ [CHR 0x1F] @ er_workspace req @ [CHR 0x1F] @ k
     else k)"

definition is_new :: "ingest_env \<Rightarrow> principal \<Rightarrow> event_request \<Rightarrow> bool \<Rightarrow> server \<Rightarrow> bool \<times> server" where
  "is_new env pr req replay sv =
    (case er_key req of
       Some k \<Rightarrow>
         if k \<noteq> [] \<and> \<not> replay
         then let (new, cache) = check_and_store (dedup_key pr req (scoped (sr_app sv)) k) (ie_now env) (sr_cache sv)
              in (new, sv\<lparr>sr_cache := cache\<rparr>)
         else (True, sv)
     | None \<Rightarrow> (True, sv))"

definition pynone :: "str option \<Rightarrow> pyval" where
  "pynone x = (case x of None \<Rightarrow> PNone | Some s \<Rightarrow> PStr s)"

text \<open>The envelope that is stored: the body as sent, with the two fields the server owns overwritten.\<close>

definition stamp :: "ingest_env \<Rightarrow> principal \<Rightarrow> event_request \<Rightarrow> pydict \<Rightarrow> pydict" where
  "stamp env pr req obj =
    dset SPOOL_EVENT_IDENTITY (PStr (new_event_identity (ie_sha env) (ie_token env) (er_key req)))
      (dset ''created_by'' (pynone (contributor_id pr)) obj)"

text \<open>\<^verbatim>\<open>EventResponse(status, session_id or None)\<close>: a truthy session id that is no string fails the validation of the
  response model.\<close>

definition EventResponse :: "str \<Rightarrow> pyval \<Rightarrow> ingest_exc + event_response" where
  "EventResponse status session_id =
    (if \<not> truthy session_id then Inr \<lparr>ev_status = status, ev_session = None\<rparr>
     else case session_id of
       PStr s \<Rightarrow> Inr \<lparr>ev_status = status, ev_session = Some s\<rparr>
     | _ \<Rightarrow> Inl (Raised ValueError))"

definition session_field :: "event_request \<Rightarrow> pyval" where
  "session_field req = (case dget (er_data req) ''session_id'' of None \<Rightarrow> PStr [] | Some v \<Rightarrow> v)"

definition enqueue :: "ingest_env \<Rightarrow> principal \<Rightarrow> event_request \<Rightarrow> pydict \<Rightarrow> server \<Rightarrow> (ingest_exc + event_response) \<times> server" where
  "enqueue env pr req obj sv =
    (case events_worker_key (ie_sha env) (session_field req) (er_workspace req) of
       Inl e \<Rightarrow> (Inl (Raised e), sv)
     | Inr key \<Rightarrow>
         let sv = sv\<lparr>sr_workers := get_or_create key (er_workspace req) (contributor_id pr) (sr_workers sv)\<rparr>;
             (r, q) = append_queue (ie_disk env) key (json_compact (PDict (stamp env pr req obj))) (sr_queue sv);
             sv = sv\<lparr>sr_queue := q\<rparr>
         in (case r of
               Inl e \<Rightarrow> (Inl (Raised e), sv)
             | Inr _ \<Rightarrow>
                 (EventResponse ''queued'' (session_field req), sv\<lparr>sr_accepted := sr_accepted sv + 1\<rparr>)))"

text \<open>The framework refuses a body it cannot read before the gate of the route, an invalid model after it.\<close>

definition post_events :: "ingest_env \<Rightarrow> principal \<Rightarrow> bool \<Rightarrow> str \<Rightarrow> server \<Rightarrow> (ingest_exc + event_response) \<times> server" where
  "post_events env pr replay body sv =
    (case ie_body env body of
       Inl n \<Rightarrow> (Inl (Http n), sv)
     | Inr v \<Rightarrow>
         (case require_write (sr_app sv) pr of
            Inl n \<Rightarrow> (Inl (Http n), sv)
          | Inr _ \<Rightarrow>
              (case (EventRequest v, v) of
                 (Inr req, PDict obj) \<Rightarrow>
                   (case validate_data_timestamp env (er_data req) of
                      Inl n \<Rightarrow> (Inl (Http n), sv)
                    | Inr _ \<Rightarrow>
                        (case require_workspace_access (sr_app sv) pr (er_workspace req) ''live:write'' of
                           Inl n \<Rightarrow> (Inl (Http n), sv)
                         | Inr _ \<Rightarrow>
                             (case claim_for env pr req sv of
                                (Inl n, sv) \<Rightarrow> (Inl (Http n), sv)
                              | (Inr _, sv) \<Rightarrow>
                                  (case is_new env pr req replay sv of
                                     (False, sv) \<Rightarrow>
                                       (EventResponse ''duplicate'' (session_field req), sv)
                                   | (True, sv) \<Rightarrow> enqueue env pr req obj sv))))
               | _ \<Rightarrow> (Inl (Http 422), sv))))"

section \<open>A stored envelope is one line of ASCII\<close>

lemma json_compact_one_line: "no_nl (json_compact v)"
proof (induction v rule: json_compact.induct)
  case (4 s)
  show ?case by (auto simp: float_text_def no_nl_def NL_def)
next
  case (6 vs)
  then show ?case by (auto simp: NL_def intro!: no_nl_join)
next
  case (7 kvs)
  then show ?case by (auto simp: NL_def intro!: no_nl_join)
qed (simp_all add: NL_def)

definition ascii :: "str \<Rightarrow> bool" where
  "ascii s = list_all (\<lambda>c. of_char c < (0x80::nat)) s"

lemma ascii_simps [simp]:
  "ascii []" "ascii (c # s) = (of_char c < (0x80::nat) \<and> ascii s)" "ascii (s @ t) = (ascii s \<and> ascii t)"
  by (simp_all add: ascii_def)

lemma ascii_hex [simp]: "ascii (hex_digits k n)"
proof -
  have "m < 16 \<Longrightarrow> of_char (hex_char m) < (0x80::nat)" for m by (simp add: hex_char_def)
  then show ?thesis by (simp add: ascii_def hex_digits_def list_all_iff)
qed

lemma ascii_point [simp]: "ascii (json_point n)"
  by (simp add: json_point_def json_unit_def)

lemma ascii_char [simp]: "ascii (json_ascii b)"
  by (simp add: json_ascii_def)

lemma ascii_bytes [simp]: "ascii (json_bytes bs)"
  by (induction bs rule: json_bytes.induct) auto

lemma ascii_str [simp]: "ascii (json_str s)"
  by (simp add: json_str_def)

lemma ascii_join: "ascii sep \<Longrightarrow> (\<And>x. x \<in> set xs \<Longrightarrow> ascii x) \<Longrightarrow> ascii (join sep xs)"
  by (induction sep xs rule: join.induct) auto

lemma ascii_int_dec [simp]: "ascii (int_dec i)"
proof -
  have "ascii (nat_dec n)" for n
    using nat_dec_digits [of n] by (auto simp: ascii_def list_all_iff is_digit_def)
  then show ?thesis by (simp add: int_dec_def)
qed

lemma json_compact_ascii: "ascii (json_compact v)"
proof (induction v rule: json_compact.induct)
  case (4 s)
  show ?case by (auto simp: float_text_def ascii_def list_all_iff)
next
  case (6 vs)
  then show ?case by (auto intro!: ascii_join)
next
  case (7 kvs)
  then show ?case by (auto intro!: ascii_join)
qed simp_all

section \<open>What a request does\<close>

lemma EventRequest_fields:
  assumes "EventRequest (PDict obj) = Inr req"
  shows "dget obj ''event'' = Some (PStr (er_event req))" "dget obj ''data'' = Some (PDict (er_data req))"
    "any_field obj ''working_dir'' = PNone \<or> truthy (any_field obj ''working_dir'')"
proof -
  have "py_strip [] = []" by code_simp
  then show "dget obj ''event'' = Some (PStr (er_event req))" "dget obj ''data'' = Some (PDict (er_data req))"
    "any_field obj ''working_dir'' = PNone \<or> truthy (any_field obj ''working_dir'')"
    using assms by (auto simp: EventRequest_def blank_def split: option.splits pyval.splits if_splits)
qed

lemma stamp_fields:
  "dget (stamp env pr req obj) SPOOL_EVENT_IDENTITY =
     Some (PStr (new_event_identity (ie_sha env) (ie_token env) (er_key req)))"
  "dget (stamp env pr req obj) ''created_by'' = Some (pynone (contributor_id pr))"
  "f \<noteq> SPOOL_EVENT_IDENTITY \<Longrightarrow> f \<noteq> ''created_by'' \<Longrightarrow> dget (stamp env pr req obj) f = dget obj f"
  by (simp_all add: stamp_def update_conv' SPOOL_EVENT_IDENTITY_def)

lemma stored_line_parses:
  assumes "EventRequest (PDict obj) = Inr req"
    and "loads (json_compact (PDict (stamp env pr req obj))) = Inr (PDict (stamp env pr req obj))"
  shows "parse_line loads (json_compact (PDict (stamp env pr req obj))) =
    Inr \<lparr>pl_event = PStr (er_event req), pl_working_dir = any_field obj ''working_dir'',
         pl_data = PDict (er_data req),
         pl_identity = Some (new_event_identity (ie_sha env) (ie_token env) (er_key req))\<rparr>"
proof -
  have u: "utf8_valid (json_compact (PDict (stamp env pr req obj)))"
    using json_compact_ascii [of "PDict (stamp env pr req obj)"] unfolding ascii_def by (rule utf8_valid_ascii)
  have f: "dget (stamp env pr req obj) ''event'' = dget obj ''event''"
    "dget (stamp env pr req obj) ''data'' = dget obj ''data''"
    "any_field (stamp env pr req obj) ''working_dir'' = any_field obj ''working_dir''"
    "any_field (stamp env pr req obj) SPOOL_EVENT_IDENTITY = PStr (new_event_identity (ie_sha env) (ie_token env) (er_key req))"
    by (simp_all add: any_field_def stamp_fields) (simp_all add: stamp_fields SPOOL_EVENT_IDENTITY_def)
  show ?thesis
    using EventRequest_fields [OF assms(1)] u f
    by (auto simp: parse_line_def assms(2) Let_def simp del: json_compact.simps)
qed

lemma claim_for_keeps:
  "claim_for env pr req sv = (r, sv') \<Longrightarrow>
     sr_queue sv' = sr_queue sv \<and> sr_accepted sv' = sr_accepted sv \<and> sr_workers sv' = sr_workers sv"
  by (auto simp: claim_for_def session_claim_store_def Let_def split: if_splits option.splits pyval.splits prod.splits)

lemma is_new_keeps:
  "is_new env pr req replay sv = (r, sv') \<Longrightarrow>
     sr_queue sv' = sr_queue sv \<and> sr_accepted sv' = sr_accepted sv \<and> sr_workers sv' = sr_workers sv"
  by (auto simp: is_new_def Let_def split: if_splits option.splits prod.splits)

lemma EventResponse_status: "EventResponse s v = Inr e \<Longrightarrow> ev_status e = s"
  by (auto simp: EventResponse_def split: if_splits pyval.splits)

lemma enqueue_raises: "enqueue env pr req obj sv = (Inl x, sv') \<Longrightarrow> \<exists>e. x = Raised e"
  by (auto simp: enqueue_def EventResponse_def Let_def simp del: json_compact.simps
      split: sum.splits prod.splits if_splits pyval.splits)

text \<open>Either the request ended before the queue and left it, the workers and the count alone, or it reached \<^const>\<open>enqueue\<close>.\<close>

lemma post_events_cases:
  assumes "post_events env pr replay body sv = (r, sv')"
  obtains (early) "sr_queue sv' = sr_queue sv" "sr_accepted sv' = sr_accepted sv" "sr_workers sv' = sr_workers sv"
      "\<And>e. r = Inr e \<Longrightarrow> ev_status e = ''duplicate''"
  | (reached) obj req sv1 where "ie_body env body = Inr (PDict obj)" "EventRequest (PDict obj) = Inr req"
      "enqueue env pr req obj sv1 = (r, sv')" "sr_queue sv1 = sr_queue sv" "sr_accepted sv1 = sr_accepted sv"
      "sr_workers sv1 = sr_workers sv"
  using assms early reached unfolding post_events_def
  by (auto split: sum.splits pyval.splits prod.splits bool.splits dest!: claim_for_keeps is_new_keeps)
    (use EventResponse_status in blast)

lemma enqueue_stored:
  assumes "enqueue env pr req obj sv = (Inr e, sv')"
  obtains key q where "events_worker_key (ie_sha env) (session_field req) (er_workspace req) = Inr key"
    "append_queue (ie_disk env) key (json_compact (PDict (stamp env pr req obj))) (sr_queue sv) = (Inr (), q)"
    "sr_queue sv' = q" "sr_accepted sv' = sr_accepted sv + 1" "ev_status e = ''queued''"
    "sr_workers sv' = get_or_create key (er_workspace req) (contributor_id pr) (sr_workers sv)"
  using assms
  by (auto simp: enqueue_def Let_def simp del: json_compact.simps split: sum.splits prod.splits dest: EventResponse_status)

lemma append_valid: "append_queue sc k raw q = (Inr (), q') \<Longrightarrow> validate_session_id k = Inr ()"
  by (auto simp: append_queue_def split: sum.splits)

lemma get_or_create_spawns: "\<exists>wk. dget (get_or_create key w c ws) key = Some wk \<and> (wk_closed wk \<or> wk_task wk = Some Live \<or> wk_task wk = Some Crashed)"
  by (auto simp: get_or_create_def start_drain_def update_conv' split: option.splits task_state.splits)

section \<open>Properties\<close>

text \<open>C4 [ingest_durable]: an event answered with "queued" is on disk.  The log of the worker key derived from its
  session holds exactly one more complete line and no other file of the spool changed; that line reads back, on the
  drain side, as the event, the data and the working directory of the request under the identity the server chose;
  its author is the authenticated contributor, whatever the body said; the accepted count grew by one and the
  worker is registered with a drainer running, unless its store is closed or its last drainer crashed and awaits
  removal.  An event answered with "duplicate" or refused with an HTTP status left the spool, the workers and the
  count as they were.  Assumed: reading JSON inverts writing it on the stored envelope, and no torn
  fragment ends the log.\<close>

theorem ingest_durable:
  assumes run: "post_events env pr replay body sv = (r, sv')"
    and json: "\<forall>obj req. ie_body env body = Inr (PDict obj) \<longrightarrow> EventRequest (PDict obj) = Inr req \<longrightarrow>
      loads (json_compact (PDict (stamp env pr req obj))) = Inr (PDict (stamp env pr req obj))"
    and whole: "\<And>k. ctail (log_of (files (sr_queue sv)) k) = []"
  shows "case r of
      Inr e \<Rightarrow>
        if ev_status e = ''queued''
        then (\<exists>obj req key line.
          ie_body env body = Inr (PDict obj) \<and> EventRequest (PDict obj) = Inr req
          \<and> events_worker_key (ie_sha env) (session_field req) (er_workspace req) = Inr key
          \<and> clines (log_of (files (sr_queue sv')) key) = clines (log_of (files (sr_queue sv)) key) @ [line]
          \<and> ctail (log_of (files (sr_queue sv')) key) = []
          \<and> (\<forall>p. p \<noteq> log_path key \<longrightarrow> dget (files (sr_queue sv')) p = dget (files (sr_queue sv)) p)
          \<and> parse_line loads line = Inr \<lparr>pl_event = PStr (er_event req), pl_working_dir = any_field obj ''working_dir'',
               pl_data = PDict (er_data req),
               pl_identity = Some (new_event_identity (ie_sha env) (ie_token env) (er_key req))\<rparr>
          \<and> (\<exists>d. loads line = Inr (PDict d) \<and> dget d ''created_by'' = Some (pynone (contributor_id pr)))
          \<and> sr_accepted sv' = sr_accepted sv + 1
          \<and> (\<exists>wk. dget (sr_workers sv') key = Some wk
               \<and> (wk_closed wk \<or> wk_task wk = Some Live \<or> wk_task wk = Some Crashed)))
        else sr_queue sv' = sr_queue sv \<and> sr_workers sv' = sr_workers sv \<and> sr_accepted sv' = sr_accepted sv
    | Inl (Http n) \<Rightarrow> sr_queue sv' = sr_queue sv \<and> sr_workers sv' = sr_workers sv \<and> sr_accepted sv' = sr_accepted sv
    | Inl (Raised x) \<Rightarrow> True"
  using run
proof (cases rule: post_events_cases)
  case early
  then show ?thesis by (auto split: sum.splits ingest_exc.splits)
next
  case (reached obj req sv1)
  show ?thesis
  proof (cases r)
    case (Inl x)
    with reached(3) have "enqueue env pr req obj sv1 = (Inl x, sv')" by simp
    then obtain e where "x = Raised e" using enqueue_raises by blast
    with Inl show ?thesis by simp
  next
    case (Inr e)
    let ?line = "json_compact (PDict (stamp env pr req obj))"
    obtain key q where k: "events_worker_key (ie_sha env) (session_field req) (er_workspace req) = Inr key"
      "append_queue (ie_disk env) key ?line (sr_queue sv) = (Inr (), q)" "sr_queue sv' = q"
      "sr_accepted sv' = sr_accepted sv + 1" "ev_status e = ''queued''"
      "sr_workers sv' = get_or_create key (er_workspace req) (contributor_id pr) (sr_workers sv)"
      by (rule enqueue_stored [OF reached(3) [unfolded Inr]]) (simp only: reached(4-6))
    have nl: "no_nl ?line" by (rule json_compact_one_line)
    have log: "log_of (files q) key = log_of (files (sr_queue sv)) key @ ?line @ [NL]"
      and other: "\<And>p. p \<noteq> log_path key \<Longrightarrow> dget (files q) p = dget (files (sr_queue sv)) p"
      by (cases rule: append_queue_cases [OF append_valid [OF k(2)] nl k(2)]; simp)+
    have lines: "clines (log_of (files q) key) = clines (log_of (files (sr_queue sv)) key) @ [?line]"
      "ctail (log_of (files q) key) = []"
      using clines_close [of "log_of (files (sr_queue sv)) key @ ?line"]
        ctail_close [of "log_of (files (sr_queue sv)) key @ ?line"] nl whole [of key] log
      by (simp_all add: clines_append [of "log_of (files (sr_queue sv)) key" ?line]
          ctail_append [of "log_of (files (sr_queue sv)) key" ?line] del: json_compact.simps)
    have by_c: "dget (stamp env pr req obj) ''created_by'' = Some (pynone (contributor_id pr))" by (rule stamp_fields)
    note read = json [rule_format, OF reached(1,2)]
    note parsed = stored_line_parses [where loads = loads and env = env and pr = pr and req = req and obj = obj, OF reached(2) read]
    show ?thesis
      unfolding Inr sum.case k(5) if_P [OF refl] k(3) k(4) k(6)
      by (rule exI [of _ obj], rule exI [of _ req], rule exI [of _ key], rule exI [of _ ?line], intro conjI)
        (use reached(1,2) k(1) lines other parsed read by_c get_or_create_spawns in
          \<open>simp_all del: json_compact.simps\<close>)
  qed
qed

text \<open>A server in compatibility mode, and a request that names another author than its sender.\<close>

definition sample_obj :: pydict where
  "sample_obj =
    [(''event'', PStr ''tool:pre''), (''workspace'', PStr ''w''), (''created_by'', PStr ''eve''),
     (''idempotency_key'', PStr ''k''),
     (''data'', PDict [(''session_id'', PStr ''s''), (''timestamp'', PStr ''2024-01-01'')])]"

definition sample_req :: event_request where
  "sample_req = \<lparr>er_event = ''tool:pre'', er_workspace = ''w'', er_key = Some ''k'',
     er_data = [(''session_id'', PStr ''s''), (''timestamp'', PStr ''2024-01-01'')]\<rparr>"

definition sample_env :: "wr list \<Rightarrow> ingest_env" where
  "sample_env sc =
    \<lparr>ie_sha = (\<lambda>_. ''0''), ie_body = (\<lambda>_. Inr (PDict sample_obj)), ie_isoformat = (\<lambda>_. True), ie_now = 0,
     ie_token = ''t'', ie_ledger = \<lparr>session_claims = [], storage_bindings = None\<rparr>, ie_disk = sc\<rparr>"

definition sample_server :: server where
  "sample_server =
    \<lparr>sr_app = sample_app\<lparr>access_control_mode := ''compatibility''\<rparr>, sr_cache = EventIdempotencyCache 300 10, sr_workers = [], sr_queue = start_qm [], sr_accepted = 0\<rparr>"

theorem ingest_durable_witness:
  "\<exists>line. clines (log_of (files (sr_queue (snd (post_events (sample_env [Wrote 2]) sample_principal False [] sample_server)))) ''s'') = [line]
    \<and> sr_accepted (snd (post_events (sample_env [Wrote 2]) sample_principal False [] sample_server)) = 1"
proof -
  let ?e = "sample_env [Wrote 2]" and ?st = "stamp (sample_env [Wrote 2]) sample_principal sample_req sample_obj"
  let ?loads = "\<lambda>_. Inr (PDict ?st) :: pyval res"
  have run: "fst (post_events ?e sample_principal False [] sample_server) = Inr \<lparr>ev_status = ''queued'', ev_session = Some ''s''\<rparr>"
    by code_simp
  have req: "EventRequest (PDict sample_obj) = Inr sample_req" by code_simp
  have key: "events_worker_key (ie_sha ?e) (session_field sample_req) (er_workspace sample_req) = Inr ''s''" by code_simp
  have body: "ie_body ?e [] = Inr (PDict sample_obj)" by (simp add: sample_env_def)
  have log: "log_of (files (sr_queue sample_server)) k = []" for k
    by (simp add: sample_server_def start_qm_def log_of_def file_of_def)
  have w: "ctail (log_of (files (sr_queue sample_server)) k) = []" for k unfolding log by code_simp
  have lines: "clines (log_of (files (sr_queue sample_server)) k) = []" for k unfolding log by code_simp
  have acc: "sr_accepted sample_server = 0" by (simp add: sample_server_def)
  obtain sv' where sv': "post_events ?e sample_principal False [] sample_server =
      (Inr \<lparr>ev_status = ''queued'', ev_session = Some ''s''\<rparr>, sv')"
    using run by (metis prod.collapse)
  have json: "\<forall>obj req. ie_body ?e [] = Inr (PDict obj) \<longrightarrow> EventRequest (PDict obj) = Inr req \<longrightarrow>
      ?loads (json_compact (PDict (stamp ?e sample_principal req obj))) = Inr (PDict (stamp ?e sample_principal req obj))"
    using req body by simp
  note d = ingest_durable [where loads = ?loads, OF sv' json w, unfolded sum.case event_response.simps if_P [OF refl]]
  obtain obj req' key line where o: "ie_body ?e [] = Inr (PDict obj)" "EventRequest (PDict obj) = Inr req'"
    "events_worker_key (ie_sha ?e) (session_field req') (er_workspace req') = Inr key"
    "clines (log_of (files (sr_queue sv')) key) = clines (log_of (files (sr_queue sample_server)) key) @ [line]"
    "sr_accepted sv' = sr_accepted sample_server + 1"
    using d by (elim exE conjE) (rule that)
  have "obj = sample_obj" using o(1) body by simp
  then have "req' = sample_req" using o(2) req by simp
  then have "key = ''s''" using o(3) key by simp
  then show ?thesis using o(4,5) lines acc unfolding sv' snd_conv by simp
qed

text \<open>The key of an event is remembered before its line is written.  When the append fails, the request fails, and
  the same request sent again with a working disk is answered "duplicate" and writes nothing.\<close>

lemma stored_then_seen:
  assumes "check_and_store k now c = (True, c')" and "0 < ttl c" and "0 < max_entries c"
  shows "fst (check_and_store k now c') = False"
proof -
  have c': "ttl c' = ttl c" "seen c' = trim (max_entries c) (purge (ttl c) now (seen c) @ [(k, now)])"
    using assms(1) by (auto simp: check_and_store_def Let_def split: if_splits)
  obtain ys where ys: "seen c' = ys @ [(k, now)]"
    using assms(3) unfolding c'(2) trim_def by (simp add: Suc_diff_le)
  obtain zs where "purge (ttl c) now (ys @ (k, now) # []) = zs @ [(k, now)]"
    using purge_split [where t = now and now = now and b = "[]"] assms(2) by fastforce
  then have "k \<in> fst ` set (purge (ttl c') now (seen c'))" unfolding c'(1) ys by force
  then have "dget (purge (ttl c') now (seen c')) k \<noteq> None" by (simp add: map_of_eq_None_iff)
  then show ?thesis by (simp add: check_and_store_def Let_def)
qed

lemma enqueue_keeps: "enqueue env pr req obj sv = (r, sv') \<Longrightarrow> sr_app sv' = sr_app sv \<and> sr_cache sv' = sr_cache sv"
  by (auto simp: enqueue_def Let_def simp del: json_compact.simps split: sum.splits prod.splits)

theorem failed_append_then_duplicate:
  assumes "\<not> scoped (sr_app sv)" and "0 < ttl (sr_cache sv)" and "0 < max_entries (sr_cache sv)"
    and body: "ie_body env body = Inr (PDict obj)" "EventRequest (PDict obj) = Inr req" "er_key req = Some k" "k \<noteq> []"
      "session_field req = PStr s"
    and failed: "post_events env pr False body sv = (Inl (Raised (OSError e)), sv1)"
    and retry: "post_events (env\<lparr>ie_disk := sc\<rparr>) pr False body sv1 = (r, sv2)"
  shows "(\<exists>resp. r = Inr resp \<and> ev_status resp = ''duplicate'') \<and> sr_queue sv2 = sr_queue sv1"
proof -
  obtain n c where cs: "check_and_store k (ie_now env) (sr_cache sv) = (n, c)" by (rule prod.exhaust)
  have new: "is_new env pr req False sv = (n, sv\<lparr>sr_cache := c\<rparr>)"
    using body(3,4) cs assms(1) by (simp add: is_new_def dedup_key_def)
  have gates: "require_write (sr_app sv) pr = Inr ()" "validate_data_timestamp env (er_data req) = Inr ()"
    "require_workspace_access (sr_app sv) pr (er_workspace req) ''live:write'' = Inr ()" n
    "enqueue env pr req obj (sv\<lparr>sr_cache := c\<rparr>) = (Inl (Raised (OSError e)), sv1)"
    using failed body(1,2,5) new assms(1)
    by (auto simp: post_events_def claim_for_def EventResponse_def split: sum.splits bool.splits if_splits)
  have kept: "sr_app sv1 = sr_app sv" "sr_cache sv1 = c" using enqueue_keeps [OF gates(5)] by simp_all
  obtain c2 where again: "check_and_store k (ie_now env) c = (False, c2)"
    using stored_then_seen [of k "ie_now env" "sr_cache sv" c] cs gates(4) assms(2,3) by (metis prod.collapse)
  have "is_new (env\<lparr>ie_disk := sc\<rparr>) pr req False sv1 = (False, sv1\<lparr>sr_cache := c2\<rparr>)"
    using body(3,4) again kept assms(1) by (simp add: is_new_def dedup_key_def)
  moreover have "validate_data_timestamp (env\<lparr>ie_disk := sc\<rparr>) (er_data req) = Inr ()"
    using gates(2) by (auto simp: validate_data_timestamp_def split: option.splits pyval.splits if_splits)
  ultimately show ?thesis
    using retry gates(1,3) kept body(1,2,5) assms(1)
    by (auto simp: post_events_def claim_for_def EventResponse_def split: if_splits)
qed

theorem append_can_fail:
  "fst (post_events (sample_env [WFail 28]) sample_principal False [] sample_server)
     = Inl (Raised (OSError 28))"
  by code_simp

text \<open>Two workspaces whose session-less events share one log.\<close>

theorem slug_collides:
  "events_worker_key sha (PStr []) ''team a'' = events_worker_key sha (PStr []) ''team-a''"
proof -
  have "workspace_slug ''team a'' = workspace_slug ''team-a''" by code_simp
  then show ?thesis by (simp add: events_worker_key_def)
qed

end
