(* ===== verification/Buffer.thy ===== *)
theory Buffer
  imports Graph Json "HOL-Library.Product_Lexorder"
begin

text \<open>
  The write side of \<^verbatim>\<open>Neo4jGraphStore\<close> in \<^verbatim>\<open>neo4j_store.py\<close>: handlers fill three buffers, and a flush sends them to the
  database in chunks bounded by rows and by bytes, nodes before label patches before edges, each chunk in a
  transaction of its own.  The database is a parameter: a transaction on a chunk returns or raises.
\<close>

section \<open>Buffers\<close>

record label_patch =
  lp_node :: str
  lp_remove :: "str list"
  lp_add :: "str list"

record buffers =
  node_buffer :: "pydict dict"
  edge_buffer :: "((str \<times> str) \<times> pydict) list"
  label_patches :: "label_patch list"

definition discard_buffer :: "buffers \<Rightarrow> buffers" where
  "discard_buffer b = b\<lparr>node_buffer := [], edge_buffer := [], label_patches := []\<rparr>"

abbreviation no_buffers :: buffers where
  "no_buffers \<equiv> \<lparr>node_buffer = [], edge_buffer = [], label_patches = []\<rparr>"

fun union_labels :: "str list \<Rightarrow> str list \<Rightarrow> str list" where
  "union_labels existing [] = existing"
| "union_labels existing (l # ls) = union_labels (if l \<in> set existing then existing else existing @ [l]) ls"

definition buffered :: "buffers \<Rightarrow> str \<Rightarrow> pydict" where
  "buffered b n = (case dget (node_buffer b) n of None \<Rightarrow> [] | Some d \<Rightarrow> d)"

definition upsert_node_buf :: "str \<Rightarrow> pydict \<Rightarrow> buffers \<Rightarrow> buffers" where
  "upsert_node_buf node_id data b =
    (let existing = buffered b node_id;
         existing =
           (case dget data ''labels'' of
              None \<Rightarrow> existing
            | Some ls \<Rightarrow> dset ''labels'' (label_list (union_labels (labels_of existing) (as_labels (Some ls)))) existing);
         existing = dupdate existing (filter (\<lambda>(key, value). key \<noteq> ''labels'') data)
     in b\<lparr>node_buffer := dset node_id existing (node_buffer b)\<rparr>)"

definition upsert_edge_buf :: "str \<Rightarrow> str \<Rightarrow> pydict \<Rightarrow> buffers \<Rightarrow> buffers" where
  "upsert_edge_buf src_id dst_id data b =
    (let key = (src_id, dst_id);
         existing = (case map_of (edge_buffer b) key of None \<Rightarrow> [] | Some d \<Rightarrow> d)
     in b\<lparr>edge_buffer := AList.update key (dupdate existing data) (edge_buffer b)\<rparr>)"

text \<open>The buffer is read first; a failing fallback query counts as an absent node.\<close>

definition get_node_buf :: "(str \<Rightarrow> pydict option res) \<Rightarrow> str \<Rightarrow> buffers \<Rightarrow> pydict option" where
  "get_node_buf query node_id b =
    (case dget (node_buffer b) node_id of
       Some d \<Rightarrow> Some d
     | None \<Rightarrow> (case query node_id of Inr v \<Rightarrow> v | Inl _ \<Rightarrow> None))"

definition remove_edge_buf :: "str \<Rightarrow> str \<Rightarrow> buffers \<Rightarrow> buffers" where
  "remove_edge_buf src_id dst_id b = b\<lparr>edge_buffer := AList.delete (src_id, dst_id) (edge_buffer b)\<rparr>"

definition set_labels_buf :: "str \<Rightarrow> str list \<Rightarrow> str list \<Rightarrow> buffers \<Rightarrow> buffers" where
  "set_labels_buf node_id remove_labels add_labels b =
    (let existing = buffered b node_id;
         current = filter (\<lambda>l. l \<notin> set remove_labels) (labels_of existing)
     in b\<lparr>node_buffer := dset node_id (dset ''labels'' (label_list (sorted_set (current @ add_labels))) existing) (node_buffer b),
          label_patches := label_patches b @ [\<lparr>lp_node = node_id, lp_remove = remove_labels, lp_add = add_labels\<rparr>]\<rparr>)"

section \<open>Chunks\<close>

definition serialized_row_size :: "pyval \<Rightarrow> nat" where
  "serialized_row_size v = length (json_dumps v)"

definition patch_row :: "label_patch \<Rightarrow> pyval" where
  "patch_row p = PDict [(''node_id'', PStr (lp_node p)), (''remove'', label_list (lp_remove p)), (''add'', label_list (lp_add p))]"

fun chunk_loop :: "('a \<Rightarrow> nat) \<Rightarrow> nat \<Rightarrow> nat \<Rightarrow> 'a list \<Rightarrow> nat \<Rightarrow> nat \<Rightarrow> 'a list \<Rightarrow> 'a list list" where
  "chunk_loop sz max_rows max_bytes chunk cur_rows cur_bytes [] = (if chunk \<noteq> [] then [chunk] else [])"
| "chunk_loop sz max_rows max_bytes chunk cur_rows cur_bytes (x # xs) =
    (if chunk \<noteq> [] \<and> (max_rows < cur_rows + 1 \<or> max_bytes < cur_bytes + sz x)
     then chunk # chunk_loop sz max_rows max_bytes [x] 1 (sz x) xs
     else chunk_loop sz max_rows max_bytes (chunk @ [x]) (cur_rows + 1) (cur_bytes + sz x) xs)"

definition chunk_dict :: "('k \<times> pydict) list \<Rightarrow> nat \<Rightarrow> nat \<Rightarrow> ('k \<times> pydict) list list" where
  "chunk_dict snapshot max_rows max_bytes =
    chunk_loop (\<lambda>(key, value). serialized_row_size (PDict value)) max_rows max_bytes [] 0 0 snapshot"

definition chunk_list :: "label_patch list \<Rightarrow> nat \<Rightarrow> nat \<Rightarrow> label_patch list list" where
  "chunk_list snapshot max_rows max_bytes =
    chunk_loop (\<lambda>p. serialized_row_size (patch_row p)) max_rows max_bytes [] 0 0 snapshot"

section \<open>Flush\<close>

datatype flush_tx =
    Nodes "(str \<times> pydict) list"
  | Patches "label_patch list"
  | Edges "((str \<times> str) \<times> pydict) list"

text \<open>The transactions of a flush in order.  The limits are at least one (\<^verbatim>\<open>__init__\<close>).\<close>

definition writes :: "nat \<Rightarrow> nat \<Rightarrow> buffers \<Rightarrow> flush_tx list" where
  "writes rows byts b =
    map Nodes (chunk_dict (sort_key fst (node_buffer b)) (max 1 rows) (max 1 byts))
    @ map Patches (chunk_list (label_patches b) (max 1 rows) (max 1 byts))
    @ map Edges (chunk_dict (sort_key fst (edge_buffer b)) (max 1 rows) (max 1 byts))"

fun run_writes :: "(flush_tx \<Rightarrow> 'd \<Rightarrow> unit res \<times> 'd) \<Rightarrow> flush_tx list \<Rightarrow> 'd \<Rightarrow> unit res \<times> 'd" where
  "run_writes execute_write [] d = (Inr (), d)"
| "run_writes execute_write (w # ws) d =
    (case execute_write w d of
       (Inl e, d) \<Rightarrow> (Inl e, d)
     | (Inr _, d) \<Rightarrow> run_writes execute_write ws d)"

text \<open>\<^verbatim>\<open>dict(snapshot)\<close> updated with the buffer that filled during the flush, entry by entry.\<close>

definition restore :: "buffers \<Rightarrow> buffers \<Rightarrow> buffers" where
  "restore snapshot now =
    \<lparr>node_buffer = dupdate (node_buffer snapshot) (node_buffer now),
     edge_buffer = dupdate (edge_buffer snapshot) (edge_buffer now),
     label_patches = label_patches snapshot @ label_patches now\<rparr>"

text \<open>\<open>later\<close> is what other calls buffered between the snapshot and the end of the flush.\<close>

definition flush_body ::
  "nat \<Rightarrow> nat \<Rightarrow> ('d \<Rightarrow> unit res \<times> 'd) \<Rightarrow> (flush_tx \<Rightarrow> 'd \<Rightarrow> unit res \<times> 'd) \<Rightarrow> buffers \<Rightarrow> buffers \<Rightarrow> 'd \<Rightarrow> unit res \<times> buffers \<times> 'd" where
  "flush_body rows byts ensure_schema execute_write later b d =
    (if node_buffer b = [] \<and> edge_buffer b = [] \<and> label_patches b = [] then (Inr (), b, d)
     else
       let (r, d) =
         (case ensure_schema d of
            (Inl e, d) \<Rightarrow> (Inl e, d)
          | (Inr _, d) \<Rightarrow> run_writes execute_write (writes rows byts b) d)
       in case r of
            Inl e \<Rightarrow> (Inl e, restore b later, d)
          | Inr _ \<Rightarrow> (Inr (), later, d))"

section \<open>Chunks cover the snapshot within their bounds\<close>

lemma chunk_loop_concat: "concat (chunk_loop sz R B chunk r c xs) = chunk @ xs"
  by (induction xs arbitrary: chunk r c) simp_all

definition within :: "('a \<Rightarrow> nat) \<Rightarrow> nat \<Rightarrow> nat \<Rightarrow> 'a list \<Rightarrow> bool" where
  "within sz R B ch = (ch \<noteq> [] \<and> length ch \<le> R \<and> (sum_list (map sz ch) \<le> B \<or> length ch = 1))"

lemma chunk_loop_within:
  assumes "1 \<le> R" and "chunk \<noteq> [] \<Longrightarrow> within sz R B chunk" and "r = length chunk" and "c = sum_list (map sz chunk)"
  shows "\<forall>ch\<in>set (chunk_loop sz R B chunk r c xs). within sz R B ch"
  using assms(2-)
proof (induction xs arbitrary: chunk r c)
  case (Cons x xs)
  have one: "within sz R B [x]" using assms(1) by (simp add: within_def)
  show ?case
  proof (cases "chunk \<noteq> [] \<and> (R < r + 1 \<or> B < c + sz x)")
    case True
    have "\<forall>ch\<in>set (chunk_loop sz R B [x] 1 (sz x) xs). within sz R B ch" by (rule Cons.IH) (simp_all add: one)
    moreover have "within sz R B chunk" using True Cons.prems(1) by blast
    ultimately show ?thesis using True by simp
  next
    case False
    have "within sz R B (chunk @ [x])"
      using False one Cons.prems by (cases "chunk = []") (auto simp: within_def)
    then have "\<forall>ch\<in>set (chunk_loop sz R B (chunk @ [x]) (r + 1) (c + sz x) xs). within sz R B ch"
      by (intro Cons.IH) (simp_all add: Cons.prems(2,3))
    then show ?thesis using False by auto
  qed
qed simp

lemma chunk_dict_ok:
  "concat (chunk_dict xs R B) = xs"
  "1 \<le> R \<Longrightarrow> ch \<in> set (chunk_dict xs R B) \<Longrightarrow> within (\<lambda>(key, value). serialized_row_size (PDict value)) R B ch"
  using chunk_loop_within [where chunk = "[]" and r = 0 and c = 0 and xs = xs and R = R and B = B] 
  by (auto simp: chunk_dict_def chunk_loop_concat)

lemma chunk_list_ok:
  "concat (chunk_list ps R B) = ps"
  "1 \<le> R \<Longrightarrow> ch \<in> set (chunk_list ps R B) \<Longrightarrow> within (\<lambda>p. serialized_row_size (patch_row p)) R B ch"
  using chunk_loop_within [where chunk = "[]" and r = 0 and c = 0 and xs = ps and R = R and B = B]
  by (auto simp: chunk_list_def chunk_loop_concat)

section \<open>What a flush sends\<close>

fun rows_of :: "flush_tx \<Rightarrow> nat" where
  "rows_of (Nodes ns) = length ns"
| "rows_of (Patches ps) = length ps"
| "rows_of (Edges es) = length es"

fun bytes_of :: "flush_tx \<Rightarrow> nat" where
  "bytes_of (Nodes ns) = sum_list (map (\<lambda>(key, value). serialized_row_size (PDict value)) ns)"
| "bytes_of (Patches ps) = sum_list (map (\<lambda>p. serialized_row_size (patch_row p)) ps)"
| "bytes_of (Edges es) = sum_list (map (\<lambda>(key, value). serialized_row_size (PDict value)) es)"

definition sent_nodes :: "flush_tx list \<Rightarrow> (str \<times> pydict) list" where
  "sent_nodes ws = concat (map (\<lambda>w. case w of Nodes ns \<Rightarrow> ns | _ \<Rightarrow> []) ws)"

definition sent_patches :: "flush_tx list \<Rightarrow> label_patch list" where
  "sent_patches ws = concat (map (\<lambda>w. case w of Patches ps \<Rightarrow> ps | _ \<Rightarrow> []) ws)"

definition sent_edges :: "flush_tx list \<Rightarrow> ((str \<times> str) \<times> pydict) list" where
  "sent_edges ws = concat (map (\<lambda>w. case w of Edges es \<Rightarrow> es | _ \<Rightarrow> []) ws)"

fun phase :: "flush_tx \<Rightarrow> nat" where
  "phase (Nodes _) = 0"
| "phase (Patches _) = 1"
| "phase (Edges _) = 2"

lemmas sent_defs = sent_nodes_def sent_patches_def sent_edges_def

lemma concat_none: "concat (map (\<lambda>x. []) xs) = []"
  by (induction xs) simp_all

lemma writes_cover:
  "sent_nodes (writes R B b) = sort_key fst (node_buffer b)" "sent_patches (writes R B b) = label_patches b"
  "sent_edges (writes R B b) = sort_key fst (edge_buffer b)"
  by (simp_all add: sent_defs writes_def chunk_dict_ok(1) chunk_list_ok(1) comp_def concat_none)

lemma writes_bounded:
  "w \<in> set (writes R B b) \<Longrightarrow> 1 \<le> rows_of w \<and> rows_of w \<le> max 1 R \<and> (bytes_of w \<le> max 1 B \<or> rows_of w = 1)"
  using chunk_dict_ok(2) [where R = "max 1 R" and B = "max 1 B" and xs = "sort_key fst (node_buffer b)"]
    chunk_dict_ok(2) [where R = "max 1 R" and B = "max 1 B" and xs = "sort_key fst (edge_buffer b)"]
    chunk_list_ok(2) [where R = "max 1 R" and B = "max 1 B" and ps = "label_patches b"]
  by (fastforce simp: writes_def within_def Suc_le_eq)

lemma sorted_same: "sorted (map (\<lambda>x. n :: nat) xs)"
  by (induction xs) simp_all

lemma writes_phased: "sorted (map phase (writes R B b))"
  by (simp add: writes_def sorted_append comp_def sorted_same)

definition rolls_back :: "(flush_tx \<Rightarrow> 'd \<Rightarrow> unit res \<times> 'd) \<Rightarrow> bool" where
  "rolls_back ex = (\<forall>w d e d'. ex w d = (Inl e, d') \<longrightarrow> d' = d)"

lemma run_writes_prefix:
  assumes "run_writes ex ws d = (r, d')" and "rolls_back ex"
  shows "\<exists>pre post. ws = pre @ post \<and> d' = fold (\<lambda>w d. snd (ex w d)) pre d \<and> (r = Inr () \<longleftrightarrow> post = [])"
  using assms(1)
proof (induction ws arbitrary: d)
  case (Cons w ws)
  show ?case
  proof (cases "ex w d")
    case (Pair r1 d1)
    show ?thesis
    proof (cases r1)
      case (Inl e)
      then have "d' = d" "r = Inl e" using Cons.prems Pair assms(2) by (auto simp: rolls_back_def)
      then show ?thesis by (intro exI [of _ "[]"] exI [of _ "w # ws"]) simp
    next
      case (Inr u)
      then obtain pre post where "ws = pre @ post" "d' = fold (\<lambda>w d. snd (ex w d)) pre d1" "r = Inr () \<longleftrightarrow> post = []"
        using Cons.IH [of d1] Cons.prems Pair by auto
      then show ?thesis using Pair by (intro exI [of _ "w # pre"] exI [of _ post]) simp
    qed
  qed
qed simp

section \<open>Properties\<close>

text \<open>C38 [flush_complete]: a flush that returns has sent every buffered node, label patch and edge exactly once, in
  transactions that each hold at most the configured rows and bytes (a single larger row alone), all nodes before all
  patches before all edges and nodes and edges in key order, and keeps in the buffers only what arrived meanwhile.
  A flush that raises has committed a prefix of those transactions and gives back every entry and
  every patch: when nothing arrived meanwhile the buffers are what they were, so the next flush sends the same
  transactions again.  Assumed: a transaction that
  raises is rolled back, and setting up indexes changes no data.\<close>

theorem flush_complete:
  assumes run: "flush_body R B sch ex later b d = (r, b', d')"
    and rollback: "rolls_back ex" and schema: "\<forall>d. snd (sch d) = d"
    and busy: "b \<noteq> no_buffers"
  shows "\<exists>pre post. writes R B b = pre @ post \<and> d' = fold (\<lambda>w d. snd (ex w d)) pre d
    \<and> sorted (map phase (writes R B b))
    \<and> sent_nodes (writes R B b) = sort_key fst (node_buffer b) \<and> sent_patches (writes R B b) = label_patches b
    \<and> sent_edges (writes R B b) = sort_key fst (edge_buffer b)
    \<and> list_all (\<lambda>w. 1 \<le> rows_of w \<and> rows_of w \<le> max 1 R \<and> (bytes_of w \<le> max 1 B \<or> rows_of w = 1)) (writes R B b)
    \<and> (case r of
         Inr _ \<Rightarrow> post = [] \<and> b' = later
       | Inl e \<Rightarrow> label_patches b' = label_patches b @ label_patches later \<and> (later = no_buffers \<longrightarrow> b' = b))"
proof -
  have ne: "\<not> (node_buffer b = [] \<and> edge_buffer b = [] \<and> label_patches b = [])" using busy by (cases b) auto
  have same: "restore b no_buffers = b" by (cases b) (simp add: restore_def)
  have fixed: "sorted (map phase (writes R B b))" "sent_nodes (writes R B b) = sort_key fst (node_buffer b)"
    "sent_patches (writes R B b) = label_patches b" "sent_edges (writes R B b) = sort_key fst (edge_buffer b)"
    "list_all (\<lambda>w. 1 \<le> rows_of w \<and> rows_of w \<le> max 1 R \<and> (bytes_of w \<le> max 1 B \<or> rows_of w = 1)) (writes R B b)"
    by (simp_all only: writes_phased writes_cover list_all_iff) (rule ballI, erule writes_bounded)
  obtain rs ds where s: "sch d = (rs, ds)" by (rule prod.exhaust)
  have ds: "ds = d" using schema [rule_format, of d] s by simp
  show ?thesis
  proof (cases rs)
    case (Inl e)
    then have "r = Inl e" "b' = restore b later" "d' = d" using run s ds ne by (auto simp: flush_body_def)
    then show ?thesis using fixed same by (intro exI [of _ "[]"] exI [of _ "writes R B b"]) (auto simp: restore_def)
  next
    case (Inr u)
    obtain rw dw where w: "run_writes ex (writes R B b) d = (rw, dw)" by (rule prod.exhaust)
    obtain pre post where p: "writes R B b = pre @ post" "dw = fold (\<lambda>w d. snd (ex w d)) pre d" "rw = Inr () \<longleftrightarrow> post = []"
      using run_writes_prefix [OF w rollback] by auto
    have "d' = dw" "case rw of Inr _ \<Rightarrow> r = Inr () \<and> b' = later | Inl e \<Rightarrow> r = Inl e \<and> b' = restore b later"
      using run s ds ne Inr w by (auto simp: flush_body_def split: sum.splits)
    then show ?thesis
      using fixed same p by (intro exI [of _ pre] exI [of _ post]) (auto simp: restore_def split: sum.splits)
  qed
qed

text \<open>Two buffered nodes and a limit of one row: the second transaction fails.\<close>

definition sample_buffers :: buffers where
  "sample_buffers = \<lparr>node_buffer = [(''b'', []), (''a'', [])], edge_buffer = [], label_patches = []\<rparr>"

definition sample_tx :: "flush_tx \<Rightarrow> nat \<Rightarrow> unit res \<times> nat" where
  "sample_tx w n = (if 1 \<le> n then (Inl DriverTransient, n) else (Inr (), n + rows_of w))"

theorem flush_complete_witness:
  "fst (flush_body 1 100 (\<lambda>n. (Inr (), n)) sample_tx no_buffers sample_buffers 0) = Inl DriverTransient \<and>
   fst (snd (flush_body 1 100 (\<lambda>n. (Inr (), n)) sample_tx no_buffers sample_buffers 0)) = sample_buffers"
proof -
  let ?f = "flush_body 1 100 (\<lambda>n. (Inr (), n)) sample_tx no_buffers sample_buffers 0"
  have e: "fst ?f = Inl DriverTransient" by code_simp
  obtain r b' d' where f: "?f = (r, b', d')" by (metis prod.exhaust)
  have tx: "rolls_back sample_tx" by (auto simp: rolls_back_def sample_tx_def split: if_splits)
  have sch: "\<forall>n. snd ((\<lambda>n. (Inr (), n) :: unit res \<times> nat) n) = n" by simp
  have ne: "sample_buffers \<noteq> no_buffers" by (simp add: sample_buffers_def)
  from flush_complete [OF f tx sch ne] e f show ?thesis by auto
qed

text \<open>A failed flush is documented to merge what arrived during it.  It replaces whole entries: the status that was
  buffered for a node is gone when the node was touched meanwhile.\<close>

theorem restore_drops_properties:
  "let b = upsert_node_buf ''n'' [(''status'', PStr ''done'')] no_buffers;
       later = upsert_node_buf ''n'' [(''last_updated'', PStr ''t'')] no_buffers
   in dget (node_buffer (restore b later)) ''n'' = Some [(''last_updated'', PStr ''t'')]"
  by code_simp

end
