(* ===== verification/Deletion.thy ===== *)
theory Deletion
  imports QueueSpec GraphSpec Blobs
begin

text \<open>
  \<^verbatim>\<open>DeletionService\<close> of \<^verbatim>\<open>deletion.py\<close>: a preview of what deleting a session tree would remove, and the deletion itself,
  which composes the queue, the graph and the blob store in that order.  The order in which a \<^verbatim>\<open>frozenset\<close> of sessions
  is visited is a parameter, and so are the storage guard and whatever other requests do to the queue just
  before a session's queue files are deleted.
\<close>

section \<open>The service\<close>

record stores =
  st_queue :: qm
  st_graph :: graph
  st_blobs :: blob_root

record del_env =
  de_sha :: "str \<Rightarrow> str"
  de_parse :: "str \<Rightarrow> datetime option"
  de_order :: "str list \<Rightarrow> str list"
  de_guard :: "(str list \<Rightarrow> unit res) option"
  de_noise :: "str \<Rightarrow> qm \<Rightarrow> qm"

datatype del_exc = SessionsPendingError str "str list" | Raised_del exc

record deletion_preview =
  dp_graph :: session_graph
  dp_blob_count :: nat
  dp_blob_bytes :: int
  dp_deletable :: bool
  dp_pending :: "str list"


fun pending_loop :: "(str \<Rightarrow> str) \<Rightarrow> str list \<Rightarrow> qm \<Rightarrow> str list res" where
  "pending_loop sha [] q = Inr []"
| "pending_loop sha (sid # sids) q =
    bind_res (pending_count (fold_worker_key sha sid) q) (\<lambda>n.
    bind_res (pending_loop sha sids q) (\<lambda>rest. Inr (if 0 < n then sid # rest else rest)))"

definition pending_sessions_of :: "(str \<Rightarrow> str) \<Rightarrow> str list \<Rightarrow> qm \<Rightarrow> str list res" where
  "pending_sessions_of sha sids q = pending_loop sha (sort sids) q"

fun list_all_blobs :: "(str \<Rightarrow> str) \<Rightarrow> str list \<Rightarrow> blob_root \<Rightarrow> str list res" where
  "list_all_blobs sha [] root = Inr []"
| "list_all_blobs sha (sid # sids) root =
    bind_res (list_blobs sha root sid) (\<lambda>uris. bind_res (list_all_blobs sha sids root) (\<lambda>rest. Inr (uris @ rest)))"

fun total_blob_size :: "(str \<Rightarrow> str) \<Rightarrow> blob_root \<Rightarrow> str list \<Rightarrow> int res" where
  "total_blob_size sha root [] = Inr 0"
| "total_blob_size sha root (uri # uris) =
    bind_res (size_blob sha root uri) (\<lambda>n. bind_res (total_blob_size sha root uris) (\<lambda>m. Inr (n + m)))"

definition blob_stats :: "(str \<Rightarrow> str) \<Rightarrow> str list \<Rightarrow> blob_root \<Rightarrow> (nat \<times> int) res" where
  "blob_stats sha sids root =
    bind_res (list_all_blobs sha sids root) (\<lambda>uris.
    bind_res (total_blob_size sha root uris) (\<lambda>total_bytes. Inr (length uris, total_bytes)))"

definition storage_guard :: "del_env \<Rightarrow> str list \<Rightarrow> unit res" where
  "storage_guard env sids = (case de_guard env of None \<Rightarrow> Inr () | Some g \<Rightarrow> g sids)"

definition preview_deletion :: "del_env \<Rightarrow> str \<Rightarrow> stores \<Rightarrow> deletion_preview option res" where
  "preview_deletion env session_id w =
    bind_res (resolve_session_graph (de_parse env) session_id (st_graph w)) (\<lambda>resolved.
    case resolved of
      None \<Rightarrow> Inr None
    | Some sg \<Rightarrow>
        bind_res (storage_guard env (session_ids sg)) (\<lambda>_.
        bind_res (pending_sessions_of (de_sha env) (session_ids sg) (st_queue w)) (\<lambda>undrained.
        bind_res (blob_stats (de_sha env) (de_order env (session_ids sg)) (st_blobs w)) (\<lambda>(blob_count, blob_bytes).
        Inr (Some \<lparr>dp_graph = sg, dp_blob_count = blob_count, dp_blob_bytes = blob_bytes,
                   dp_deletable = (undrained = []), dp_pending = undrained\<rparr>)))))"

text \<open>The queue files go first; a session that has records again refuses, and the rest stays.\<close>

fun delete_queues :: "del_env \<Rightarrow> str \<Rightarrow> str list \<Rightarrow> nat \<Rightarrow> qm \<Rightarrow> (del_exc + nat) \<times> qm" where
  "delete_queues env root [] cleaned q = (Inr cleaned, q)"
| "delete_queues env root (sid # sids) cleaned q =
    (case delete_session (fold_worker_key (de_sha env) sid) (de_noise env sid q) of
       (Inl RuntimeError, q) \<Rightarrow> (Inl (SessionsPendingError root [sid]), q)
     | (Inl e, q) \<Rightarrow> (Inl (Raised_del e), q)
     | (Inr removed, q) \<Rightarrow> delete_queues env root sids (if removed then cleaned + 1 else cleaned) q)"




section \<open>The steps\<close>

abbreviation queue_files :: "str \<Rightarrow> str set" where
  "queue_files k \<equiv> {log_path k, offset_path k, dead_path k}"

lemma delete_session_files:
  assumes "delete_session k q = (Inr b, q')"
  shows "dget (files q') p = (if p \<in> queue_files k then None else dget (files q) p)"
proof -
  have v: "validate_session_id k = Inr ()" using assms by (auto simp: delete_session_def split: sum.splits)
  have o: "session_outcome k (files q) = (Inr b, files q')"
    using delete_session_outcome [OF v, of q] assms by (simp add: outcome_def)
  then have "unlink_each [log_path k, offset_path k, dead_path k] False (files q) = (Inr b, files q')"
    by (auto simp: session_outcome_def split: sum.splits if_splits)
  then have "files q' = fold AList.delete [log_path k, offset_path k, dead_path k] (files q)"
    using unlink_each_eq [of "[log_path k, offset_path k, dead_path k]" False "files q"] v by auto
  then show ?thesis by (auto simp: delete_conv')
qed













section \<open>Properties\<close>






text \<open>The refusal says that nothing was deleted.  When the second session of the tree gets a record after the check,
  the first one has lost its queue files, the dead letters among them.\<close>

theorem refusal_after_loss:
  assumes "delete_session (fold_worker_key (de_sha env) s1) (de_noise env s1 q) = (Inr b, q1)"
    and "delete_session (fold_worker_key (de_sha env) s2) (de_noise env s2 q1) = (Inl RuntimeError, q2)"
  shows "delete_queues env root [s1, s2] 0 q = (Inl (SessionsPendingError root [s2]), q2) \<and>
    dget (files q1) (dead_path (fold_worker_key (de_sha env) s1)) = None"
  using assms by (simp add: delete_session_files)

end
