(* ===== verification/Counters.thy ===== *)
theory Counters
  imports QueueManager
begin

text \<open>
  The conservation counters of \<^verbatim>\<open>registry.py\<close> and the health block computed from them and from the cached statistics of
  the queue.  The statistics are absent until the first background refresh.  Times are in one unit, the
  grace period is a parameter.
\<close>

record counters =
  ct_accepted :: int
  ct_written :: int
  ct_replayed :: int
  ct_write_retries :: int
  residual_positive_since :: "int option"

definition record_accepted :: "int \<Rightarrow> counters \<Rightarrow> counters" where
  "record_accepted n c = c\<lparr>ct_accepted := ct_accepted c + n\<rparr>"

definition count_written :: "int \<Rightarrow> counters \<Rightarrow> counters" where
  "count_written n c = c\<lparr>ct_written := ct_written c + n\<rparr>"

definition record_replayed :: "int \<Rightarrow> counters \<Rightarrow> counters" where
  "record_replayed n c = c\<lparr>ct_replayed := ct_replayed c + n\<rparr>"

definition record_purged :: "int \<Rightarrow> counters \<Rightarrow> counters" where
  "record_purged n c =
    (if n \<le> 0 then c else c\<lparr>ct_accepted := max (ct_written c) (ct_accepted c - n)\<rparr>)"

definition count_write_retry :: "counters \<Rightarrow> counters" where
  "count_write_retry c = c\<lparr>ct_write_retries := ct_write_retries c + 1\<rparr>"

definition seed_counters :: "int \<Rightarrow> int \<Rightarrow> counters \<Rightarrow> counters" where
  "seed_counters accepted written c =
    c\<lparr>ct_accepted := ct_accepted c + accepted, ct_written := ct_written c + written\<rparr>"

section \<open>Health\<close>

record metrics =
  pm_residual :: "int option"
  pm_degraded :: bool

definition pipeline_metrics :: "int \<Rightarrow> int \<Rightarrow> all_stats option \<Rightarrow> counters \<Rightarrow> metrics \<times> counters" where
  "pipeline_metrics grace now agg c =
    (let in_queue = (case agg of None \<Rightarrow> 0 | Some s \<Rightarrow> int (in_queue_total s));
         dead = (case agg of None \<Rightarrow> 0 | Some s \<Rightarrow> int (dead_total s));
         residual = ct_accepted c - ct_written c - in_queue - dead;
         lost = (if agg \<noteq> None then max 0 residual else 0);
         since = (if 0 < lost then (case residual_positive_since c of None \<Rightarrow> Some now | Some t \<Rightarrow> Some t) else None);
         sustained = (case since of None \<Rightarrow> False | Some t \<Rightarrow> grace \<le> now - t)
     in (\<lparr>pm_residual = (if agg \<noteq> None then Some residual else None),
          pm_degraded = (agg \<noteq> None \<and> (0 < dead \<or> sustained))\<rparr>,
         c\<lparr>residual_positive_since := since\<rparr>))"

section \<open>Histories\<close>

text \<open>What happens to the counters of a process: events are counted, and the health block is read now and then.\<close>

datatype ctr_op =
    Accept int
  | Written int
  | Replay int
  | Purge int
  | Retry
  | Seed int int
  | Poll int "all_stats option"

fun ctr_step :: "int \<Rightarrow> ctr_op \<Rightarrow> counters \<Rightarrow> counters" where
  "ctr_step grace (Accept n) c = record_accepted n c"
| "ctr_step grace (Written n) c = count_written n c"
| "ctr_step grace (Replay n) c = record_replayed n c"
| "ctr_step grace (Purge n) c = record_purged n c"
| "ctr_step grace Retry c = count_write_retry c"
| "ctr_step grace (Seed a w) c = seed_counters a w c"
| "ctr_step grace (Poll now agg) c = snd (pipeline_metrics grace now agg c)"

definition loss :: "all_stats option \<Rightarrow> counters \<Rightarrow> int" where
  "loss agg c =
    (case agg of None \<Rightarrow> 0
     | Some s \<Rightarrow> ct_accepted c - ct_written c - int (in_queue_total s) - int (dead_total s))"

text \<open>The times of the polls of a history, each with the loss it saw.\<close>

fun seen_losses :: "int \<Rightarrow> ctr_op list \<Rightarrow> counters \<Rightarrow> (int \<times> int) list" where
  "seen_losses grace [] c = []"
| "seen_losses grace (op # ops) c =
    (case op of Poll now agg \<Rightarrow> [(now, loss agg c)] | _ \<Rightarrow> []) @ seen_losses grace ops (ctr_step grace op c)"

definition since_of :: "(int \<times> int) list \<Rightarrow> int option" where
  "since_of L = (let s = takeWhile (\<lambda>p. 0 < snd p) (rev L) in if s = [] then None else Some (fst (last s)))"

lemma since_of_snoc:
  "since_of (L @ [(now, l)]) = (if 0 < l then (case since_of L of None \<Rightarrow> Some now | Some t \<Rightarrow> Some t) else None)"
  by (simp add: since_of_def Let_def)

lemma poll_since:
  "residual_positive_since (snd (pipeline_metrics grace now agg c)) =
    (if 0 < loss agg c then (case residual_positive_since c of None \<Rightarrow> Some now | Some t \<Rightarrow> Some t) else None)"
  by (auto simp: pipeline_metrics_def loss_def Let_def split: option.splits)

lemma run_since:
  "residual_positive_since c = since_of L \<Longrightarrow>
     residual_positive_since (fold (ctr_step grace) ops c) = since_of (L @ seen_losses grace ops c)"
proof (induction ops arbitrary: c L)
  case (Cons op ops)
  show ?case
  proof (cases op)
    case (Poll now agg)
    have "residual_positive_since (ctr_step grace op c) = since_of (L @ [(now, loss agg c)])"
      using Cons.prems by (simp add: Poll poll_since since_of_snoc)
    from Cons.IH [OF this] show ?thesis by (simp add: Poll)
  qed (use Cons.IH [of "ctr_step grace op c" L] Cons.prems in
        \<open>simp_all add: record_accepted_def count_written_def record_replayed_def record_purged_def count_write_retry_def seed_counters_def\<close>)
qed simp

lemma since_of_long:
  assumes "sorted (map fst L)"
  shows "(\<exists>t. since_of L = Some t \<and> g \<le> now - t) \<longleftrightarrow>
    (\<exists>pre t l suf. L = pre @ (t, l) # suf \<and> g \<le> now - t \<and> list_all (\<lambda>p. 0 < snd p) ((t, l) # suf))"
  (is "?a \<longleftrightarrow> ?b")
proof
  let ?s = "takeWhile (\<lambda>p. 0 < snd p) (rev L)"
  assume ?a
  then obtain t where t: "?s \<noteq> []" "fst (last ?s) = t" "g \<le> now - t" by (auto simp: since_of_def Let_def split: if_splits)
  have L: "L = rev (dropWhile (\<lambda>p. 0 < snd p) (rev L)) @ rev ?s" by (metis rev_append rev_rev_ident takeWhile_dropWhile_id)
  obtain x xs where x: "rev ?s = x # xs" using t(1) by (cases "rev ?s") auto
  have "fst x = t" using t(2) x by (metis last_rev list.sel(1) rev_rev_ident)
  moreover have "list_all (\<lambda>p. 0 < snd p) (rev ?s)" by (auto simp: list_all_iff dest: set_takeWhileD)
  ultimately show ?b using L t(3) unfolding x by (metis prod.collapse)
next
  assume ?b
  then obtain pre t l suf where b: "L = pre @ (t, l) # suf" "g \<le> now - t" "list_all (\<lambda>p. 0 < snd p) ((t, l) # suf)" by blast
  let ?s = "takeWhile (\<lambda>p. 0 < snd p) (rev L)"
  have s: "?s = rev ((t, l) # suf) @ takeWhile (\<lambda>p. 0 < snd p) (rev pre)"
  proof -
    have "takeWhile (\<lambda>p. 0 < snd p) (xs @ ys) = xs @ takeWhile (\<lambda>p. 0 < snd p) ys" if "\<forall>p\<in>set xs. 0 < snd p" for xs ys :: "(int \<times> int) list"
      using that by (induction xs) simp_all
    from this [of "rev ((t, l) # suf)" "rev pre"] show ?thesis using b(3) by (simp add: b(1) list_all_iff)
  qed
  let ?u = "takeWhile (\<lambda>p. 0 < snd p) (rev pre)"
  have "?u \<noteq> [] \<Longrightarrow> last ?u \<in> set pre" by (metis last_in_set set_rev set_takeWhileD)
  then have "last ?s \<in> set pre \<or> last ?s = (t, l)" unfolding s by (cases "?u = []") (simp_all add: last_append)
  then have "fst (last ?s) \<le> t" using assms by (auto simp: b(1) sorted_append)
  moreover have "since_of L = Some (fst (last ?s))" using s by (simp add: since_of_def Let_def)
  ultimately show ?a using b(2) by auto
qed

section \<open>Properties\<close>

text \<open>C40 [degraded_iff_loss]: the health block says degraded exactly when it should.  Along any history of the
  counters with increasing poll times, a poll reports degraded if and only if the queue statistics are known
  and there are dead letters, or every poll from some moment at least the grace period ago up to this one saw more events
  accepted than are written, queued or dead.\<close>

theorem degraded_iff_loss:
  assumes start: "residual_positive_since c0 = None" and c: "c = fold (ctr_step grace) ops c0"
    and times: "sorted (map fst (seen_losses grace ops c0 @ [(now, loss agg c)]))"
  shows "pm_degraded (fst (pipeline_metrics grace now agg c)) \<longleftrightarrow>
    (\<exists>s. agg = Some s \<and> (0 < dead_total s \<or>
       (\<exists>pre t l suf. seen_losses grace ops c0 @ [(now, loss agg c)] = pre @ (t, l) # suf \<and> grace \<le> now - t \<and>
          list_all (\<lambda>p. 0 < snd p) ((t, l) # suf))))"
proof -
  have "residual_positive_since c = since_of (seen_losses grace ops c0)"
    using run_since [of c0 "[]" grace ops] start by (simp add: c since_of_def)
  then have s: "residual_positive_since (snd (pipeline_metrics grace now agg c)) = since_of (seen_losses grace ops c0 @ [(now, loss agg c)])"
    by (simp add: poll_since since_of_snoc)
  have "pm_degraded (fst (pipeline_metrics grace now agg c)) \<longleftrightarrow>
    (\<exists>s. agg = Some s \<and> (0 < dead_total s \<or> (\<exists>t. residual_positive_since (snd (pipeline_metrics grace now agg c)) = Some t \<and> grace \<le> now - t)))"
    by (auto simp: pipeline_metrics_def Let_def split: option.splits)
  then show ?thesis unfolding s since_of_long [OF times] .
qed

theorem degraded_iff_loss_witness:
  "pm_degraded (fst (pipeline_metrics 15 20 (Some \<lparr>per_key = [], in_queue_total = 0, dead_total = 0\<rparr>)
     (fold (ctr_step 15) [Accept 2, Written 1, Poll 4 (Some \<lparr>per_key = [], in_queue_total = 0, dead_total = 0\<rparr>)]
       \<lparr>ct_accepted = 0, ct_written = 0, ct_replayed = 0, ct_write_retries = 0, residual_positive_since = None\<rparr>)))"
proof -
  let ?g = "Some \<lparr>per_key = [], in_queue_total = 0, dead_total = 0\<rparr>"
  let ?c = "\<lparr>ct_accepted = 0, ct_written = 0, ct_replayed = 0, ct_write_retries = 0, residual_positive_since = None\<rparr>"
  let ?ops = "[Accept 2, Written 1, Poll 4 ?g]"
  have l: "seen_losses 15 ?ops ?c @ [(20, loss ?g (fold (ctr_step 15) ?ops ?c))] = [] @ (4, 1) # [(20, 1)]" by code_simp
  have "sorted (map fst (seen_losses 15 ?ops ?c @ [(20, loss ?g (fold (ctr_step 15) ?ops ?c))]))" unfolding l by simp
  from degraded_iff_loss [OF _ refl this] show ?thesis
    unfolding l by (fastforce intro: exI [of _ "[]"] exI [of _ "[(20, 1)]"])
qed

end
