(* ===== verification/Spec2Isabelle.thy ===== *)
theory Spec2Isabelle
  imports HandlerSpec QueueBoot QueueGuards LiveDrain Leases RetentionJobs Ingest Buffer Deletion Counters
begin

text \<open>
  A verification development for the context-intelligence server: the service that accepts session events over
  HTTP, spools them durably, and writes them to a property graph, with large payloads kept as blobs.

  \<^bold>\<open>The program.\<close>  An event enters through \<^verbatim>\<open>post_events\<close> (\<^verbatim>\<open>main.py\<close>), which checks authorization (\<^verbatim>\<open>authz.py\<close>), the claim on the
  session (\<^verbatim>\<open>session_claims.py\<close>) and duplicates (\<^verbatim>\<open>idempotency.py\<close>) and appends one line to the log of the session
  (\<^verbatim>\<open>queue_manager.py\<close>).  A drainer per session (\<^verbatim>\<open>registry.py\<close>) reads batches, processes each event (\<^verbatim>\<open>pipeline.py\<close> and
  \<^verbatim>\<open>handlers/\<close>), flushes the graph store (\<^verbatim>\<open>services.py\<close>, \<^verbatim>\<open>neo4j_store.py\<close>) and only then commits the offset; a line that cannot be
  processed goes to a dead-letter file.  Blobs live on disk (\<^verbatim>\<open>blob_keys.py\<close>, \<^verbatim>\<open>blob_store.py\<close>) and are pruned by age
  (\<^verbatim>\<open>blob_retention.py\<close>, \<^verbatim>\<open>retention_service.py\<close>, \<^verbatim>\<open>blob_coordination.py\<close>).  \<^verbatim>\<open>deletion.py\<close> removes a session tree from all three stores.

  \<^bold>\<open>Theories.\<close>
  \<^item> \<^verbatim>\<open>Prelude\<close>, \<^verbatim>\<open>Ops\<close>, \<^verbatim>\<open>Json\<close>: Python values, dictionaries, exceptions, stateful operations, \<^verbatim>\<open>json.dumps\<close>.
  \<^item> \<^verbatim>\<open>Utils\<close>: name folding and identifiers of \<^verbatim>\<open>utils.py\<close>.
  \<^item> \<^verbatim>\<open>Files\<close>, \<^verbatim>\<open>QueueManager\<close>, \<^verbatim>\<open>QueueBoot\<close>: the spool files, the operations on one key, the passes over the directory; \<^verbatim>\<open>QueueSpec\<close>
    gives the queue contract as a locale and interprets it, \<^verbatim>\<open>QueueGuards\<close> treats interleaving.
  \<^item> \<^verbatim>\<open>Graph\<close>, \<^verbatim>\<open>Services\<close>, \<^verbatim>\<open>Layer1\<close>, \<^verbatim>\<open>SessionHandler\<close>, \<^verbatim>\<open>Layer2\<close>, \<^verbatim>\<open>Layer3\<close>, \<^verbatim>\<open>Pipeline\<close>: the in-memory graph and every handler; \<^verbatim>\<open>GraphSpec\<close>,
    \<^verbatim>\<open>PipelineSpec\<close>, \<^verbatim>\<open>SessionTypes\<close>, \<^verbatim>\<open>EventRecord\<close>, \<^verbatim>\<open>HandlerSpec\<close>: tree resolution and deletion, invariants of any event, the session
    types, the record of an event, behaviours of handlers in combination.
  \<^item> \<^verbatim>\<open>Registry\<close>: the drain loop; \<^verbatim>\<open>DrainSpec\<close>, \<^verbatim>\<open>DrainEnds\<close>, \<^verbatim>\<open>LiveDrain\<close>: its refinement of a ledger of pending, delivered and
    set-aside records, termination and outages, and the composition with the pipeline.  \<^verbatim>\<open>Counters\<close>: counters and health.
  \<^item> \<^verbatim>\<open>Buffer\<close>: the buffers, chunks and flush of \<^verbatim>\<open>neo4j_store.py\<close>.
  \<^item> \<^verbatim>\<open>BlobKeys\<close>, \<^verbatim>\<open>Blobs\<close>, \<^verbatim>\<open>BlobSpec\<close>, \<^verbatim>\<open>RetentionJobs\<close>, \<^verbatim>\<open>Leases\<close>: blob names, files, pruning, the prune job, and the two admission
    schedulers as step relations.
  \<^item> \<^verbatim>\<open>Claims\<close>, \<^verbatim>\<open>Access\<close>, \<^verbatim>\<open>Idempotency\<close>, \<^verbatim>\<open>Ingest\<close>: ownership of sessions, gates, deduplication, and the ingest route over them.
  \<^item> \<^verbatim>\<open>Deletion\<close>: the deletion service over queue, graph and blobs.

  \<^bold>\<open>Results.\<close>  An event answered "queued" is on disk as one line that reads back as sent, under its authenticated
  author; the drainer loses no record silently and buries none in an outage; queue operations are atomic and keep each
  other's files; the graph holds the record of each processed event and session types do not depend on order; a flush
  sends everything once or restores its buffers; pruning deletes only what was consented to; a claim excludes everybody else;
  deleting a tree is refused while it has undrained records.  Theorems outside the properties document behaviour that
  differs from the code's own documentation or intent.

  \<^bold>\<open>Parameters and bounds.\<close>  Third-party and environment code is a parameter: digests, JSON and date parsing, clocks,
  tokens, the disk's behaviour at each write, database transactions.  Loops of the drainer take a bound; the termination
  theorem shows that one above the number of pending records is never used up.  The walk over
  self-delegations has the bound eight of the code.  Strings are UTF-8 bytes, so lone surrogates are excluded.
  The live drainer is composed with the in-memory graph; \<^verbatim>\<open>Buffer\<close> treats the database store separately.

  \<^bold>\<open>Not modelled.\<close>  Native recovery (\<^verbatim>\<open>recovery.py\<close>, its routes in \<^verbatim>\<open>main.py\<close>, and the evidence scans in \<^verbatim>\<open>queue_manager.py\<close>), whose
  state is spread over SQLite and a journal; Cypher statements and schema repair, whose meaning is the database's; token
  verification and identities (\<^verbatim>\<open>auth.py\<close>, \<^verbatim>\<open>identity_store.py\<close>), which rest on cryptographic libraries and middleware; HTTP routers,
  configuration, logging, the process lock, the retention scheduler and client, the command line and the scripts,
  which adapt, time or print.
\<close>

end
